(* ===== verification/Prelude.thy ===== *)
theory Prelude
  imports Main "HOL-Library.Word"
begin

text \<open>
  The vocabulary shared by every component: panics and fallible results, the machine integers of
  the source, durations, and the few facts on lists and results the component proofs use.

  A Rust function that may panic returns \<open>'a res\<close>: \<open>Inl\<close> is the panic (\<open>unwrap\<close> of a missing
  value, a checked arithmetic overflow), \<open>Inr\<close> the value. Log macros have no effect on the state
  and are left out everywhere.
\<close>

section \<open>Collections of facts\<close>

named_theorems fsm_defs "definitions of the service state machine, unfolded together"
named_theorems handler_defs "the per-event handlers of the supervisor, unfolded together"
named_theorems frame_simps "fields an operation leaves alone"

section \<open>Panics and fallible results\<close>

datatype panic =
  UnknownService string       \<comment> \<open>\<open>services.get(name).unwrap()\<close> on a missing key\<close>
| NoPid string                \<comment> \<open>\<open>pid.unwrap()\<close> of a service without a process\<close>
| DurationOverflow            \<comment> \<open>\<open>Duration\<close> arithmetic that does not fit its range\<close>
| UnwrapNone                  \<comment> \<open>any other \<open>unwrap\<close> or \<open>expect\<close> of a missing value\<close>
| IndexOutOfBounds            \<comment> \<open>a slice index out of range\<close>
| ExplicitPanic               \<comment> \<open>\<open>panic!\<close> of the code itself\<close>
| Unimplemented               \<comment> \<open>\<open>todo!()\<close>\<close>

type_synonym 'a res = "panic + 'a"

fun res_bind :: "('e + 'a) \<Rightarrow> ('a \<Rightarrow> 'e + 'b) \<Rightarrow> 'e + 'b" where
  "res_bind (Inl e) f = Inl e"
| "res_bind (Inr x) f = f x"

fun res_map :: "('a \<Rightarrow> 'b) \<Rightarrow> ('e + 'a) \<Rightarrow> 'e + 'b" where
  "res_map f (Inl e) = Inl e"
| "res_map f (Inr x) = Inr (f x)"

definition ok_or :: "'e \<Rightarrow> 'a option \<Rightarrow> 'e + 'a" where
  "ok_or e x = (case x of None \<Rightarrow> Inl e | Some y \<Rightarrow> Inr y)"

lemma res_bind_Inr_iff [simp]:
  "res_bind r f = Inr y \<longleftrightarrow> (\<exists>x. r = Inr x \<and> f x = Inr y)"
  by (cases r) auto

lemma res_map_Inr_iff [simp]: "res_map f r = Inr y \<longleftrightarrow> (\<exists>x. r = Inr x \<and> y = f x)"
  by (cases r) auto

lemma ok_or_Inr_iff [simp]: "ok_or e x = Inr y \<longleftrightarrow> x = Some y"
  by (cases x) (auto simp: ok_or_def)

lemma isl_res [simp]:
  "isl (res_map f r) \<longleftrightarrow> isl r" "isl (ok_or e x) \<longleftrightarrow> x = None"
  "isl (res_bind r g) \<longleftrightarrow> isl r \<or> isl (g (projr r))"
proof -
  show "isl (res_map f r) \<longleftrightarrow> isl r" "isl (res_bind r g) \<longleftrightarrow> isl r \<or> isl (g (projr r))"
    by (cases r; simp)+
  show "isl (ok_or e x) \<longleftrightarrow> x = None"
    by (simp add: ok_or_def split: option.split)
qed

lemma ok_or_Some [simp]: "ok_or e (Some y) = Inr y"
  by (simp add: ok_or_def)

lemma ok_or_None [simp]: "ok_or e None = Inl e"
  by (simp add: ok_or_def)

text \<open>
  Rust's \<open>iter().all(p)\<close> and \<open>flat_map(f).collect()\<close> with a closure that may panic: \<open>all\<close> stops at
  the first \<open>false\<close>, so a later panic is not reached; \<open>flat_map\<close> runs over the whole list.
\<close>

fun all_res :: "('a \<Rightarrow> 'e + bool) \<Rightarrow> 'a list \<Rightarrow> 'e + bool" where
  "all_res p [] = Inr True"
| "all_res p (x # xs) = res_bind (p x) (\<lambda>b. if b then all_res p xs else Inr False)"

fun flat_map_res :: "('a \<Rightarrow> 'e + 'b list) \<Rightarrow> 'a list \<Rightarrow> 'e + 'b list" where
  "flat_map_res f [] = Inr []"
| "flat_map_res f (x # xs) = res_bind (f x) (\<lambda>ys. res_map (\<lambda>zs. ys @ zs) (flat_map_res f xs))"

lemma all_res_total:
  "\<forall>x \<in> set xs. p x = Inr (q x) \<Longrightarrow> all_res p xs = Inr (list_all q xs)"
  by (induction xs) auto

lemma all_res_True_iff: "all_res p xs = Inr True \<longleftrightarrow> (\<forall>x \<in> set xs. p x = Inr True)"
  by (induction xs) (auto split: if_splits)

lemma flat_map_res_total:
  "\<forall>x \<in> set xs. f x = Inr (g x) \<Longrightarrow> flat_map_res f xs = Inr (concat (map g xs))"
  by (induction xs) auto

lemma flat_map_res_Inr_set:
  "flat_map_res f xs = Inr ys \<Longrightarrow> y \<in> set ys \<longleftrightarrow> (\<exists>x \<in> set xs. \<exists>zs. f x = Inr zs \<and> y \<in> set zs)"
  by (induction xs arbitrary: ys) auto

lemma flat_map_res_Inr_all:
  "flat_map_res f xs = Inr ys \<Longrightarrow> x \<in> set xs \<Longrightarrow> \<exists>zs. f x = Inr zs \<and> set zs \<subseteq> set ys"
  by (induction xs arbitrary: ys) fastforce+

lemma flat_map_res_no_panic:
  "\<forall>x \<in> set xs. \<exists>ys. f x = Inr ys \<Longrightarrow> \<exists>zs. flat_map_res f xs = Inr zs"
  by (induction xs) auto

section \<open>Machines that handle a list of events\<close>

text \<open>
  \<open>events.into_iter().flat_map(|ev| self.handle(ev)).collect()\<close>: the handler changes the state, and
  the events it returns are collected in order; the third component collects outside effects.
\<close>

fun run_events ::
  "('st \<Rightarrow> 'ev \<Rightarrow> 'e + ('st \<times> 'o list \<times> 'a list)) \<Rightarrow> 'st \<Rightarrow> 'ev list \<Rightarrow> 'e + ('st \<times> 'o list \<times> 'a list)"
where
  "run_events step st [] = Inr (st, [], [])"
| "run_events step st (ev # evs) =
    res_bind (step st ev) (\<lambda>(st1, out1, acts1).
      res_map (\<lambda>(st2, out2, acts2). (st2, out1 @ out2, acts1 @ acts2)) (run_events step st1 evs))"

text \<open>A relation every step respects holds between the ends of a run.\<close>

locale step_relation =
  fixes step :: "'st \<Rightarrow> 'ev \<Rightarrow> 'e + ('st \<times> 'o list \<times> 'a list)"
    and rel :: "'st \<Rightarrow> 'st \<Rightarrow> bool"
  assumes rel_refl: "rel st st"
    and rel_trans: "rel st st1 \<Longrightarrow> rel st1 st2 \<Longrightarrow> rel st st2"
    and rel_step: "step st ev = Inr (st', out, acts) \<Longrightarrow> rel st st'"
begin

lemma rel_run: "run_events step st evs = Inr (st', out, acts) \<Longrightarrow> rel st st'"
proof (induction evs arbitrary: st out acts)
  case Nil
  then show ?case by (simp add: rel_refl)
next
  case (Cons ev evs)
  then obtain st1 out1 acts1 out2 acts2
    where "step st ev = Inr (st1, out1, acts1)" and "run_events step st1 evs = Inr (st', out2, acts2)"
    by auto
  then show ?case
    by (blast intro: rel_trans rel_step Cons.IH)
qed

end

text \<open>An invariant: the relation that carries it forward.\<close>

locale step_invariant =
  fixes step :: "'st \<Rightarrow> 'ev \<Rightarrow> 'e + ('st \<times> 'o list \<times> 'a list)"
    and inv :: "'st \<Rightarrow> bool"
  assumes inv_step: "inv st \<Longrightarrow> step st ev = Inr (st', out, acts) \<Longrightarrow> inv st'"

sublocale step_invariant \<subseteq> carried: step_relation step "\<lambda>st st'. inv st \<longrightarrow> inv st'"
  by unfold_locales (auto intro: inv_step)

context step_invariant
begin

lemma inv_run: "inv st \<Longrightarrow> run_events step st evs = Inr (st', out, acts) \<Longrightarrow> inv st'"
  using carried.rel_run by blast

text \<open>What a step guarantees of its events and effects under the invariant, those of a run have.\<close>

lemma run_produces:
  assumes "\<And>st ev st' out acts. inv st \<Longrightarrow> step st ev = Inr (st', out, acts) \<Longrightarrow> set out \<subseteq> Outs \<and> set acts \<subseteq> Effs"
    and "inv st" and "run_events step st evs = Inr (st', out, acts)"
  shows "set out \<subseteq> Outs \<and> set acts \<subseteq> Effs"
  using assms(2-)
proof (induction evs arbitrary: st out acts)
  case Nil
  then show ?case by simp
next
  case (Cons ev evs)
  then obtain st1 out1 acts1 out2 acts2
    where s: "step st ev = Inr (st1, out1, acts1)"
      and r: "run_events step st1 evs = Inr (st', out2, acts2)"
      and eq: "out = out1 @ out2" "acts = acts1 @ acts2"
    by auto
  from Cons.IH [OF inv_step [OF Cons.prems(1) s] r] assms(1) [OF Cons.prems(1) s]
  show ?case by (simp add: eq)
qed

end

section \<open>Machine integers and durations\<close>

text \<open>
  \<open>u32\<close> and \<open>i32\<close> are 32-bit words: \<open>+\<close> wraps, as release builds of Rust do (the workspace's release
  profile leaves overflow checks off). An \<open>i32\<close> is read through \<open>sint\<close>.
\<close>

type_synonym u32 = "32 word"
type_synonym i32 = "32 word"

definition u32_from_bool :: "bool \<Rightarrow> u32" where
  "u32_from_bool b = (if b then 1 else 0)"

definition i32_from_bool :: "bool \<Rightarrow> i32" where
  "i32_from_bool b = (if b then 1 else 0)"

definition i32_gt :: "i32 \<Rightarrow> i32 \<Rightarrow> bool" where
  "i32_gt a b \<longleftrightarrow> sint b < sint a"

text \<open>
  A \<open>Duration\<close> is a count of nanoseconds; its seconds are a \<open>u64\<close>. \<open>Duration * u32\<close> and
  \<open>Duration + Duration\<close> panic when the result does not fit.
\<close>

type_synonym duration = nat
type_synonym instant = nat

definition nanos_per_sec :: nat where
  "nanos_per_sec = 1000000000"

definition duration_limit :: nat where
  "duration_limit = 2 ^ 64 * nanos_per_sec"

definition from_secs :: "nat \<Rightarrow> duration" where
  "from_secs n = n * nanos_per_sec"

definition as_secs :: "duration \<Rightarrow> nat" where
  "as_secs d = d div nanos_per_sec"

definition duration_check :: "nat \<Rightarrow> duration res" where
  "duration_check d = (if d < duration_limit then Inr d else Inl DurationOverflow)"

definition duration_mul :: "duration \<Rightarrow> u32 \<Rightarrow> duration res" where
  "duration_mul d k = duration_check (d * unat k)"

definition duration_add :: "duration \<Rightarrow> duration \<Rightarrow> duration res" where
  "duration_add d e = duration_check (d + e)"

text \<open>\<open>Instant::elapsed\<close> saturates at zero when the clock reads earlier than the instant.\<close>

definition elapsed :: "instant \<Rightarrow> instant \<Rightarrow> duration" where
  "elapsed now start = now - start"

lemma as_secs_from_secs [simp]: "as_secs (from_secs n) = n"
  by (simp add: as_secs_def from_secs_def nanos_per_sec_def)

lemma duration_check_Inr [simp]: "duration_check d = Inr e \<longleftrightarrow> d < duration_limit \<and> e = d"
  by (auto simp: duration_check_def)

lemma sint_incr:
  fixes a :: i32
  assumes "sint a < 2 ^ 31 - 1"
  shows "sint (a + 1) = sint a + 1"
proof -
  have lo: "- (2 ^ 31) \<le> sint a"
    using sint_ge [of a] by simp
  have "sint (a + 1) = signed_take_bit 31 (sint a + 1)"
    by (simp add: sint_word_ariths)
  also have "\<dots> = sint a + 1"
    using assms lo by (intro signed_take_bit_int_eq_self) auto
  finally show ?thesis .
qed

lemma unat_incr:
  fixes a :: u32
  assumes "unat a < 2 ^ 32 - 1"
  shows "unat (a + 1) = Suc (unat a)"
  using assms by (simp add: unat_word_ariths)

section \<open>Strings\<close>

text \<open>\<open>str::starts_with\<close> and \<open>str::ends_with\<close>.\<close>

definition starts_with :: "string \<Rightarrow> string \<Rightarrow> bool" where
  "starts_with s p \<longleftrightarrow> take (length p) s = p"

definition ends_with :: "string \<Rightarrow> string \<Rightarrow> bool" where
  "ends_with s p \<longleftrightarrow> length p \<le> length s \<and> drop (length s - length p) s = p"

text \<open>The pieces of a string between the occurrences of a separator; there is always one.\<close>

fun split_on :: "char \<Rightarrow> string \<Rightarrow> string list" where
  "split_on sep [] = [[]]"
| "split_on sep (c # cs) =
    (if c = sep then [] # split_on sep cs
     else (case split_on sep cs of [] \<Rightarrow> [[c]] | p # ps \<Rightarrow> (c # p) # ps))"

lemma split_on_no_sep: "sep \<notin> set p \<Longrightarrow> split_on sep p = [p]"
  by (induction p) auto

lemma split_on_append: "sep \<notin> set p \<Longrightarrow> split_on sep (p @ sep # s) = p # split_on sep s"
  by (induction p) auto

end
