(* ===== verification/Hash_Map.thy ===== *)
theory Hash_Map
  imports Prelude "HOL-Library.AList"
begin

text \<open>
  \<open>std::collections::HashMap\<close>, the container of the repository of services, of the pid table, of the
  environment and of the worker table. The interface is the locale \<open>hash_map\<close>: what a lookup returns
  after an insertion or a removal, and how the iteration over the entries agrees with lookups.
  The model of the map is an association list with distinct keys whose order is the iteration order;
  replacing the value of a present key keeps its place. No theorem depends on which order it is:
  they hold for every well-formed list.
\<close>

type_synonym ('k, 'v) hmap = "('k \<times> 'v) list"

definition hm_empty :: "('k, 'v) hmap" where
  "hm_empty = []"

definition hm_get :: "('k, 'v) hmap \<Rightarrow> 'k \<Rightarrow> 'v option" where
  "hm_get m k = map_of m k"

definition hm_insert :: "'k \<Rightarrow> 'v \<Rightarrow> ('k, 'v) hmap \<Rightarrow> ('k, 'v) hmap" where
  "hm_insert k v m = AList.update k v m"

definition hm_remove :: "'k \<Rightarrow> ('k, 'v) hmap \<Rightarrow> ('k, 'v) hmap" where
  "hm_remove k m = AList.delete k m"

definition hm_entries :: "('k, 'v) hmap \<Rightarrow> ('k \<times> 'v) list" where
  "hm_entries m = m"

definition hm_wf :: "('k, 'v) hmap \<Rightarrow> bool" where
  "hm_wf m \<longleftrightarrow> distinct (map fst m)"

text \<open>\<open>extend\<close> and \<open>collect\<close> insert one entry after the other, so the last value of a key wins.\<close>

fun hm_extend :: "('k, 'v) hmap \<Rightarrow> ('k \<times> 'v) list \<Rightarrow> ('k, 'v) hmap" where
  "hm_extend m [] = m"
| "hm_extend m ((k, v) # kvs) = hm_extend (hm_insert k v m) kvs"

definition hm_collect :: "('k \<times> 'v) list \<Rightarrow> ('k, 'v) hmap" where
  "hm_collect kvs = hm_extend hm_empty kvs"

text \<open>\<open>entry(k).or_insert(v)\<close>: insert only where the key is missing.\<close>

definition hm_or_insert :: "'k \<Rightarrow> 'v \<Rightarrow> ('k, 'v) hmap \<Rightarrow> ('k, 'v) hmap" where
  "hm_or_insert k v m = (case hm_get m k of None \<Rightarrow> hm_insert k v m | Some _ \<Rightarrow> m)"

section \<open>The interface\<close>

locale hash_map =
  fixes empty :: "'m"
    and get :: "'m \<Rightarrow> 'k \<Rightarrow> 'v option"
    and insert :: "'k \<Rightarrow> 'v \<Rightarrow> 'm \<Rightarrow> 'm"
    and remove :: "'k \<Rightarrow> 'm \<Rightarrow> 'm"
    and entries :: "'m \<Rightarrow> ('k \<times> 'v) list"
    and wf :: "'m \<Rightarrow> bool"
  assumes wf_empty: "wf empty"
    and wf_insert: "wf m \<Longrightarrow> wf (insert k v m)"
    and wf_remove: "wf m \<Longrightarrow> wf (remove k m)"
    and get_empty: "get empty k = None"
    and get_insert: "wf m \<Longrightarrow> get (insert k v m) = (get m)(k \<mapsto> v)"
    and get_remove: "wf m \<Longrightarrow> get (remove k m) = (get m)(k := None)"
    and entries_get: "wf m \<Longrightarrow> (k, v) \<in> set (entries m) \<longleftrightarrow> get m k = Some v"
    and entries_distinct: "wf m \<Longrightarrow> distinct (map fst (entries m))"
begin

lemma all_entries:
  "wf m \<Longrightarrow> list_all (\<lambda>(k, v). P k v) (entries m) \<longleftrightarrow> (\<forall>k v. get m k = Some v \<longrightarrow> P k v)"
  by (auto simp: list_all_iff entries_get)

lemma ex_entries:
  "wf m \<Longrightarrow> list_ex (\<lambda>(k, v). P k v) (entries m) \<longleftrightarrow> (\<exists>k v. get m k = Some v \<and> P k v)"
  by (force simp: list_ex_iff entries_get)

lemma filter_keys:
  "wf m \<Longrightarrow> k \<in> set (map fst (filter (\<lambda>(k, v). P k v) (entries m)))
    \<longleftrightarrow> (\<exists>v. get m k = Some v \<and> P k v)"
  by (force simp: entries_get)

lemma filter_keys_distinct:
  "wf m \<Longrightarrow> distinct (map fst (filter (\<lambda>(k, v). P k v) (entries m)))"
  by (rule distinct_map_filter) (rule entries_distinct)

lemma remove_insert_get: "wf m \<Longrightarrow> get (remove k (insert k v m)) = get (remove k m)"
  by (simp add: get_insert get_remove wf_insert)

end

lemma hm_wf_insert: "hm_wf m \<Longrightarrow> hm_wf (hm_insert k v m)"
  by (simp add: hm_wf_def hm_insert_def distinct_update)

lemma hm_wf_remove: "hm_wf m \<Longrightarrow> hm_wf (hm_remove k m)"
  by (simp add: hm_wf_def hm_remove_def distinct_delete)

lemma hm_wf_empty: "hm_wf hm_empty"
  by (simp add: hm_wf_def hm_empty_def)

lemma hm_entries_distinct: "hm_wf m \<Longrightarrow> distinct (map fst (hm_entries m))"
  by (simp add: hm_wf_def hm_entries_def)

lemma hm_get_empty_fun: "hm_get hm_empty k = None"
  by (simp add: hm_get_def hm_empty_def)

lemma hm_get_insert_fun: "hm_get (hm_insert k v m) = (hm_get m)(k \<mapsto> v)"
  by (simp add: fun_eq_iff hm_get_def hm_insert_def update_conv')

lemma hm_get_remove_fun: "hm_get (hm_remove k m) = (hm_get m)(k := None)"
  by (simp add: fun_eq_iff hm_get_def hm_remove_def delete_conv')

interpretation hm: hash_map hm_empty hm_get hm_insert hm_remove hm_entries hm_wf
proof unfold_locales
  fix m :: "('k, 'v) hmap" and k v
  show "hm_wf m \<Longrightarrow> (k, v) \<in> set (hm_entries m) \<longleftrightarrow> hm_get m k = Some v"
    by (simp add: hm_wf_def hm_entries_def hm_get_def)
qed (simp_all add: hm_wf_insert hm_wf_remove hm_entries_distinct hm_get_empty_fun
  hm_get_insert_fun hm_get_remove_fun hm_wf_empty)

text \<open>The laws that need no well-formedness on association lists, for the simplifier.\<close>

lemma hm_get_empty [simp]: "hm_get hm_empty k = None"
  by (rule hm.get_empty)

lemma hm_get_insert [simp]: "hm_get (hm_insert k v m) k' = (if k' = k then Some v else hm_get m k')"
  by (simp add: hm_get_insert_fun)

lemma hm_get_remove [simp]: "hm_get (hm_remove k m) k' = (if k' = k then None else hm_get m k')"
  by (simp add: hm_get_remove_fun)

lemma hm_keys_insert:
  "map fst (hm_insert k v m) = (if k \<in> fst ` set m then map fst m else map fst m @ [k])"
  by (simp add: hm_insert_def update_keys)

lemma hm_get_mem: "hm_get m k = Some v \<Longrightarrow> (k, v) \<in> set m"
  by (simp add: hm_get_def map_of_SomeD)

lemma hm_keys_get: "k \<in> fst ` set m \<longleftrightarrow> hm_get m k \<noteq> None"
  by (simp add: hm_get_def map_of_eq_None_iff)

lemma hm_keys_insert_present: "hm_get m k \<noteq> None \<Longrightarrow> map fst (hm_insert k v m) = map fst m"
  by (simp add: hm_keys_insert hm_keys_get)

lemma hm_wf_extend: "hm_wf m \<Longrightarrow> hm_wf (hm_extend m kvs)"
  by (induction m kvs rule: hm_extend.induct) (simp_all add: hm_wf_insert)

lemma hm_wf_collect [simp]: "hm_wf (hm_collect kvs)"
  unfolding hm_collect_def by (rule hm_wf_extend) (rule hm.wf_empty)

lemma hm_get_extend:
  "hm_get (hm_extend m kvs) k = (case map_of (rev kvs) k of None \<Rightarrow> hm_get m k | Some v \<Rightarrow> Some v)"
  by (induction m kvs rule: hm_extend.induct) (auto simp: map_add_def split: option.splits)

lemma hm_get_collect: "hm_get (hm_collect kvs) k = map_of (rev kvs) k"
  by (simp add: hm_collect_def hm_get_extend split: option.splits)

lemma hm_get_or_insert [simp]:
  "hm_get (hm_or_insert k v m) k' =
    (if k' = k then (case hm_get m k of None \<Rightarrow> Some v | Some w \<Rightarrow> Some w) else hm_get m k')"
  by (auto simp: hm_or_insert_def split: option.splits)

lemma hm_wf_or_insert: "hm_wf m \<Longrightarrow> hm_wf (hm_or_insert k v m)"
  by (simp add: hm_or_insert_def hm_wf_insert split: option.splits)

end
