(* ===== verification/Formats.thy ===== *)
theory Formats
  imports Hash_Map Decimal
begin

text \<open>
  The data of \<open>horust/src/horust/formats\<close>: the events of the bus, the status of a service and the
  sections of a service file, with their defaults and string conversions. Record fields carry the
  initials of their struct, because Isabelle's record fields are global names.
  Times are \<open>duration\<close>s in nanoseconds; exit codes and signals are plain values. The CPU share of a
  resource limit is a float, kept as the opaque type \<open>f64\<close>.
\<close>

section \<open>Events (formats/mod.rs)\<close>

type_synonym service_name = string
type_synonym pid = int

datatype shutting_down = Gracefully | Forcefully

datatype exit_status = Successful | SomeServiceFailed

datatype healthiness_status = Healthy | Unhealthy

datatype service_status =
  Starting | Started | Running | InKilling | Success | Finished | FinishedFailed | Failed | Initial

datatype event =
  PidChanged service_name pid
| StatusUpdate service_name service_status
| StatusChanged service_name service_status
| ServiceExited service_name int
| ForceKill service_name
| Kill service_name
| SpawnFailed service_name
| Run service_name
| ShuttingDownInitiated shutting_down
| HealthCheck service_name healthiness_status

definition new_pid_changed :: "service_name \<Rightarrow> pid \<Rightarrow> event" where
  "new_pid_changed n p = PidChanged n p"

definition new_status_changed :: "service_name \<Rightarrow> service_status \<Rightarrow> event" where
  "new_status_changed n s = StatusChanged n s"

definition new_status_update :: "service_name \<Rightarrow> service_status \<Rightarrow> event" where
  "new_status_update n s = StatusUpdate n s"

definition new_service_exited :: "service_name \<Rightarrow> int \<Rightarrow> event" where
  "new_service_exited n c = ServiceExited n c"

definition new_force_kill :: "service_name \<Rightarrow> event" where
  "new_force_kill n = ForceKill n"

lemmas event_news [simp] =
  new_pid_changed_def new_status_changed_def new_status_update_def new_service_exited_def
  new_force_kill_def

definition healthiness_from_bool :: "bool \<Rightarrow> healthiness_status" where
  "healthiness_from_bool check = (if check then Healthy else Unhealthy)"

lemma healthiness_from_bool_iff [simp]:
  "healthiness_from_bool b = Healthy \<longleftrightarrow> b" "healthiness_from_bool b = Unhealthy \<longleftrightarrow> \<not> b"
  by (simp_all add: healthiness_from_bool_def)

text \<open>The nine statuses can be enumerated, so facts on the transition table are evaluated.\<close>

instantiation service_status :: enum
begin

definition enum_service_status :: "service_status list" where
  "enum_service_status =
    [Starting, Started, Running, InKilling, Success, Finished, FinishedFailed, Failed, Initial]"

definition enum_all_service_status :: "(service_status \<Rightarrow> bool) \<Rightarrow> bool" where
  "enum_all_service_status P \<longleftrightarrow> list_all P enum_class.enum"

definition enum_ex_service_status :: "(service_status \<Rightarrow> bool) \<Rightarrow> bool" where
  "enum_ex_service_status P \<longleftrightarrow> list_ex P enum_class.enum"

instance
proof
  show univ: "(UNIV :: service_status set) = set enum_class.enum"
    unfolding enum_service_status_def using service_status.exhaust by auto
  show "distinct (enum_class.enum :: service_status list)"
    by (simp add: enum_service_status_def)
  fix P :: "service_status \<Rightarrow> bool"
  show "enum_class.enum_all P \<longleftrightarrow> Ball UNIV P"
    unfolding enum_all_service_status_def univ by (simp add: list_all_iff)
  show "enum_class.enum_ex P \<longleftrightarrow> Bex UNIV P"
    unfolding enum_ex_service_status_def univ by (simp add: list_ex_iff)
qed

end

fun show_status :: "service_status \<Rightarrow> string" where
  "show_status Failed = ''Failed''"
| "show_status Finished = ''Finished''"
| "show_status FinishedFailed = ''FinishedFailed''"
| "show_status InKilling = ''InKilling''"
| "show_status Initial = ''Initial''"
| "show_status Running = ''Running''"
| "show_status Started = ''Started''"
| "show_status Starting = ''Starting''"
| "show_status Success = ''Success''"

section \<open>Log targets\<close>

datatype log_output = Stderr | Stdout | Path string | Pipe int

fun log_output_to_string :: "log_output \<Rightarrow> string" where
  "log_output_to_string Stdout = ''STDOUT''"
| "log_output_to_string Stderr = ''STDERR''"
| "log_output_to_string (Path path) = path"
| "log_output_to_string (Pipe fd) = show_int fd"

definition log_output_from :: "string \<Rightarrow> log_output" where
  "log_output_from s = (if s = ''STDOUT'' then Stdout else if s = ''STDERR'' then Stderr else Path s)"

text \<open>Reading a log target from a file and writing it: serde hands over and takes the string.\<close>

definition log_output_visit_str :: "string \<Rightarrow> log_output" where
  "log_output_visit_str value = log_output_from value"

definition log_output_from_string :: "string \<Rightarrow> log_output" where
  "log_output_from_string strategy = log_output_from strategy"

definition log_output_serialize :: "log_output \<Rightarrow> string" where
  "log_output_serialize l = (let as_string = log_output_to_string l in as_string)"

text \<open>Sizes are strings like \<open>100 MB\<close>; \<open>parse\<close> is \<open>bytefmt::parse\<close>, the value what deserializing the string gave.\<close>

definition str_to_bytes :: "(string \<Rightarrow> string + nat) \<Rightarrow> string + string \<Rightarrow> string + nat" where
  "str_to_bytes parse value = res_bind value parse"

definition str_to_optional_bytes ::
  "(string \<Rightarrow> string + nat) \<Rightarrow> string + string option \<Rightarrow> string + nat option" where
  "str_to_optional_bytes parse value =
    res_bind value (\<lambda>s. case s of Some s \<Rightarrow> res_map Some (parse s) | None \<Rightarrow> Inr None)"

section \<open>Restart, failure and termination\<close>

datatype restart_strategy = Always | OnFailure | Never

text \<open>
  \<open>str::to_lowercase\<close> maps the whole of Unicode; the conversions take it as an argument.
\<close>

definition restart_strategy_from :: "(string \<Rightarrow> string) \<Rightarrow> string \<Rightarrow> restart_strategy" where
  "restart_strategy_from to_lowercase s =
    (let l = to_lowercase s in
      if l = ''always'' then Always
      else if l = ''on-failure'' then OnFailure
      else if l = ''never'' then Never
      else Never)"

record restart =
  rs_strategy :: restart_strategy
  rs_backoff :: duration
  rs_attempts :: u32

definition default_attempts :: u32 where
  "default_attempts = 0"

definition default_restart :: restart where
  "default_restart = \<lparr>rs_strategy = Never, rs_backoff = from_secs 0, rs_attempts = default_attempts\<rparr>"

datatype failure_strategy = Shutdown | KillDependents | Ignore

definition failure_strategy_from :: "(string \<Rightarrow> string) \<Rightarrow> string \<Rightarrow> failure_strategy" where
  "failure_strategy_from to_lowercase s =
    (let l = to_lowercase s in
      if l = ''kill-dependents'' then KillDependents
      else if l = ''kill-all'' then Shutdown
      else if l = ''ignore'' then Ignore
      else Ignore)"

record failure =
  fl_successful_exit_code :: "int list"
  fl_strategy :: failure_strategy

definition default_successful_exit_code :: "int list" where
  "default_successful_exit_code = [0]"

definition default_failure :: failure where
  "default_failure =
    \<lparr>fl_successful_exit_code = default_successful_exit_code, fl_strategy = Ignore\<rparr>"

datatype termination_signal =
  TS_HUP | TS_INT | TS_QUIT | TS_ILL | TS_TRAP | TS_ABRT | TS_BUS | TS_FPE | TS_USR1 | TS_SEGV | TS_USR2 | TS_PIPE | TS_ALRM | TS_TERM
| TS_STKFLT | TS_CHLD | TS_CONT | TS_STOP | TS_TSTP | TS_TTIN | TS_TTOU | TS_URG | TS_XCPU | TS_XFSZ | TS_VTALRM | TS_PROF | TS_WINCH
| TS_IO | TS_PWR | TS_SYS

text \<open>The signals of the \<open>nix\<close> crate the conversion names, and \<open>SIGKILL\<close>.\<close>

datatype os_signal =
  SIGHUP | SIGINT | SIGQUIT | SIGILL | SIGTRAP | SIGABRT | SIGBUS | SIGFPE | SIGUSR1 | SIGSEGV
| SIGUSR2 | SIGPIPE | SIGALRM | SIGTERM | SIGSTKFLT | SIGCHLD | SIGCONT | SIGSTOP | SIGTSTP
| SIGTTIN | SIGTTOU | SIGURG | SIGXCPU | SIGXFSZ | SIGVTALRM | SIGPROF | SIGWINCH | SIGIO | SIGPWR
| SIGSYS | SIGKILL

fun signal_of :: "termination_signal \<Rightarrow> os_signal" where
  "signal_of TS_HUP = SIGHUP"
| "signal_of TS_INT = SIGINT"
| "signal_of TS_QUIT = SIGQUIT"
| "signal_of TS_ILL = SIGILL"
| "signal_of TS_TRAP = SIGTRAP"
| "signal_of TS_ABRT = SIGABRT"
| "signal_of TS_BUS = SIGBUS"
| "signal_of TS_FPE = SIGFPE"
| "signal_of TS_USR1 = SIGUSR1"
| "signal_of TS_SEGV = SIGSEGV"
| "signal_of TS_USR2 = SIGUSR2"
| "signal_of TS_PIPE = SIGPIPE"
| "signal_of TS_ALRM = SIGALRM"
| "signal_of TS_TERM = SIGTERM"
| "signal_of TS_STKFLT = SIGSTKFLT"
| "signal_of TS_CHLD = SIGCHLD"
| "signal_of TS_CONT = SIGCONT"
| "signal_of TS_STOP = SIGSTOP"
| "signal_of TS_TSTP = SIGTSTP"
| "signal_of TS_TTIN = SIGTTIN"
| "signal_of TS_TTOU = SIGTTOU"
| "signal_of TS_URG = SIGURG"
| "signal_of TS_XCPU = SIGXCPU"
| "signal_of TS_XFSZ = SIGXFSZ"
| "signal_of TS_VTALRM = SIGVTALRM"
| "signal_of TS_PROF = SIGPROF"
| "signal_of TS_WINCH = SIGWINCH"
| "signal_of TS_IO = SIGIO"
| "signal_of TS_PWR = SIGPWR"
| "signal_of TS_SYS = SIGSYS"

record termination_section =
  tm_signal :: termination_signal
  tm_wait :: duration
  tm_die_if_failed :: "service_name list"

definition default_wait :: duration where
  "default_wait = from_secs 5"

definition default_termination :: termination_section where
  "default_termination = \<lparr>tm_signal = TS_TERM, tm_wait = default_wait, tm_die_if_failed = []\<rparr>"

section \<open>Healthiness, environment, user and resource limits\<close>

record healthiness =
  hl_http_endpoint :: "string option"
  hl_file_path :: "string option"
  hl_command :: "string option"
  hl_max_failed :: i32

definition default_max_failed :: i32 where
  "default_max_failed = 3"

definition default_healthiness :: healthiness where
  "default_healthiness =
    \<lparr>hl_http_endpoint = None, hl_file_path = None, hl_command = None, hl_max_failed = 3\<rparr>"

definition has_any_check_defined :: "healthiness \<Rightarrow> bool" where
  "has_any_check_defined h \<longleftrightarrow>
    hl_http_endpoint h \<noteq> None \<or> hl_file_path h \<noteq> None \<or> hl_command h \<noteq> None"

record environment =
  en_keep_env :: bool
  en_re_export :: "string list"
  en_additional :: "(string, string) hmap"

definition default_environment :: environment where
  "default_environment = \<lparr>en_keep_env = False, en_re_export = [], en_additional = hm_empty\<rparr>"

datatype user = Uid nat | Name string

definition user_from_uid :: "nat \<Rightarrow> user" where
  "user_from_uid uid = Uid uid"

text \<open>The user of the process.\<close>

definition default_user :: "nat \<Rightarrow> user" where
  "default_user getuid = user_from_uid getuid"

lemmas user_defaults [simp] = user_from_uid_def default_user_def

typedecl f64

record resource_limit =
  rl_cpu :: "f64 option"
  rl_memory :: "nat option"
  rl_pids_max :: "nat option"

definition default_resource_limit :: resource_limit where
  "default_resource_limit = \<lparr>rl_cpu = None, rl_memory = None, rl_pids_max = None\<rparr>"

definition has_no_limit :: "resource_limit \<Rightarrow> bool" where
  "has_no_limit r \<longleftrightarrow> rl_cpu r = None \<and> rl_memory r = None \<and> rl_pids_max r = None"

section \<open>Services\<close>

record service =
  sv_name :: service_name
  sv_command :: string
  sv_user :: user
  sv_working_directory :: string
  sv_stdout :: log_output
  sv_stdout_rotate_size :: nat
  sv_stdout_should_append_timestamp_to_filename :: bool
  sv_stderr :: log_output
  sv_start_delay :: duration
  sv_start_after :: "service_name list"
  sv_shutdown_after :: "service_name list"
  sv_signal_rewrite :: "string option"
  sv_restart :: restart
  sv_healthiness :: healthiness
  sv_failure :: failure
  sv_environment :: environment
  sv_termination :: termination_section
  sv_resource_limit :: resource_limit

text \<open>
  The defaults serde gives a missing key of a service file, and \<open>Service::default()\<close>, which the
  single-command mode starts from. Both depend on the process: its working directory and its uid.
\<close>

definition default_stdout_log :: log_output where
  "default_stdout_log = Stdout"

definition default_stderr_log :: log_output where
  "default_stderr_log = Stderr"

definition default_working_directory :: "string \<Rightarrow> string" where
  "default_working_directory current_dir = current_dir"

definition default_as_false :: bool where
  "default_as_false = False"

lemmas key_defaults [simp] = default_working_directory_def default_as_false_def

definition default_service :: "string \<Rightarrow> nat \<Rightarrow> service" where
  "default_service current_dir uid =
    \<lparr>sv_name = '''', sv_command = ''command'', sv_user = default_user uid,
     sv_working_directory = current_dir, sv_stdout = Stdout, sv_stdout_rotate_size = 0,
     sv_stdout_should_append_timestamp_to_filename = False, sv_stderr = Stdout,
     sv_start_delay = from_secs 0, sv_start_after = [], sv_shutdown_after = [],
     sv_signal_rewrite = None, sv_restart = default_restart, sv_healthiness = default_healthiness,
     sv_failure = default_failure, sv_environment = default_environment,
     sv_termination = default_termination, sv_resource_limit = default_resource_limit\<rparr>"

definition from_command :: "string \<Rightarrow> nat \<Rightarrow> string \<Rightarrow> service" where
  "from_command current_dir uid cmd =
    (default_service current_dir uid)\<lparr>sv_name := cmd, sv_command := cmd\<rparr>"

text \<open>A service file that holds only \<open>command\<close>: every other key takes its serde default.\<close>

definition service_from_toml_command :: "string \<Rightarrow> nat \<Rightarrow> string \<Rightarrow> service" where
  "service_from_toml_command current_dir uid cmd =
    \<lparr>sv_name = '''', sv_command = cmd, sv_user = default_user uid,
     sv_working_directory = default_working_directory current_dir,
     sv_stdout = default_stdout_log, sv_stdout_rotate_size = 0,
     sv_stdout_should_append_timestamp_to_filename = default_as_false, sv_stderr = default_stderr_log,
     sv_start_delay = 0, sv_start_after = [], sv_shutdown_after = [], sv_signal_rewrite = None,
     sv_restart = default_restart, sv_healthiness = default_healthiness,
     sv_failure = default_failure, sv_environment = default_environment,
     sv_termination = default_termination, sv_resource_limit = default_resource_limit\<rparr>"

section \<open>Properties\<close>

text \<open>
  A log target written as a string and read back is the same target exactly when it is not a
  pipe and not a path spelled like one of the two stream names.
\<close>

lemma log_output_roundtrip:
  "log_output_from (log_output_to_string l) = l
    \<longleftrightarrow> l \<noteq> Path ''STDOUT'' \<and> l \<noteq> Path ''STDERR'' \<and> (\<nexists>fd. l = Pipe fd)"
  by (cases l) (auto simp: log_output_from_def)

end
