(* ===== verification/Service_Handler.thy ===== *)
theory Service_Handler
  imports Formats
begin

text \<open>
  \<open>supervisor/service_handler.rs\<close>, the part that looks at one service alone: the handler record, its
  predicates, the table of legal status changes, the restart budget, the health-check counter and
  the decision to send SIGKILL. The relation \<open>accepts\<close> is the state machine the table stands for;
  the theory Service_Props shows that the code implements it and touches nothing else.
\<close>

section \<open>The handler\<close>

record service_handler =
  sh_service :: service
  sh_status :: service_status
  sh_pid :: "pid option"
  sh_restart_attempts :: u32
  sh_healthiness_checks_failed :: "i32 option"
  sh_shutting_down_start :: "instant option"

definition handler_of :: "service \<Rightarrow> service_handler" where
  "handler_of s =
    \<lparr>sh_service = s, sh_status = Initial, sh_pid = None, sh_restart_attempts = 0,
     sh_healthiness_checks_failed = None, sh_shutting_down_start = None\<rparr>"

definition sh_name :: "service_handler \<Rightarrow> service_name" where
  "sh_name sh = sv_name (sh_service sh)"

definition sh_start_after :: "service_handler \<Rightarrow> service_name list" where
  "sh_start_after sh = sv_start_after (sh_service sh)"

definition sh_shutdown_after :: "service_handler \<Rightarrow> service_name list" where
  "sh_shutdown_after sh = sv_shutdown_after (sh_service sh)"

definition is_alive_state :: "service_handler \<Rightarrow> bool" where
  "is_alive_state sh \<longleftrightarrow> sh_status sh \<in> set [Running, Started, Starting]"

definition is_early_state :: "service_handler \<Rightarrow> bool" where
  "is_early_state sh \<longleftrightarrow> sh_status sh \<in> set [Initial, Starting, Started]"

definition is_finished_failed :: "service_handler \<Rightarrow> bool" where
  "is_finished_failed sh \<longleftrightarrow> sh_status sh = FinishedFailed"

definition is_in_killing :: "service_handler \<Rightarrow> bool" where
  "is_in_killing sh \<longleftrightarrow> sh_status sh = InKilling"

definition is_initial :: "service_handler \<Rightarrow> bool" where
  "is_initial sh \<longleftrightarrow> Initial = sh_status sh"

definition is_running :: "service_handler \<Rightarrow> bool" where
  "is_running sh \<longleftrightarrow> Running = sh_status sh"

definition is_finished :: "service_handler \<Rightarrow> bool" where
  "is_finished sh \<longleftrightarrow> Finished = sh_status sh"

lemma status_predicates [simp]:
  "is_alive_state sh \<longleftrightarrow> sh_status sh = Running \<or> sh_status sh = Started \<or> sh_status sh = Starting"
  "is_early_state sh \<longleftrightarrow> sh_status sh = Initial \<or> sh_status sh = Starting \<or> sh_status sh = Started"
  "is_finished_failed sh \<longleftrightarrow> sh_status sh = FinishedFailed"
  "is_in_killing sh \<longleftrightarrow> sh_status sh = InKilling"
  "is_initial sh \<longleftrightarrow> sh_status sh = Initial"
  "is_running sh \<longleftrightarrow> sh_status sh = Running"
  "is_finished sh \<longleftrightarrow> sh_status sh = Finished"
  by (auto simp: is_alive_state_def is_early_state_def is_finished_failed_def is_in_killing_def
      is_initial_def is_running_def is_finished_def)

definition restart_attempts_are_over :: "service_handler \<Rightarrow> bool" where
  "restart_attempts_are_over sh \<longleftrightarrow>
    rs_attempts (sv_restart (sh_service sh)) = 0
    \<or> sh_restart_attempts sh > rs_attempts (sv_restart (sh_service sh))"

definition add_healthcheck_event :: "service_handler \<Rightarrow> healthiness_status \<Rightarrow> service_handler" where
  "add_healthcheck_event sh check =
    (let previous_hc = (case sh_healthiness_checks_failed sh of None \<Rightarrow> 0 | Some n \<Rightarrow> n);
         new_hc = i32_from_bool (is_alive_state sh \<and> check \<noteq> Healthy)
     in sh\<lparr>sh_healthiness_checks_failed := Some (previous_hc + new_hc)\<rparr>)"

definition has_some_failed_healthchecks :: "service_handler \<Rightarrow> bool" where
  "has_some_failed_healthchecks sh \<longleftrightarrow>
    i32_gt (case sh_healthiness_checks_failed sh of None \<Rightarrow> 1 | Some n \<Rightarrow> n) 0"

definition shutting_down_started :: "instant \<Rightarrow> service_handler \<Rightarrow> service_handler" where
  "shutting_down_started now sh = sh\<lparr>sh_shutting_down_start := Some now\<rparr>"

section \<open>Status changes\<close>

definition allowed_transitions :: "(service_status \<times> service_status list) list" where
  "allowed_transitions =
    [(Initial, [Success, Failed]),
     (Starting, [Initial]),
     (Started, [Starting]),
     (InKilling, [Initial, Running, Starting, Started]),
     (Running, [Started]),
     (FinishedFailed, [Starting, Started, Failed, InKilling]),
     (Success, [Starting, Started, Running, InKilling]),
     (Failed, [Starting, Started, Running, InKilling]),
     (Finished, [Success, Initial])]"

definition transition_valid :: "service_status \<Rightarrow> service_status \<Rightarrow> bool" where
  "transition_valid current next \<longleftrightarrow>
    (case map_option snd (find (\<lambda>(status, _). status = next) allowed_transitions) of
      None \<Rightarrow> False
    | Some allowed_from \<Rightarrow> current \<in> set allowed_from)"

definition handle_status_change ::
  "service_handler \<Rightarrow> service_status \<Rightarrow> service_handler \<times> service_status" where
  "handle_status_change sh next_status =
    (if next_status = sh_status sh then (sh, next_status)
     else
       let new_sh =
         (if transition_valid (sh_status sh) next_status then
            (case next_status of
              Started \<Rightarrow> sh\<lparr>sh_status := Started, sh_restart_attempts := 0\<rparr>
            | InKilling \<Rightarrow>
                if sh_status sh = Initial then sh\<lparr>sh_status := Success\<rparr>
                else sh\<lparr>sh_status := InKilling\<rparr>
            | new_status \<Rightarrow> sh\<lparr>sh_status := new_status\<rparr>)
          else sh)
       in (new_sh, sh_status new_sh))"

definition change_status ::
  "service_handler \<Rightarrow> service_status \<Rightarrow> service_handler \<times> service_status" where
  "change_status sh new_status = handle_status_change sh new_status"

section \<open>Restart, failure and force-kill decisions\<close>

definition handle_restart_strategy :: "service_handler \<Rightarrow> bool \<Rightarrow> event" where
  "handle_restart_strategy sh is_failed =
    new_status_update (sh_name sh)
      (case rs_strategy (sv_restart (sh_service sh)) of
        Never \<Rightarrow>
          if is_failed then (if restart_attempts_are_over sh then FinishedFailed else Initial)
          else Finished
      | OnFailure \<Rightarrow> if is_failed then Initial else Finished
      | Always \<Rightarrow> Initial)"

definition handle_failed_service :: "service_name list \<Rightarrow> service \<Rightarrow> event list" where
  "handle_failed_service deps failed_sh =
    (case fl_strategy (sv_failure failed_sh) of
      Shutdown \<Rightarrow> [ShuttingDownInitiated Gracefully]
    | KillDependents \<Rightarrow> concat (map (\<lambda>sh. [new_status_update sh InKilling, Kill sh]) deps)
    | Ignore \<Rightarrow> [])"

definition should_force_kill :: "instant \<Rightarrow> service_handler \<Rightarrow> shutting_down option \<Rightarrow> bool" where
  "should_force_kill now sh shutting_down =
    (if sh_pid sh = None then False
     else if shutting_down = Some Forcefully then True
     else (case sh_shutting_down_start sh of
         Some start \<Rightarrow>
           as_secs (elapsed now start) > as_secs (tm_wait (sv_termination (sh_service sh)))
       | None \<Rightarrow> False))"

section \<open>The state machine the table stands for\<close>

text \<open>
  \<open>accepts s r t\<close>: a service in status \<open>s\<close> that is asked to become \<open>r\<close> becomes \<open>t\<close>. Requested and
  reached status differ in one case only: a service that never started is not killed but done.
\<close>

inductive accepts :: "service_status \<Rightarrow> service_status \<Rightarrow> service_status \<Rightarrow> bool" where
  restart: "s = Success \<or> s = Failed \<Longrightarrow> accepts s Initial Initial"
| begin_start: "accepts Initial Starting Starting"
| spawned: "accepts Starting Started Started"
| healthy: "accepts Started Running Running"
| kill: "s = Starting \<or> s = Started \<or> s = Running \<Longrightarrow> accepts s InKilling InKilling"
| kill_unstarted: "accepts Initial InKilling Success"
| exit_ok: "s = Starting \<or> s = Started \<or> s = Running \<or> s = InKilling \<Longrightarrow> accepts s Success Success"
| exit_failed: "s = Starting \<or> s = Started \<or> s = Running \<or> s = InKilling \<Longrightarrow> accepts s Failed Failed"
| finish: "s = Success \<or> s = Initial \<Longrightarrow> accepts s Finished Finished"
| give_up: "s = Starting \<or> s = Started \<or> s = Failed \<or> s = InKilling
    \<Longrightarrow> accepts s FinishedFailed FinishedFailed"

code_pred (modes: i \<Rightarrow> i \<Rightarrow> i \<Rightarrow> bool as accepts_iii, i \<Rightarrow> i \<Rightarrow> o \<Rightarrow> bool as accepts_iio) accepts .

inductive_cases accepts_finished [elim!]: "accepts Finished r t"
inductive_cases accepts_finished_failed [elim!]: "accepts FinishedFailed r t"
inductive_simps accepts_started_iff: "accepts s Started t"
inductive_simps accepts_running_iff: "accepts s Running t"
inductive_simps accepts_initial_iff: "accepts s Initial t"
inductive_simps accepts_in_killing_iff: "accepts s InKilling t"
inductive_simps accepts_finished_iff: "accepts s Finished t"

lemma accepts_iff:
  "accepts s r t \<longleftrightarrow> transition_valid s r \<and> t = (if s = Initial \<and> r = InKilling then Success else r)"
  by (cases r; cases s)
    (auto simp: transition_valid_def allowed_transitions_def accepts.simps)

lemma accepts_deterministic: "accepts s r t \<Longrightarrow> accepts s r u \<Longrightarrow> t = u"
  by (simp add: accepts_iff)

lemma accepts_changes: "accepts s r t \<Longrightarrow> t \<noteq> s"
  by (auto elim: accepts.cases)

lemma transition_valid_irrefl [simp]: "\<not> transition_valid s s"
  by (cases s) (simp_all add: transition_valid_def allowed_transitions_def)

section \<open>Lemmas\<close>

lemma handle_status_change_eq:
  "handle_status_change sh r =
    (let t = (if transition_valid (sh_status sh) r
              then (if sh_status sh = Initial \<and> r = InKilling then Success else r)
              else sh_status sh)
     in (sh\<lparr>sh_status := t,
            sh_restart_attempts :=
              (if r = Started \<and> transition_valid (sh_status sh) r then 0 else sh_restart_attempts sh)\<rparr>,
         t))"
  by (cases sh; cases r) (auto simp: handle_status_change_def)

lemma change_status_status [simp]:
  "sh_status (fst (change_status sh r)) = snd (change_status sh r)"
  by (simp add: change_status_def handle_status_change_eq Let_def)

lemma change_status_frame [frame_simps]:
  "sh_service (fst (change_status sh r)) = sh_service sh"
  "sh_pid (fst (change_status sh r)) = sh_pid sh"
  "sh_healthiness_checks_failed (fst (change_status sh r)) = sh_healthiness_checks_failed sh"
  "sh_shutting_down_start (fst (change_status sh r)) = sh_shutting_down_start sh"
  by (simp_all add: change_status_def handle_status_change_eq Let_def)

lemma change_status_same: "snd (change_status sh r) = sh_status sh \<Longrightarrow> fst (change_status sh r) = sh"
  by (cases "transition_valid (sh_status sh) r")
    (auto simp: change_status_def handle_status_change_eq Let_def accepts_iff split: if_splits
      dest: accepts_changes)

lemma add_healthcheck_event_frame [frame_simps]:
  "sh_service (add_healthcheck_event sh c) = sh_service sh"
  "sh_status (add_healthcheck_event sh c) = sh_status sh"
  "sh_pid (add_healthcheck_event sh c) = sh_pid sh"
  "sh_restart_attempts (add_healthcheck_event sh c) = sh_restart_attempts sh"
  "sh_shutting_down_start (add_healthcheck_event sh c) = sh_shutting_down_start sh"
  by (simp_all add: add_healthcheck_event_def Let_def)

lemma sh_name_frame: "sh_service sh' = sh_service sh \<Longrightarrow> sh_name sh' = sh_name sh"
  by (simp add: sh_name_def)

end
