(* ===== verification/Repo.thy ===== *)
theory Repo
  imports Service_Handler
begin

text \<open>
  \<open>supervisor/repo.rs\<close>: the services by name and the pid table. The bus connector the Rust struct
  also holds is the subject of theory \<open>Bus\<close>; here the events read from it and sent to it are
  inputs and outputs of the supervisor's operations. A lookup the source unwraps is a \<open>res\<close>.
\<close>

section \<open>State and operations\<close>

record repo =
  rp_services :: "(service_name, service_handler) hmap"
  rp_pid_map :: "(pid, service_name) hmap"

definition repo_new :: "service list \<Rightarrow> repo" where
  "repo_new services =
    \<lparr>rp_services = hm_collect (map (\<lambda>s. (sv_name s, handler_of s)) services),
     rp_pid_map = hm_empty\<rparr>"

definition insert_sh_by_name :: "service_name \<Rightarrow> service_handler \<Rightarrow> repo \<Rightarrow> repo" where
  "insert_sh_by_name n sh repo = repo\<lparr>rp_services := hm_insert n sh (rp_services repo)\<rparr>"

definition get_service_by_pid :: "repo \<Rightarrow> pid \<Rightarrow> service_name option" where
  "get_service_by_pid repo p = hm_get (rp_pid_map repo) p"

definition add_pid :: "pid \<Rightarrow> service_name \<Rightarrow> repo \<Rightarrow> repo" where
  "add_pid p n repo = repo\<lparr>rp_pid_map := hm_insert p n (rp_pid_map repo)\<rparr>"

definition remove_pid :: "pid \<Rightarrow> repo \<Rightarrow> repo" where
  "remove_pid p repo = repo\<lparr>rp_pid_map := hm_remove p (rp_pid_map repo)\<rparr>"

definition all_have_finished :: "repo \<Rightarrow> bool" where
  "all_have_finished repo \<longleftrightarrow>
    list_all (\<lambda>(_, sh). is_finished sh \<or> is_finished_failed sh) (hm_entries (rp_services repo))"

definition get_sh :: "repo \<Rightarrow> service_name \<Rightarrow> service_handler res" where
  "get_sh repo n = ok_or (UnknownService n) (hm_get (rp_services repo) n)"

definition get_dependents :: "repo \<Rightarrow> service_name \<Rightarrow> service_name list" where
  "get_dependents repo n =
    map fst (filter (\<lambda>(_, sh). n \<in> set (sv_start_after (sh_service sh)))
      (hm_entries (rp_services repo)))"

definition get_die_if_failed :: "repo \<Rightarrow> service_name \<Rightarrow> service_name list" where
  "get_die_if_failed repo n =
    map fst (filter (\<lambda>(_, sh). n \<in> set (tm_die_if_failed (sv_termination (sh_service sh))))
      (hm_entries (rp_services repo)))"

definition is_service_runnable :: "repo \<Rightarrow> service_handler \<Rightarrow> bool res" where
  "is_service_runnable repo sh =
    (if \<not> is_initial sh then Inr False
     else all_res (\<lambda>n. res_map (\<lambda>dep. is_running dep \<or> is_finished dep) (get_sh repo n))
       (sh_start_after sh))"

definition is_service_killable :: "repo \<Rightarrow> service_handler \<Rightarrow> bool res" where
  "is_service_killable repo sh =
    all_res (\<lambda>n. res_map (\<lambda>dep. is_finished dep \<or> is_finished_failed dep) (get_sh repo n))
      (sh_shutdown_after sh)"

definition any_finished_failed :: "repo \<Rightarrow> bool" where
  "any_finished_failed repo \<longleftrightarrow>
    list_ex (\<lambda>(_, sh). is_finished_failed sh) (hm_entries (rp_services repo))"

section \<open>Well-formed repositories\<close>

definition svc :: "repo \<Rightarrow> service_name \<Rightarrow> service_handler option" where
  "svc repo n = hm_get (rp_services repo) n"

definition repo_wf :: "repo \<Rightarrow> bool" where
  "repo_wf repo \<longleftrightarrow> hm_wf (rp_services repo) \<and> hm_wf (rp_pid_map repo)
    \<and> (\<forall>n sh. svc repo n = Some sh \<longrightarrow> sh_name sh = n)"

text \<open>Every \<open>start-after\<close> and \<open>shutdown-after\<close> entry names a service of the repository.\<close>

definition deps_known :: "repo \<Rightarrow> bool" where
  "deps_known repo \<longleftrightarrow>
    (\<forall>n sh. svc repo n = Some sh \<longrightarrow>
      (\<forall>d \<in> set (sh_start_after sh) \<union> set (sh_shutdown_after sh). svc repo d \<noteq> None))"

text \<open>The pid table and the pids of the handlers say the same.\<close>

definition pids_agree :: "repo \<Rightarrow> bool" where
  "pids_agree repo \<longleftrightarrow>
    (\<forall>p n. get_service_by_pid repo p = Some n \<longleftrightarrow> (\<exists>sh. svc repo n = Some sh \<and> sh_pid sh = Some p))"

section \<open>Lemmas\<close>

lemma svc_insert [simp]:
  "svc (insert_sh_by_name n sh repo) m = (if m = n then Some sh else svc repo m)"
  by (simp add: svc_def insert_sh_by_name_def)

lemma svc_pid_ops [simp]:
  "svc (add_pid p n repo) m = svc repo m" "svc (remove_pid p repo) m = svc repo m"
  by (simp_all add: svc_def add_pid_def remove_pid_def)

lemma get_service_by_pid_ops [simp]:
  "get_service_by_pid (insert_sh_by_name n sh repo) q = get_service_by_pid repo q"
  "get_service_by_pid (add_pid p n repo) q = (if q = p then Some n else get_service_by_pid repo q)"
  "get_service_by_pid (remove_pid p repo) q = (if q = p then None else get_service_by_pid repo q)"
  by (simp_all add: get_service_by_pid_def insert_sh_by_name_def add_pid_def remove_pid_def)

lemma get_sh_svc: "get_sh repo n = ok_or (UnknownService n) (svc repo n)"
  by (simp add: get_sh_def svc_def)

lemma get_sh_Inr [simp]: "get_sh repo n = Inr sh \<longleftrightarrow> svc repo n = Some sh"
  by (simp add: get_sh_svc)

lemma entries_svc: "repo_wf repo \<Longrightarrow> (n, sh) \<in> set (hm_entries (rp_services repo)) \<longleftrightarrow> svc repo n = Some sh"
  by (simp add: repo_wf_def svc_def hm.entries_get)

lemma repo_wf_name: "repo_wf repo \<Longrightarrow> svc repo n = Some sh \<Longrightarrow> sh_name sh = n"
  by (simp add: repo_wf_def)

lemma all_have_finished_iff:
  "repo_wf repo \<Longrightarrow> all_have_finished repo
    \<longleftrightarrow> (\<forall>n sh. svc repo n = Some sh \<longrightarrow> sh_status sh = Finished \<or> sh_status sh = FinishedFailed)"
  by (simp add: all_have_finished_def repo_wf_def svc_def hm.all_entries)

lemma any_finished_failed_iff:
  "repo_wf repo \<Longrightarrow> any_finished_failed repo
    \<longleftrightarrow> (\<exists>n sh. svc repo n = Some sh \<and> sh_status sh = FinishedFailed)"
  by (simp add: any_finished_failed_def repo_wf_def svc_def hm.ex_entries)

lemma get_dependents_iff:
  "repo_wf repo \<Longrightarrow> m \<in> set (get_dependents repo n)
    \<longleftrightarrow> (\<exists>sh. svc repo m = Some sh \<and> n \<in> set (sh_start_after sh))"
  by (simp add: get_dependents_def repo_wf_def svc_def sh_start_after_def hm.filter_keys
      del: set_map)

lemma get_die_if_failed_iff:
  "repo_wf repo \<Longrightarrow> m \<in> set (get_die_if_failed repo n)
    \<longleftrightarrow> (\<exists>sh. svc repo m = Some sh \<and> n \<in> set (tm_die_if_failed (sv_termination (sh_service sh))))"
  by (simp add: get_die_if_failed_def repo_wf_def svc_def hm.filter_keys del: set_map)

lemma is_service_runnable_True:
  "is_service_runnable repo sh = Inr True
    \<longleftrightarrow> sh_status sh = Initial
      \<and> (\<forall>d \<in> set (sh_start_after sh).
          \<exists>dep. svc repo d = Some dep \<and> (sh_status dep = Running \<or> sh_status dep = Finished))"
  by (auto simp: is_service_runnable_def all_res_True_iff)

lemma is_service_killable_True:
  "is_service_killable repo sh = Inr True
    \<longleftrightarrow> (\<forall>d \<in> set (sh_shutdown_after sh).
          \<exists>dep. svc repo d = Some dep \<and> (sh_status dep = Finished \<or> sh_status dep = FinishedFailed))"
  by (auto simp: is_service_killable_def all_res_True_iff)

lemma is_service_runnable_total:
  "deps_known repo \<Longrightarrow> svc repo n = Some sh \<Longrightarrow> \<exists>b. is_service_runnable repo sh = Inr b"
proof -
  assume dk: "deps_known repo" and s: "svc repo n = Some sh"
  let ?q = "\<lambda>d. is_running (the (svc repo d)) \<or> is_finished (the (svc repo d))"
  have "\<forall>d \<in> set (sh_start_after sh).
      res_map (\<lambda>dep. is_running dep \<or> is_finished dep) (get_sh repo d) = Inr (?q d)"
    using dk s by (fastforce simp: deps_known_def get_sh_svc)
  from all_res_total [OF this] show ?thesis
    by (auto simp: is_service_runnable_def)
qed

lemma is_service_killable_total:
  "deps_known repo \<Longrightarrow> svc repo n = Some sh \<Longrightarrow> \<exists>b. is_service_killable repo sh = Inr b"
proof -
  assume dk: "deps_known repo" and s: "svc repo n = Some sh"
  let ?q = "\<lambda>d. is_finished (the (svc repo d)) \<or> is_finished_failed (the (svc repo d))"
  have "\<forall>d \<in> set (sh_shutdown_after sh).
      res_map (\<lambda>dep. is_finished dep \<or> is_finished_failed dep) (get_sh repo d) = Inr (?q d)"
    using dk s by (fastforce simp: deps_known_def get_sh_svc)
  from all_res_total [OF this] show ?thesis
    by (simp add: is_service_killable_def)
qed

section \<open>Preservation\<close>

lemma repo_wf_insert:
  "repo_wf repo \<Longrightarrow> sh_name sh = n \<Longrightarrow> repo_wf (insert_sh_by_name n sh repo)"
  by (auto simp: repo_wf_def insert_sh_by_name_def hm_wf_insert svc_def)

lemma repo_wf_pid_ops:
  "repo_wf repo \<Longrightarrow> repo_wf (add_pid p n repo)" "repo_wf repo \<Longrightarrow> repo_wf (remove_pid p repo)"
  by (auto simp: repo_wf_def add_pid_def remove_pid_def hm_wf_insert hm_wf_remove svc_def)

lemma deps_known_cong:
  "(\<And>n. map_option sh_service (svc repo' n) = map_option sh_service (svc repo n))
    \<Longrightarrow> deps_known repo \<Longrightarrow> deps_known repo'"
proof -
  assume same: "\<And>n. map_option sh_service (svc repo' n) = map_option sh_service (svc repo n)"
    and dk: "deps_known repo"
  have known: "svc repo' d \<noteq> None \<longleftrightarrow> svc repo d \<noteq> None" for d
    using same [of d] by (cases "svc repo' d"; cases "svc repo d") auto
  have "\<exists>sh0. svc repo n = Some sh0 \<and> sh_start_after sh0 = sh_start_after sh
      \<and> sh_shutdown_after sh0 = sh_shutdown_after sh" if "svc repo' n = Some sh" for n sh
    using same [of n] that
    by (cases "svc repo n") (auto simp: sh_start_after_def sh_shutdown_after_def)
  with dk known show ?thesis
    unfolding deps_known_def by metis
qed

lemma svc_repo_new:
  "svc (repo_new services) n
    = map_option handler_of (find (\<lambda>s. sv_name s = n) (rev services))"
proof -
  have "map_of (map (\<lambda>s. (sv_name s, handler_of s)) xs) n
      = map_option handler_of (find (\<lambda>s. sv_name s = n) xs)" for xs
    by (induction xs) auto
  then show ?thesis
    by (simp add: svc_def repo_new_def hm_get_collect rev_map)
qed

lemma repo_new_service:
  assumes "svc (repo_new services) n = Some sh"
  obtains s where "s \<in> set services" "sv_name s = n" "sh = handler_of s"
proof -
  from assms obtain s where s: "find (\<lambda>s. sv_name s = n) (rev services) = Some s" "sh = handler_of s"
    by (auto simp: svc_repo_new)
  then have "s \<in> set (rev services)" "sv_name s = n" unfolding find_Some_iff by (metis nth_mem)+
  with s(2) that show ?thesis by simp
qed

lemma repo_new_wf: "repo_wf (repo_new services)"
  unfolding repo_wf_def svc_repo_new
  by (auto simp: repo_new_def hm_wf_empty sh_name_def handler_of_def find_Some_iff)

lemma repo_new_pids: "pids_agree (repo_new services)"
  by (auto simp: pids_agree_def svc_repo_new handler_of_def)
    (simp add: get_service_by_pid_def repo_new_def)

end
