(* ===== verification/Service_Next.thy ===== *)
theory Service_Next
  imports Repo
begin

text \<open>
  \<open>supervisor/service_handler.rs\<close>, the part that looks at the whole repository: the events that make
  a service progress while the system runs (\<open>next_events\<close>) and while it shuts down
  (\<open>next_events_shutting_down\<close>). A dependency that is not in the repository is a panic of the
  lookup, so both return a \<open>res\<close>. The clock is an argument, read by \<open>should_force_kill\<close>.
\<close>

section \<open>Producing events\<close>

datatype lifecycle_status = LRunning | ShuttingDown shutting_down

definition next_events :: "instant \<Rightarrow> repo \<Rightarrow> service_handler \<Rightarrow> event list res" where
  "next_events now repo sh =
    (let n = sh_name sh in
     case sh_status sh of
       Initial \<Rightarrow> res_map (\<lambda>runnable. if runnable then [Run n] else []) (is_service_runnable repo sh)
     | Started \<Rightarrow>
         Inr (if \<not> has_some_failed_healthchecks sh then [new_status_update n Running] else [])
     | Running \<Rightarrow>
         Inr (if i32_gt (case sh_healthiness_checks_failed sh of None \<Rightarrow> - 1 | Some c \<Rightarrow> c)
                (hl_max_failed (sv_healthiness (sh_service sh)))
              then [new_status_update n InKilling, Kill n] else [])
     | Success \<Rightarrow> Inr [handle_restart_strategy sh False]
     | Failed \<Rightarrow>
         Inr (handle_failed_service (get_dependents repo n) (sh_service sh)
              @ [handle_restart_strategy sh True]
              @ concat (map (\<lambda>m. [new_status_update m InKilling, Kill m]) (get_die_if_failed repo n)))
     | InKilling \<Rightarrow>
         Inr (if should_force_kill now sh None
              then [new_force_kill n, new_status_changed n Failed] else [])
     | _ \<Rightarrow> Inr [])"

definition next_events_shutting_down ::
  "instant \<Rightarrow> service_handler \<Rightarrow> shutting_down \<Rightarrow> repo \<Rightarrow> event list res" where
  "next_events_shutting_down now sh shutting_down repo =
    (let n = sh_name sh;
         stop = (if shutting_down = Forcefully then Inr True else is_service_killable repo sh);
         kill_if_allowed =
           res_map (\<lambda>allowed. if allowed then [new_status_update n InKilling, Kill n] else []) stop
     in case sh_status sh of
       Running \<Rightarrow> kill_if_allowed
     | Started \<Rightarrow> kill_if_allowed
     | Success \<Rightarrow> Inr [new_status_update n Finished]
     | Initial \<Rightarrow> Inr [new_status_update n Finished]
     | Failed \<Rightarrow> Inr [new_status_update n FinishedFailed]
     | InKilling \<Rightarrow>
         Inr (if should_force_kill now sh (Some shutting_down) then [new_force_kill n] else [])
     | _ \<Rightarrow> Inr [])"

definition next_evs :: "instant \<Rightarrow> service_handler \<Rightarrow> repo \<Rightarrow> lifecycle_status \<Rightarrow> event list res" where
  "next_evs now sh repo lifecycle =
    (case lifecycle of
      LRunning \<Rightarrow> next_events now repo sh
    | ShuttingDown sd \<Rightarrow> next_events_shutting_down now sh sd repo)"

section \<open>Lemmas\<close>

lemma handle_failed_service_events:
  "e \<in> set (handle_failed_service deps s) \<Longrightarrow>
    e = ShuttingDownInitiated Gracefully \<or> (\<exists>m \<in> set deps. e = StatusUpdate m InKilling \<or> e = Kill m)"
  by (auto simp: handle_failed_service_def split: failure_strategy.splits)

lemma next_events_Run:
  "next_events now repo sh = Inr evs \<Longrightarrow> Run m \<in> set evs
    \<longleftrightarrow> m = sh_name sh \<and> sh_status sh = Initial \<and> is_service_runnable repo sh = Inr True"
  by (cases "sh_status sh")
    (auto simp: next_events_def Let_def handle_restart_strategy_def
      dest: handle_failed_service_events split: if_splits)

lemma next_events_shutting_down_Kill:
  "next_events_shutting_down now sh sd repo = Inr evs \<Longrightarrow> Kill m \<in> set evs
    \<longleftrightarrow> m = sh_name sh \<and> (sh_status sh = Running \<or> sh_status sh = Started)
      \<and> (sd = Forcefully \<or> is_service_killable repo sh = Inr True)"
  by (cases "sh_status sh"; cases sd)
    (auto simp: next_events_shutting_down_def Let_def split: if_splits)

lemma next_events_shutting_down_kinds:
  "next_events_shutting_down now sh sd repo = Inr evs \<Longrightarrow> e \<in> set evs \<Longrightarrow>
    e \<in> {StatusUpdate (sh_name sh) InKilling, Kill (sh_name sh), StatusUpdate (sh_name sh) Finished,
         StatusUpdate (sh_name sh) FinishedFailed, ForceKill (sh_name sh)}"
  by (cases "sh_status sh"; cases sd)
    (auto simp: next_events_shutting_down_def Let_def split: if_splits)

lemma next_events_total:
  "deps_known repo \<Longrightarrow> svc repo n = Some sh \<Longrightarrow> \<exists>evs. next_events now repo sh = Inr evs"
  using is_service_runnable_total [of repo n sh]
  by (cases "sh_status sh") (auto simp: next_events_def Let_def)

lemma next_events_shutting_down_total:
  "deps_known repo \<Longrightarrow> svc repo n = Some sh \<Longrightarrow>
    \<exists>evs. next_events_shutting_down now sh sd repo = Inr evs"
  using is_service_killable_total [of repo n sh]
  by (cases "sh_status sh") (auto simp: next_events_shutting_down_def Let_def)

lemma next_evs_total:
  "deps_known repo \<Longrightarrow> svc repo n = Some sh \<Longrightarrow> \<exists>evs. next_evs now sh repo lc = Inr evs"
  by (auto simp: next_evs_def next_events_total next_events_shutting_down_total
      split: lifecycle_status.split)

end
