(* ===== verification/Program_Path.thy ===== *)
theory Program_Path
  imports Prelude
begin

text \<open>
  The lookup of a program on \<open>PATH\<close>, \<open>find_program\<close> of \<open>supervisor/process_spawner.rs\<close>, with the
  two operations of the standard library it rests on: \<open>env::split_paths\<close> (split at colons) and
  \<open>Path::join\<close>. The environment variable and the file test are arguments: they belong to the
  process and its file system. It is shared by the process spawner and the command health check.
\<close>

datatype spawn_error =
  InvalidCommand string | PathNotSet | ProgramNotFound string | NulByte string
| UserLookup string | UserNotFound string | SystemCall string | LogPathNotSet

abbreviation split_paths :: "string \<Rightarrow> string list" where
  "split_paths \<equiv> split_on CHR '':''"

definition path_join :: "string \<Rightarrow> string \<Rightarrow> string" where
  "path_join base name =
    (if name \<noteq> [] \<and> hd name = CHR ''/'' then name
     else if base = [] \<or> last base = CHR ''/'' then base @ name
     else base @ ''/'' @ name)"

fun first_file :: "(string \<Rightarrow> bool) \<Rightarrow> string \<Rightarrow> string list \<Rightarrow> string option" where
  "first_file is_file program [] = None"
| "first_file is_file program (path # paths) =
    (let program_path = path_join path program in
      if is_file program_path then Some program_path else first_file is_file program paths)"

definition find_program :: "string option \<Rightarrow> (string \<Rightarrow> bool) \<Rightarrow> string \<Rightarrow> spawn_error + string" where
  "find_program path_var is_file program_name =
    (case path_var of
      None \<Rightarrow> Inl PathNotSet
    | Some val \<Rightarrow> ok_or (ProgramNotFound program_name)
        (first_file is_file program_name (split_paths val)))"

text \<open>A name with a slash is used as it is; any other name is searched on \<open>PATH\<close>.\<close>

definition resolve_program ::
  "string option \<Rightarrow> (string \<Rightarrow> bool) \<Rightarrow> string \<Rightarrow> spawn_error + string" where
  "resolve_program path_var is_file program =
    (if CHR ''/'' \<in> set program then Inr program else find_program path_var is_file program)"

section \<open>Lemmas\<close>

lemma first_file_filter:
  "first_file f prog paths
    = (case filter f (map (\<lambda>p. path_join p prog) paths) of [] \<Rightarrow> None | q # _ \<Rightarrow> Some q)"
  by (induction paths) (auto simp: Let_def)

text \<open>The value of PATH that lists the given directories.\<close>

fun join_paths :: "string list \<Rightarrow> string" where
  "join_paths [] = []"
| "join_paths [p] = p"
| "join_paths (p # q # ps) = p @ CHR '':'' # join_paths (q # ps)"

lemma split_join_paths:
  "dirs \<noteq> [] \<Longrightarrow> \<forall>d \<in> set dirs. CHR '':'' \<notin> set d \<Longrightarrow> split_paths (join_paths dirs) = dirs"
  by (induction dirs rule: join_paths.induct) (auto simp: split_on_no_sep split_on_append)

section \<open>Properties\<close>

text \<open>
  With PATH listing the directories \<open>dirs\<close>, \<open>find_program\<close> returns the candidate file of the
  first directory that holds one, and reports the program as not found exactly when none does.
\<close>

lemma find_program_first_match:
  assumes "dirs \<noteq> []" and "\<forall>d \<in> set dirs. CHR '':'' \<notin> set d"
  shows "find_program (Some (join_paths dirs)) is_file prog =
    (case filter is_file (map (\<lambda>d. path_join d prog) dirs) of
      [] \<Rightarrow> Inl (ProgramNotFound prog)
    | program_path # _ \<Rightarrow> Inr program_path)"
  using split_join_paths [OF assms]
  by (simp add: find_program_def first_file_filter split: list.split)

end
