(* ===== verification/Healthcheck.thy ===== *)
theory Healthcheck
  imports Formats Program_Path
begin

text \<open>
  \<open>healthcheck/checks.rs\<close> and \<open>healthcheck/mod.rs\<close>: the three checks with their preparation, the
  worker that repeats them, and the manager that starts and stops one worker per service.
  What lies outside the program (the shlex splitter, the HTTP client, running a command, removing a
  file, the PATH and the file test) is the record \<open>os\<close>, an argument of the operations; what the
  program changes (which files exist, the cache of parsed commands) is the record \<open>world\<close>.
\<close>

section \<open>The outside\<close>

record os =
  os_shlex_split :: "string \<Rightarrow> string list option"
  os_path_var :: "string option"
  os_is_file :: "string \<Rightarrow> bool"
  os_remove_file :: "string \<Rightarrow> bool"       \<comment> \<open>whether \<open>fs::remove_file\<close> succeeds\<close>
  os_http_feature :: bool                   \<comment> \<open>built with \<open>http-healthcheck\<close>\<close>
  os_http_head :: "string \<Rightarrow> bool"         \<comment> \<open>HEAD request answered with success within a second\<close>
  os_run_command :: "string list \<Rightarrow> bool option"  \<comment> \<open>exit success; \<open>None\<close>: could not be executed\<close>

record world =
  wd_exists :: "string \<Rightarrow> bool"
  wd_parsed_commands :: "(string, string list) hmap"

section \<open>Checks\<close>

datatype check = FileCheck | HttpCheck | CommandCheck

definition get_checks :: "check list" where
  "get_checks = [FileCheck, HttpCheck, CommandCheck]"

definition file_check_run :: "world \<Rightarrow> healthiness \<Rightarrow> bool" where
  "file_check_run w h = (case hl_file_path h of None \<Rightarrow> True | Some file_path \<Rightarrow> wd_exists w file_path)"

definition http_check_run :: "os \<Rightarrow> healthiness \<Rightarrow> bool" where
  "http_check_run os h =
    (case hl_http_endpoint h of
      None \<Rightarrow> True
    | Some endpoint \<Rightarrow> if \<not> os_http_feature os then False else os_http_head os endpoint)"

definition command_check_run :: "os \<Rightarrow> world \<Rightarrow> healthiness \<Rightarrow> bool res" where
  "command_check_run os w h =
    (case hl_command h of
      None \<Rightarrow> Inr True
    | Some command \<Rightarrow>
        (case hm_get (wd_parsed_commands w) command of
          None \<Rightarrow> Inr False
        | Some cmds \<Rightarrow>
            if cmds = [] then Inl IndexOutOfBounds
            else ok_or UnwrapNone (os_run_command os cmds)))"

fun check_run :: "os \<Rightarrow> world \<Rightarrow> healthiness \<Rightarrow> check \<Rightarrow> bool res" where
  "check_run os w h FileCheck = Inr (file_check_run w h)"
| "check_run os w h HttpCheck = Inr (http_check_run os h)"
| "check_run os w h CommandCheck = command_check_run os w h"

definition check_health :: "os \<Rightarrow> world \<Rightarrow> healthiness \<Rightarrow> healthiness_status res" where
  "check_health os w h = res_map healthiness_from_bool (all_res (check_run os w h) get_checks)"

section \<open>Preparation\<close>

text \<open>A preparation returns \<open>False\<close> for \<open>Err\<close>; the error text is only logged.\<close>

definition file_check_prepare :: "os \<Rightarrow> world \<Rightarrow> healthiness \<Rightarrow> bool \<times> world" where
  "file_check_prepare os w h =
    (case hl_file_path h of
      None \<Rightarrow> (True, w)
    | Some file \<Rightarrow>
        if \<not> wd_exists w file then (True, w)
        else if os_remove_file os file then (True, w\<lparr>wd_exists := (wd_exists w)(file := False)\<rparr>)
        else (False, w))"

definition prepare_cmd :: "os \<Rightarrow> world \<Rightarrow> string \<Rightarrow> bool \<times> world" where
  "prepare_cmd os w cmd =
    (case os_shlex_split os cmd of
      None \<Rightarrow> (False, w)
    | Some [] \<Rightarrow> (False, w)
    | Some (program # args) \<Rightarrow>
        (case resolve_program (os_path_var os) (os_is_file os) program of
          Inl _ \<Rightarrow> (False, w)
        | Inr path \<Rightarrow>
            (True, w\<lparr>wd_parsed_commands := hm_insert cmd (path # args) (wd_parsed_commands w)\<rparr>)))"

definition command_check_prepare :: "os \<Rightarrow> world \<Rightarrow> healthiness \<Rightarrow> bool \<times> world" where
  "command_check_prepare os w h =
    (case hl_command h of None \<Rightarrow> (True, w) | Some command \<Rightarrow> prepare_cmd os w command)"

fun check_prepare :: "os \<Rightarrow> healthiness \<Rightarrow> check \<Rightarrow> world \<Rightarrow> bool \<times> world" where
  "check_prepare os h FileCheck w = file_check_prepare os w h"
| "check_prepare os h HttpCheck w = (True, w)"
| "check_prepare os h CommandCheck w = command_check_prepare os w h"

text \<open>Collecting into a \<open>Result\<close> stops at the first error: later checks are not prepared.\<close>

fun prepare_all :: "os \<Rightarrow> healthiness \<Rightarrow> check list \<Rightarrow> world \<Rightarrow> bool \<times> world" where
  "prepare_all os h [] w = (True, w)"
| "prepare_all os h (c # cs) w =
    (let (ok, w') = check_prepare os h c w in if ok then prepare_all os h cs w' else (False, w'))"

definition prepare_service :: "os \<Rightarrow> healthiness \<Rightarrow> world \<Rightarrow> bool \<times> world" where
  "prepare_service os h w = prepare_all os h get_checks w"

section \<open>Workers\<close>

text \<open>
  A worker sends the outcome of the checks and then waits up to a second for the stop notification;
  it ends when notified or when the notifier is gone. The run over a list of waiting outcomes gives
  the statuses it sends; with no outcome left the worker is still alive.
\<close>

datatype wait_outcome = Notified | Disconnected | TimedOut

fun worker_run :: "service_name \<Rightarrow> (healthiness_status \<times> wait_outcome) list \<Rightarrow> event list \<times> bool" where
  "worker_run n [] = ([], True)"
| "worker_run n ((status, outcome) # rest) =
    (if outcome = Notified \<or> outcome = Disconnected then ([HealthCheck n status], False)
     else (let (evs, alive) = worker_run n rest in (HealthCheck n status # evs, alive)))"

type_synonym worker_id = nat

record manager =
  mg_workers :: "(service_name, worker_id) hmap"
  mg_next_id :: worker_id
  mg_done :: bool

datatype worker_action = SpawnWorker worker_id service | StopWorker worker_id

definition get_service :: "service list \<Rightarrow> service_name \<Rightarrow> service res" where
  "get_service services n = ok_or IndexOutOfBounds (find (\<lambda>s. sv_name s = n) services)"

definition stop_existing :: "manager \<Rightarrow> service_name \<Rightarrow> worker_action list" where
  "stop_existing m n = (case hm_get (mg_workers m) n of None \<Rightarrow> [] | Some i \<Rightarrow> [StopWorker i])"

fun manager_step ::
  "service list \<Rightarrow> manager \<Rightarrow> event \<Rightarrow> (manager \<times> event list \<times> worker_action list) res" where
  "manager_step services m (StatusChanged n Started) =
    res_map (\<lambda>service.
      if \<not> has_any_check_defined (sv_healthiness service) then (m, [HealthCheck n Healthy], [])
      else
        (m\<lparr>mg_workers := hm_insert n (mg_next_id m) (hm_remove n (mg_workers m)),
           mg_next_id := Suc (mg_next_id m)\<rparr>,
         [], stop_existing m n @ [SpawnWorker (mg_next_id m) service]))
    (get_service services n)"
| "manager_step services m (ServiceExited n code) =
    Inr (m\<lparr>mg_workers := hm_remove n (mg_workers m)\<rparr>, [], stop_existing m n)"
| "manager_step services m (ShuttingDownInitiated sd) =
    Inr (m\<lparr>mg_workers := hm_empty, mg_done := True\<rparr>, [],
         map (\<lambda>(_, i). StopWorker i) (hm_entries (mg_workers m)))"
| "manager_step services m ev = Inr (m, [], [])"

text \<open>The loop over the bus ends at the first shutdown event.\<close>

fun manager_run ::
  "service list \<Rightarrow> manager \<Rightarrow> event list \<Rightarrow> (manager \<times> event list \<times> worker_action list) res" where
  "manager_run services m [] = Inr (m, [], [])"
| "manager_run services m (ev # evs) =
    (if mg_done m then Inr (m, [], [])
     else res_bind (manager_step services m ev) (\<lambda>(m1, sent1, acts1).
       res_map (\<lambda>(m2, sent2, acts2). (m2, sent1 @ sent2, acts1 @ acts2)) (manager_run services m1 evs)))"

definition manager_init :: manager where
  "manager_init = \<lparr>mg_workers = hm_empty, mg_next_id = 0, mg_done = False\<rparr>"

section \<open>Lemmas\<close>

lemma prepare_cmd_cached:
  "prepare_cmd os w cmd = (True, w') \<Longrightarrow> \<exists>c cs. hm_get (wd_parsed_commands w') cmd = Some (c # cs)"
  by (auto simp: prepare_cmd_def split: option.splits list.splits sum.splits)

lemma prepare_cmd_exists: "wd_exists (snd (prepare_cmd os w cmd)) = wd_exists w"
  by (auto simp: prepare_cmd_def split: option.splits list.splits sum.splits)

lemma prepare_service_split:
  "prepare_service os h w =
    (let (ok, w') = file_check_prepare os w h in
      if ok then command_check_prepare os w' h else (False, w'))"
  by (auto simp: prepare_service_def get_checks_def split: prod.splits if_splits)

lemma check_health_eq:
  "check_health os w h =
    (if file_check_run w h \<and> http_check_run os h
     then res_map healthiness_from_bool (command_check_run os w h) else Inr Unhealthy)"
  by (cases "command_check_run os w h")
    (auto simp: check_health_def get_checks_def healthiness_from_bool_def)

end
