(* ===== verification/Reaper.thy ===== *)
theory Reaper
  imports Repo
begin

text \<open>
  \<open>supervisor/reaper.rs\<close>: up to a fixed number of non-blocking \<open>waitpid(-1)\<close> calls, each of which may
  report a dead process; the ones the pid table knows become \<open>ServiceExited\<close> events. What the calls
  return is the argument.
\<close>

datatype wait_status =
  Exited pid int        \<comment> \<open>exited with a code\<close>
| Signaled pid          \<comment> \<open>killed by a signal\<close>
| OtherStatus           \<comment> \<open>still alive, stopped, continued\<close>
| WaitError string      \<comment> \<open>\<open>waitpid\<close> failed\<close>

definition signaled_code :: int where
  "signaled_code = -137"

fun reap_one :: "repo \<Rightarrow> wait_status \<Rightarrow> (service_name \<times> int) option" where
  "reap_one repo (Exited p exit_code) = map_option (\<lambda>n. (n, exit_code)) (get_service_by_pid repo p)"
| "reap_one repo (Signaled p) = map_option (\<lambda>n. (n, signaled_code)) (get_service_by_pid repo p)"
| "reap_one repo OtherStatus = None"
| "reap_one repo (WaitError err) = None"

text \<open>\<open>filter_map\<close> over the range of iterations, one \<open>waitpid\<close> result each.\<close>

definition reaper_run :: "(nat \<Rightarrow> wait_status) \<Rightarrow> repo \<Rightarrow> nat \<Rightarrow> event list" where
  "reaper_run waitpid repo max_iterations =
    map (\<lambda>(n, c). new_service_exited n c)
      (List.map_filter (\<lambda>i. reap_one repo (waitpid i)) [0..<max_iterations])"

section \<open>Lemmas\<close>

lemma reaper_run_mem:
  "e \<in> set (reaper_run waitpid repo k) \<longleftrightarrow>
    (\<exists>i<k. \<exists>p n. get_service_by_pid repo p = Some n \<and>
      ((\<exists>c. waitpid i = Exited p c \<and> e = ServiceExited n c)
       \<or> (waitpid i = Signaled p \<and> e = ServiceExited n signaled_code)))"
proof -
  have one: "reap_one repo w = Some (n, c) \<longleftrightarrow>
      (\<exists>p. get_service_by_pid repo p = Some n \<and> (w = Exited p c \<or> w = Signaled p \<and> c = signaled_code))"
    for w n c
    by (cases w) auto
  show ?thesis
    by (force simp: reaper_run_def List.map_filter_def one)
qed

lemma reaper_run_length: "length (reaper_run waitpid repo k) \<le> k"
proof -
  have "length (List.map_filter f xs) \<le> length xs" for f :: "nat \<Rightarrow> (service_name \<times> int) option" and xs
    by (simp add: List.map_filter_def)
  from this [of _ "[0..<k]"] show ?thesis by (simp add: reaper_run_def)
qed

end
