(* ===== verification/Supervisor.thy ===== *)
theory Supervisor
  imports Service_Next Healthcheck Reaper
begin

text \<open>
  \<open>supervisor/mod.rs\<close> and \<open>supervisor/signal_handling.rs\<close>: the supervisor's state, one definition per
  arm of \<open>handle_event\<close>, the event loop, and the flag the signal handler sets. A handler returns the
  new state, the events to dispatch and the effects outside the program: signals sent to processes
  and spawner threads started. Clock readings, the results of \<open>waitpid\<close> and the operating system
  (\<open>os\<close>) are arguments.
\<close>

section \<open>State\<close>

record supervisor =
  su_status :: lifecycle_status
  su_repo :: repo
  su_sigterm :: bool      \<comment> \<open>the static \<open>SIGTERM_RECEIVED\<close>\<close>
  su_world :: world       \<comment> \<open>files and parsed commands the health checks use\<close>

datatype action =
  SendSignal pid os_signal
| SpawnForkExec service duration   \<comment> \<open>a spawner thread for the service, with its backoff\<close>

type_synonym handled = "(supervisor \<times> event list \<times> action list) res"

definition max_process_reaps_iters :: nat where
  "max_process_reaps_iters = 20"

definition init_pid :: pid where
  "init_pid = 1"

definition supervisor_new :: "world \<Rightarrow> service list \<Rightarrow> supervisor" where
  "supervisor_new w services =
    \<lparr>su_status = LRunning, su_repo = repo_new services, su_sigterm = False, su_world = w\<rparr>"

definition handle_sigterm :: "supervisor \<Rightarrow> supervisor" where
  "handle_sigterm st = st\<lparr>su_sigterm := True\<rparr>"

definition clear_sigterm :: "supervisor \<Rightarrow> supervisor" where
  "clear_sigterm st = st\<lparr>su_sigterm := False\<rparr>"

definition set_sh :: "service_name \<Rightarrow> service_handler \<Rightarrow> supervisor \<Rightarrow> supervisor" where
  "set_sh n sh st = st\<lparr>su_repo := insert_sh_by_name n sh (su_repo st)\<rparr>"

section \<open>Sending signals\<close>

definition kill :: "service_handler \<Rightarrow> os_signal option \<Rightarrow> action list" where
  "kill sh signal =
    (let s = (case signal of Some s \<Rightarrow> s | None \<Rightarrow> signal_of (tm_signal (sv_termination (sh_service sh))))
     in case sh_pid sh of Some pid \<Rightarrow> [SendSignal pid s] | None \<Rightarrow> [])"

section \<open>Handlers, one per arm of \<open>handle_event\<close>\<close>

text \<open>The status an exited service asks for, from its handler after the bookkeeping.\<close>

definition exit_request :: "service_handler \<Rightarrow> int \<Rightarrow> service_status" where
  "exit_request sh exit_code =
    (let has_failed = exit_code \<notin> set (fl_successful_exit_code (sv_failure (sh_service sh)))
     in if has_failed \<or> (sh_status sh = Running \<and> has_some_failed_healthchecks sh)
        then Failed else Success)"

definition exit_bookkeeping :: "service_handler \<Rightarrow> service_handler" where
  "exit_bookkeeping sh =
    (let sh1 = sh\<lparr>sh_shutting_down_start := None, sh_pid := None\<rparr>
     in sh1\<lparr>sh_restart_attempts := sh_restart_attempts sh1
              + u32_from_bool (has_some_failed_healthchecks sh1 \<and> is_early_state sh1)\<rparr>)"

definition on_service_exited :: "supervisor \<Rightarrow> service_name \<Rightarrow> int \<Rightarrow> handled" where
  "on_service_exited st n exit_code =
    res_bind (get_sh (su_repo st) n) (\<lambda>sh.
    res_map (\<lambda>pid.
      let sh2 = exit_bookkeeping sh;
          (new_sh, new_status) = change_status sh2 (exit_request sh2 exit_code)
      in (st\<lparr>su_repo := insert_sh_by_name n new_sh (remove_pid pid (su_repo st))\<rparr>,
          [StatusChanged n new_status], []))
    (ok_or (NoPid n) (sh_pid sh)))"

definition on_run :: "os \<Rightarrow> supervisor \<Rightarrow> service_name \<Rightarrow> handled" where
  "on_run os st n =
    res_bind (get_sh (su_repo st) n) (\<lambda>sh.
      if \<not> is_initial sh then Inr (st, [], [])
      else
        let sh1 = sh\<lparr>sh_status := Starting\<rparr>;
            (ok, w) = prepare_service os (sv_healthiness (sh_service sh1)) (su_world st);
            st1 = st\<lparr>su_world := w\<rparr>
        in if \<not> ok then
             Inr (set_sh n (sh1\<lparr>sh_status := FinishedFailed\<rparr>)
                    (st1\<lparr>su_status := ShuttingDown Gracefully\<rparr>),
                  [StatusUpdate (sh_name sh1) FinishedFailed, ShuttingDownInitiated Gracefully], [])
           else
             res_map (\<lambda>backoff.
                 (set_sh n sh1 st1, [StatusChanged n Starting], [SpawnForkExec (sh_service sh1) backoff]))
               (duration_mul (rs_backoff (sv_restart (sh_service sh1))) (sh_restart_attempts sh1)))"

definition on_spawn_failed :: "supervisor \<Rightarrow> service_name \<Rightarrow> handled" where
  "on_spawn_failed st n =
    res_map (\<lambda>sh. (set_sh n (sh\<lparr>sh_status := Failed\<rparr>) st, [StatusUpdate n Failed], []))
      (get_sh (su_repo st) n)"

definition on_kill :: "instant \<Rightarrow> supervisor \<Rightarrow> service_name \<Rightarrow> handled" where
  "on_kill now st n =
    res_map (\<lambda>sh.
      if is_in_killing sh then
        let sh1 = shutting_down_started now sh in (set_sh n sh1 st, [], kill sh1 None)
      else (st, [], []))
    (get_sh (su_repo st) n)"

definition on_force_kill :: "supervisor \<Rightarrow> service_name \<Rightarrow> handled" where
  "on_force_kill st n =
    res_map (\<lambda>sh.
      if is_in_killing sh then
        (set_sh n (sh\<lparr>sh_status := Failed\<rparr>) st, [new_status_changed (sh_name sh) Failed],
         kill sh (Some SIGKILL))
      else (st, [], []))
    (get_sh (su_repo st) n)"

definition on_pid_changed :: "instant \<Rightarrow> supervisor \<Rightarrow> service_name \<Rightarrow> pid \<Rightarrow> handled" where
  "on_pid_changed now st n pid =
    res_map (\<lambda>sh.
      let st1 = st\<lparr>su_repo := add_pid pid n (su_repo st)\<rparr>;
          sh1 = sh\<lparr>sh_pid := Some pid\<rparr>
      in if is_in_killing sh1 then
           let sh2 = sh1\<lparr>sh_shutting_down_start := Some now\<rparr> in (set_sh n sh2 st1, [], kill sh2 None)
         else (set_sh n (sh1\<lparr>sh_status := Started\<rparr>) st1, [StatusChanged n Started], []))
    (get_sh (su_repo st) n)"

definition on_health_check :: "supervisor \<Rightarrow> service_name \<Rightarrow> healthiness_status \<Rightarrow> handled" where
  "on_health_check st n health =
    res_map (\<lambda>sh. (set_sh n (add_healthcheck_event sh health) st, [], [])) (get_sh (su_repo st) n)"

definition on_shutting_down_initiated :: "supervisor \<Rightarrow> shutting_down \<Rightarrow> handled" where
  "on_shutting_down_initiated st sd =
    Inr (clear_sigterm (st\<lparr>su_status := ShuttingDown sd\<rparr>), [], [])"

definition on_status_update :: "supervisor \<Rightarrow> service_name \<Rightarrow> service_status \<Rightarrow> handled" where
  "on_status_update st n new_status =
    res_map (\<lambda>sh.
      let (new_sh, reached) = change_status sh new_status
      in if reached \<noteq> sh_status sh then (set_sh n new_sh st, [new_status_changed n reached], [])
         else (st, [], []))
    (get_sh (su_repo st) n)"

lemmas handlers [handler_defs] =
  on_service_exited_def on_run_def on_spawn_failed_def on_kill_def on_force_kill_def
  on_pid_changed_def on_health_check_def on_shutting_down_initiated_def on_status_update_def
  set_sh_def shutting_down_started_def clear_sigterm_def

fun handle_event :: "os \<Rightarrow> instant \<Rightarrow> supervisor \<Rightarrow> event \<Rightarrow> handled" where
  "handle_event os now st (ServiceExited n exit_code) = on_service_exited st n exit_code"
| "handle_event os now st (Run n) = on_run os st n"
| "handle_event os now st (SpawnFailed n) = on_spawn_failed st n"
| "handle_event os now st (Kill n) = on_kill now st n"
| "handle_event os now st (ForceKill n) = on_force_kill st n"
| "handle_event os now st (PidChanged n pid) = on_pid_changed now st n pid"
| "handle_event os now st (HealthCheck n health) = on_health_check st n health"
| "handle_event os now st (ShuttingDownInitiated sd) = on_shutting_down_initiated st sd"
| "handle_event os now st (StatusUpdate n new_status) = on_status_update st n new_status"
| "handle_event os now st (StatusChanged n status) = Inr (st, [], [])"

section \<open>The event loop\<close>

text \<open>Each received event is handled at its own clock reading.\<close>

definition timed_step :: "os \<Rightarrow> supervisor \<Rightarrow> instant \<times> event \<Rightarrow> handled" where
  "timed_step os st timed = handle_event os (fst timed) st (snd timed)"

definition handle_all :: "os \<Rightarrow> supervisor \<Rightarrow> (instant \<times> event) list \<Rightarrow> handled" where
  "handle_all os st evs = run_events (timed_step os) st evs"

definition sigterm_events :: "supervisor \<Rightarrow> event list" where
  "sigterm_events st =
    (case (su_status st, su_sigterm st) of
      (LRunning, True) \<Rightarrow> [ShuttingDownInitiated Gracefully]
    | (ShuttingDown Gracefully, True) \<Rightarrow> [ShuttingDownInitiated Forcefully]
    | _ \<Rightarrow> [])"

definition services_next :: "(service_name \<Rightarrow> instant) \<Rightarrow> supervisor \<Rightarrow> event list res" where
  "services_next clock st =
    flat_map_res (\<lambda>(n, sh). next_evs (clock n) sh (su_repo st) (su_status st))
      (hm_entries (rp_services (su_repo st)))"

text \<open>What one round of the loop finds outside: the events received, whether a signal arrived before
  the round, the clock while producing events and the results of \<open>waitpid\<close>.\<close>

record round_input =
  ri_received :: "(instant \<times> event) list"
  ri_signal :: bool
  ri_clock :: "service_name \<Rightarrow> instant"
  ri_waitpid :: "nat \<Rightarrow> wait_status"

definition run_round :: "os \<Rightarrow> round_input \<Rightarrow> supervisor \<Rightarrow> handled" where
  "run_round os inp st0 =
    (let st = (if ri_signal inp then handle_sigterm st0 else st0);
         sigterm_evs = sigterm_events st
     in res_bind (handle_all os st (ri_received inp)) (\<lambda>(st1, produced, acts).
        res_map (\<lambda>service_evs.
            (st1,
             sigterm_evs @ produced @ service_evs
               @ reaper_run (ri_waitpid inp) (su_repo st1) max_process_reaps_iters,
             acts))
          (services_next (ri_clock inp) st1)))"

definition exit_status_of :: "repo \<Rightarrow> exit_status" where
  "exit_status_of repo = (if any_finished_failed repo then SomeServiceFailed else Successful)"

text \<open>After the loop: as process 1, signal everything that is left; announce the end on the bus.\<close>

definition run_end :: "pid \<Rightarrow> supervisor \<Rightarrow> exit_status \<times> event list \<times> action list" where
  "run_end self_pid st =
    (exit_status_of (su_repo st), [ShuttingDownInitiated Gracefully],
     if self_pid = init_pid then [SendSignal (- 1) SIGTERM, SendSignal (- 1) SIGKILL] else [])"

text \<open>
  \<open>run\<close> over the inputs of the successive rounds. It need not end: \<open>None\<close> is the loop that never
  finds all services finished.
\<close>

partial_function (option) run ::
  "os \<Rightarrow> pid \<Rightarrow> (nat \<Rightarrow> round_input) \<Rightarrow> nat \<Rightarrow> supervisor
    \<Rightarrow> (supervisor \<times> exit_status \<times> event list \<times> action list) res option" where
  "run os self_pid inputs k st =
    (if all_have_finished (su_repo st) then Some (Inr (st, run_end self_pid st))
     else (case run_round os (inputs k) st of
         Inl p \<Rightarrow> Some (Inl p)
       | Inr r \<Rightarrow> run os self_pid inputs (Suc k) (fst r)))"

section \<open>Lemmas\<close>

lemma set_sh_simps [simp]:
  "svc (su_repo (set_sh n sh st)) m = (if m = n then Some sh else svc (su_repo st) m)"
  "su_status (set_sh n sh st) = su_status st"
  "su_sigterm (set_sh n sh st) = su_sigterm st"
  "su_world (set_sh n sh st) = su_world st"
  "get_service_by_pid (su_repo (set_sh n sh st)) p = get_service_by_pid (su_repo st) p"
  by (simp_all add: set_sh_def)

lemma exit_bookkeeping_frame [frame_simps, simp]:
  "sh_service (exit_bookkeeping sh) = sh_service sh"
  "sh_status (exit_bookkeeping sh) = sh_status sh"
  "sh_pid (exit_bookkeeping sh) = None"
  "sh_healthiness_checks_failed (exit_bookkeeping sh) = sh_healthiness_checks_failed sh"
  "sh_shutting_down_start (exit_bookkeeping sh) = None"
  by (simp_all add: exit_bookkeeping_def Let_def)

lemma run_finished:
  "all_have_finished (su_repo st) \<Longrightarrow> run os p inputs k st = Some (Inr (st, run_end p st))"
  by (simp add: run.simps)

lemma run_continue:
  "\<not> all_have_finished (su_repo st) \<Longrightarrow> run_round os (inputs k) st = Inr (st', out, acts) \<Longrightarrow>
    run os p inputs k st = run os p inputs (Suc k) st'"
  by (simp add: run.simps)

end
