(* ===== verification/Supervisor_Inv.thy ===== *)
theory Supervisor_Inv
  imports Supervisor
begin

text \<open>
  What every event leaves true of the supervisor: the services and their configuration never change,
  the repository stays well formed, the pid table agrees with the handlers, and the status of a
  service moves only along the edges of an abstract machine. Each fact is proved per event and
  lifted to the event lists of a round through the machines of theory \<open>Prelude\<close>.
\<close>

section \<open>The abstract machine of a service under the supervisor\<close>

text \<open>\<open>moves ev n s t\<close>: handling \<open>ev\<close> may take service \<open>n\<close> from status \<open>s\<close> to status \<open>t\<close>.\<close>

inductive moves :: "event \<Rightarrow> service_name \<Rightarrow> service_status \<Rightarrow> service_status \<Rightarrow> bool" where
  update: "accepts s r t \<Longrightarrow> moves (StatusUpdate n r) n s t"
| exited: "accepts s r t \<Longrightarrow> r = Success \<or> r = Failed \<Longrightarrow> moves (ServiceExited n c) n s t"
| started: "moves (Run n) n Initial Starting"
| unprepared: "moves (Run n) n Initial FinishedFailed"
| not_spawned: "moves (SpawnFailed n) n s Failed"
| force_killed: "moves (ForceKill n) n InKilling Failed"
| got_pid: "s \<noteq> InKilling \<Longrightarrow> moves (PidChanged n p) n s Started"

inductive_cases moves_update [elim]: "moves (StatusUpdate n r) m s t"
inductive_cases moves_exited [elim]: "moves (ServiceExited n c) m s t"
inductive_cases moves_run [elim]: "moves (Run n) m s t"
inductive_cases moves_kill [elim]: "moves (Kill n) m s t"
inductive_cases moves_from_finished: "moves ev n Finished t"
inductive_cases moves_from_finished_failed: "moves ev n FinishedFailed t"

lemma change_status_accepts:
  "snd (change_status sh r) \<noteq> sh_status sh \<Longrightarrow> accepts (sh_status sh) r (snd (change_status sh r))"
  by (auto simp: change_status_def handle_status_change_eq Let_def accepts_iff split: if_splits)

lemma change_status_cases:
  obtains "snd (change_status sh r) = sh_status sh"
  | "accepts (sh_status sh) r (snd (change_status sh r))"
  using change_status_accepts by blast

section \<open>What each handler did\<close>

lemma on_service_exited_cases:
  assumes "on_service_exited st n c = Inr (st', out, acts)"
  obtains sh pid where "svc (su_repo st) n = Some sh" "sh_pid sh = Some pid"
    "st' = st\<lparr>su_repo := insert_sh_by_name n
        (fst (change_status (exit_bookkeeping sh) (exit_request (exit_bookkeeping sh) c)))
        (remove_pid pid (su_repo st))\<rparr>"
    "out = [StatusChanged n (snd (change_status (exit_bookkeeping sh) (exit_request (exit_bookkeeping sh) c)))]"
    "acts = []"
  using assms by (auto simp: on_service_exited_def Let_def case_prod_unfold)

lemma on_run_cases:
  assumes "on_run os st n = Inr (st', out, acts)"
  obtains (ignored) sh where "svc (su_repo st) n = Some sh" "sh_status sh \<noteq> Initial"
      "st' = st" "out = []" "acts = []"
    | (unprepared) sh where "svc (su_repo st) n = Some sh" "sh_status sh = Initial"
      "\<not> fst (prepare_service os (sv_healthiness (sh_service sh)) (su_world st))"
      "st' = set_sh n (sh\<lparr>sh_status := FinishedFailed\<rparr>)
        (st\<lparr>su_world := snd (prepare_service os (sv_healthiness (sh_service sh)) (su_world st)),
            su_status := ShuttingDown Gracefully\<rparr>)"
      "out = [StatusUpdate (sh_name sh) FinishedFailed, ShuttingDownInitiated Gracefully]" "acts = []"
    | (spawning) sh backoff where "svc (su_repo st) n = Some sh" "sh_status sh = Initial"
      "fst (prepare_service os (sv_healthiness (sh_service sh)) (su_world st))"
      "duration_mul (rs_backoff (sv_restart (sh_service sh))) (sh_restart_attempts sh) = Inr backoff"
      "st' = set_sh n (sh\<lparr>sh_status := Starting\<rparr>)
        (st\<lparr>su_world := snd (prepare_service os (sv_healthiness (sh_service sh)) (su_world st))\<rparr>)"
      "out = [StatusChanged n Starting]" "acts = [SpawnForkExec (sh_service sh) backoff]"
proof -
  from assms obtain sh where sh: "svc (su_repo st) n = Some sh"
    by (auto simp: on_run_def)
  obtain ok w where pr: "prepare_service os (sv_healthiness (sh_service sh)) (su_world st) = (ok, w)"
    by fastforce
  show ?thesis
  proof (cases "sh_status sh = Initial")
    case False
    with assms sh show ?thesis by (intro ignored [of sh]) (auto simp: on_run_def get_sh_svc)
  next
    case initial: True
    show ?thesis
    proof (cases ok)
      case True
      with assms sh pr initial show ?thesis
        by (auto simp: on_run_def get_sh_svc sh_name_def intro!: spawning [of sh])
    next
      case False
      with assms sh pr initial show ?thesis
        by (intro unprepared [of sh]) (auto simp: on_run_def get_sh_svc sh_name_def)
    qed
  qed
qed

lemma on_spawn_failed_cases:
  assumes "on_spawn_failed st n = Inr (st', out, acts)"
  obtains sh where "svc (su_repo st) n = Some sh" "st' = set_sh n (sh\<lparr>sh_status := Failed\<rparr>) st"
    "out = [StatusUpdate n Failed]" "acts = []"
  using assms by (auto simp: on_spawn_failed_def)

lemma on_kill_cases:
  assumes "on_kill now st n = Inr (st', out, acts)"
  obtains (ignored) sh where "svc (su_repo st) n = Some sh" "sh_status sh \<noteq> InKilling"
      "st' = st" "out = []" "acts = []"
    | (signalled) sh where "svc (su_repo st) n = Some sh" "sh_status sh = InKilling"
      "st' = set_sh n (shutting_down_started now sh) st" "out = []"
      "acts = kill (shutting_down_started now sh) None"
  using assms by (auto simp: on_kill_def Let_def split: if_splits)

lemma on_force_kill_cases:
  assumes "on_force_kill st n = Inr (st', out, acts)"
  obtains (ignored) sh where "svc (su_repo st) n = Some sh" "sh_status sh \<noteq> InKilling"
      "st' = st" "out = []" "acts = []"
    | (signalled) sh where "svc (su_repo st) n = Some sh" "sh_status sh = InKilling"
      "st' = set_sh n (sh\<lparr>sh_status := Failed\<rparr>) st" "out = [StatusChanged (sh_name sh) Failed]"
      "acts = kill sh (Some SIGKILL)"
  using assms by (auto simp: on_force_kill_def split: if_splits)

lemma on_pid_changed_cases:
  assumes "on_pid_changed now st n p = Inr (st', out, acts)"
  obtains (killed) sh where "svc (su_repo st) n = Some sh" "sh_status sh = InKilling"
      "st' = set_sh n (sh\<lparr>sh_pid := Some p, sh_shutting_down_start := Some now\<rparr>)
        (st\<lparr>su_repo := add_pid p n (su_repo st)\<rparr>)"
      "out = []" "acts = kill (sh\<lparr>sh_pid := Some p, sh_shutting_down_start := Some now\<rparr>) None"
    | (up) sh where "svc (su_repo st) n = Some sh" "sh_status sh \<noteq> InKilling"
      "st' = set_sh n (sh\<lparr>sh_pid := Some p, sh_status := Started\<rparr>)
        (st\<lparr>su_repo := add_pid p n (su_repo st)\<rparr>)"
      "out = [StatusChanged n Started]" "acts = []"
  using assms by (auto simp: on_pid_changed_def Let_def split: if_splits)

lemma on_health_check_cases:
  assumes "on_health_check st n h = Inr (st', out, acts)"
  obtains sh where "svc (su_repo st) n = Some sh" "st' = set_sh n (add_healthcheck_event sh h) st"
    "out = []" "acts = []"
  using assms by (auto simp: on_health_check_def)

lemma on_status_update_cases:
  assumes "on_status_update st n r = Inr (st', out, acts)"
  obtains (same) sh where "svc (su_repo st) n = Some sh" "snd (change_status sh r) = sh_status sh"
      "st' = st" "out = []" "acts = []"
    | (changed) sh where "svc (su_repo st) n = Some sh" "snd (change_status sh r) \<noteq> sh_status sh"
      "st' = set_sh n (fst (change_status sh r)) st"
      "out = [StatusChanged n (snd (change_status sh r))]" "acts = []"
  using assms by (auto simp: on_status_update_def Let_def case_prod_unfold split: if_splits)

lemma on_shutting_down_initiated_cases:
  assumes "on_shutting_down_initiated st sd = Inr (st', out, acts)"
  obtains "st' = st\<lparr>su_status := ShuttingDown sd, su_sigterm := False\<rparr>" "out = []" "acts = []"
  using assms by (auto simp: on_shutting_down_initiated_def clear_sigterm_def)

text \<open>
  The handler that ran and the case it took: \<open>handle_eventE\<close> opens an event, \<open>handler_elims\<close> the
  handler's result, and the claims about one event follow by automation on the cases.
\<close>

fun_cases handle_eventE: "handle_event os now st ev = Inr r"

lemmas handler_elims =
  on_service_exited_cases [OF sym] on_run_cases [OF sym] on_spawn_failed_cases [OF sym]
  on_kill_cases [OF sym] on_force_kill_cases [OF sym] on_pid_changed_cases [OF sym]
  on_health_check_cases [OF sym] on_status_update_cases [OF sym]
  on_shutting_down_initiated_cases [OF sym]

section \<open>One event\<close>

text \<open>
  What a handled event does to a service: its configuration stays, and its status stays or moves.
\<close>

definition svc_after :: "event \<Rightarrow> supervisor \<Rightarrow> supervisor \<Rightarrow> bool" where
  "svc_after ev st st' \<longleftrightarrow>
    (\<forall>n. (case svc (su_repo st) n of
      None \<Rightarrow> svc (su_repo st') n = None
    | Some sh \<Rightarrow> (\<exists>sh'. svc (su_repo st') n = Some sh' \<and> sh_service sh' = sh_service sh
        \<and> (sh_status sh' = sh_status sh \<or> moves ev n (sh_status sh) (sh_status sh')))))"

lemma svc_after_set:
  assumes "svc (su_repo st) n = Some sh" and "sh_service sh' = sh_service sh"
    and "sh_status sh' = sh_status sh \<or> moves ev n (sh_status sh) (sh_status sh')"
    and "\<And>m. svc (su_repo st1) m = svc (su_repo st) m"
  shows "svc_after ev st (set_sh n sh' st1)"
  using assms by (auto simp: svc_after_def split: option.splits)

lemma svc_after_refl: "svc_after ev st st"
  by (auto simp: svc_after_def split: option.splits)

lemma exit_moves:
  "sh_status sh2 = sh_status sh \<Longrightarrow> snd (change_status sh2 (exit_request sh2 c)) = sh_status sh
    \<or> moves (ServiceExited n c) n (sh_status sh) (snd (change_status sh2 (exit_request sh2 c)))"
  using change_status_accepts [of sh2 "exit_request sh2 c"]
  by (auto intro!: moves.exited simp: exit_request_def Let_def)

lemma update_moves:
  "snd (change_status sh r) \<noteq> sh_status sh
    \<Longrightarrow> moves (StatusUpdate n r) n (sh_status sh) (snd (change_status sh r))"
  by (intro moves.update change_status_accepts)

lemma svc_after_repo: "su_repo st' = su_repo st \<Longrightarrow> svc_after ev st st'"
  by (auto simp: svc_after_def split: option.splits)

lemma svc_after_exited:
  assumes "svc (su_repo st) n = Some sh"
  shows "svc_after (ServiceExited n c) st (st\<lparr>su_repo := insert_sh_by_name n
      (fst (change_status (exit_bookkeeping sh) (exit_request (exit_bookkeeping sh) c)))
      (remove_pid pid (su_repo st))\<rparr>)"
  using assms exit_moves [of "exit_bookkeeping sh" sh c n]
  by (auto simp: svc_after_def frame_simps split: option.splits)

lemma handle_event_after:
  assumes "handle_event os now st ev = Inr (st', out, acts)"
  shows "svc_after ev st st'"
  using assms
  by (elim handle_eventE; (elim handler_elims)?;
      auto simp: shutting_down_started_def frame_simps svc_after_repo svc_after_exited
        intro!: svc_after_set update_moves moves.started moves.unprepared moves.not_spawned
          moves.force_killed moves.got_pid)

lemma handle_event_svc:
  assumes "handle_event os now st ev = Inr (st', out, acts)" and "svc (su_repo st) n = Some sh"
  shows "\<exists>sh'. svc (su_repo st') n = Some sh' \<and> sh_service sh' = sh_service sh
    \<and> (sh_status sh' = sh_status sh \<or> moves ev n (sh_status sh) (sh_status sh'))"
  using handle_event_after [OF assms(1)] assms(2) by (auto simp: svc_after_def split: option.splits)

end
