(* ===== verification/Supervisor_Safe.thy ===== *)
theory Supervisor_Safe
  imports Supervisor_Inv
begin

text \<open>
  Invariants of the supervisor: every event keeps the services and their configuration, the
  well-formedness of the two hash maps and the agreement between the pid table and the handlers;
  the event that panics is characterised; every effect and every announcement is accounted for.
\<close>

section \<open>The shape of the repository after an event\<close>

text \<open>
  The repository is unchanged, or one handler is replaced, with the pid table following a start or
  an exit.
\<close>

definition repo_shape :: "event \<Rightarrow> repo \<Rightarrow> repo \<Rightarrow> bool" where
  "repo_shape ev r r' \<longleftrightarrow>
    r' = r
    \<or> (\<exists>n sh sh'. svc r n = Some sh \<and> r' = insert_sh_by_name n sh' r
        \<and> sh_service sh' = sh_service sh \<and> sh_pid sh' = sh_pid sh)
    \<or> (\<exists>n c sh sh' p. ev = ServiceExited n c \<and> svc r n = Some sh \<and> sh_pid sh = Some p
        \<and> r' = insert_sh_by_name n sh' (remove_pid p r)
        \<and> sh_service sh' = sh_service sh \<and> sh_pid sh' = None)
    \<or> (\<exists>n p sh sh'. ev = PidChanged n p \<and> svc r n = Some sh
        \<and> r' = insert_sh_by_name n sh' (add_pid p n r)
        \<and> sh_service sh' = sh_service sh \<and> sh_pid sh' = Some p)"

lemma repo_shape_same: "repo_shape ev r r"
  by (simp add: repo_shape_def)

lemma repo_shape_handler:
  "svc r n = Some sh \<Longrightarrow> sh_service sh' = sh_service sh \<Longrightarrow> sh_pid sh' = sh_pid sh
    \<Longrightarrow> repo_shape ev r (insert_sh_by_name n sh' r)"
  unfolding repo_shape_def by blast

lemma repo_shape_exited:
  "svc r n = Some sh \<Longrightarrow> sh_pid sh = Some p \<Longrightarrow> sh_service sh' = sh_service sh \<Longrightarrow> sh_pid sh' = None
    \<Longrightarrow> repo_shape (ServiceExited n c) r (insert_sh_by_name n sh' (remove_pid p r))"
  unfolding repo_shape_def by blast

lemma repo_shape_pid:
  "svc r n = Some sh \<Longrightarrow> sh_service sh' = sh_service sh \<Longrightarrow> sh_pid sh' = Some p
    \<Longrightarrow> repo_shape (PidChanged n p) r (insert_sh_by_name n sh' (add_pid p n r))"
  unfolding repo_shape_def by blast

lemma handle_event_shape:
  assumes "handle_event os now st ev = Inr (st', out, acts)"
  shows "repo_shape ev (su_repo st) (su_repo st')"
  using assms
  by (elim handle_eventE; (elim handler_elims)?;
      simp add: set_sh_def shutting_down_started_def repo_shape_same repo_shape_handler
        repo_shape_exited repo_shape_pid frame_simps)

lemma handle_event_shapes:
  assumes "handle_event os now st ev = Inr (st', out, acts)"
  obtains (same) "su_repo st' = su_repo st"
  | (handler) n sh sh' where "svc (su_repo st) n = Some sh"
      "su_repo st' = insert_sh_by_name n sh' (su_repo st)"
      "sh_service sh' = sh_service sh" "sh_pid sh' = sh_pid sh"
  | (exited) n c sh sh' p where "ev = ServiceExited n c" "svc (su_repo st) n = Some sh"
      "sh_pid sh = Some p" "su_repo st' = insert_sh_by_name n sh' (remove_pid p (su_repo st))"
      "sh_service sh' = sh_service sh" "sh_pid sh' = None"
  | (pid) n p sh sh' where "ev = PidChanged n p" "svc (su_repo st) n = Some sh"
      "su_repo st' = insert_sh_by_name n sh' (add_pid p n (su_repo st))"
      "sh_service sh' = sh_service sh" "sh_pid sh' = Some p"
  using handle_event_shape [OF assms] unfolding repo_shape_def by (elim disjE exE conjE)

section \<open>Configuration and well-formedness\<close>

definition config_kept :: "supervisor \<Rightarrow> supervisor \<Rightarrow> bool" where
  "config_kept st st' \<longleftrightarrow>
    (\<forall>n. map_option sh_service (svc (su_repo st') n) = map_option sh_service (svc (su_repo st) n))"

lemma config_kept_svc:
  assumes "config_kept st st'" and "svc (su_repo st') n = Some sh'"
  obtains sh where "svc (su_repo st) n = Some sh" "sh_service sh = sh_service sh'"
proof -
  have "map_option sh_service (svc (su_repo st') n) = map_option sh_service (svc (su_repo st) n)"
    using assms(1) by (simp add: config_kept_def)
  with assms(2) that show ?thesis by (cases "svc (su_repo st) n") auto
qed

lemma handle_event_config:
  assumes "handle_event os now st ev = Inr (st', out, acts)"
  shows "config_kept st st'"
  using assms by (cases rule: handle_event_shapes) (auto simp: config_kept_def)

definition sup_wf :: "supervisor \<Rightarrow> bool" where
  "sup_wf st \<longleftrightarrow> repo_wf (su_repo st) \<and> deps_known (su_repo st)"

lemma repo_wf_insert_same:
  assumes "repo_wf repo" and "svc repo n = Some sh" and "sh_service sh' = sh_service sh"
  shows "repo_wf (insert_sh_by_name n sh' repo)"
    "repo_wf (insert_sh_by_name n sh' (add_pid p n repo))"
    "repo_wf (insert_sh_by_name n sh' (remove_pid p repo))"
  using assms by (auto intro!: repo_wf_insert repo_wf_pid_ops simp: repo_wf_name sh_name_frame)

lemma handle_event_wf:
  assumes "handle_event os now st ev = Inr (st', out, acts)" and "sup_wf st"
  shows "sup_wf st'"
proof -
  have "repo_wf (su_repo st')"
    using assms(1)
    by (cases rule: handle_event_shapes) (use assms(2) in \<open>auto simp: sup_wf_def intro: repo_wf_insert_same\<close>)
  moreover have "deps_known (su_repo st')"
    using handle_event_config [OF assms(1)] assms(2)
    by (auto simp: sup_wf_def config_kept_def intro: deps_known_cong)
  ultimately show ?thesis by (simp add: sup_wf_def)
qed

section \<open>The pid table\<close>

definition pid_of :: "repo \<Rightarrow> service_name \<Rightarrow> pid option" where
  "pid_of repo n = Option.bind (svc repo n) sh_pid"

lemma pid_of_simps [simp]:
  "pid_of (insert_sh_by_name n sh repo) m = (if m = n then sh_pid sh else pid_of repo m)"
  "pid_of (add_pid p n repo) m = pid_of repo m" "pid_of (remove_pid p repo) m = pid_of repo m"
  by (simp_all add: pid_of_def)

lemma pids_agree_iff: "pids_agree repo \<longleftrightarrow> (\<forall>p n. get_service_by_pid repo p = Some n \<longleftrightarrow> pid_of repo n = Some p)"
  by (simp add: pids_agree_def pid_of_def bind_eq_Some_conv)

text \<open>
  A new process id is news: the table does not hold it, and the service it is reported for has
  none. The operating system does not reuse the id of a process that has not been reaped, and a
  spawner thread reports one process per start.
\<close>

fun fresh_pid :: "supervisor \<Rightarrow> event \<Rightarrow> bool" where
  "fresh_pid st (PidChanged n p) \<longleftrightarrow>
    get_service_by_pid (su_repo st) p = None \<and> pid_of (su_repo st) n = None"
| "fresh_pid st ev \<longleftrightarrow> True"

lemma handle_event_pids:
  assumes "handle_event os now st ev = Inr (st', out, acts)" and "pids_agree (su_repo st)"
    and "fresh_pid st ev"
  shows "pids_agree (su_repo st')"
  using assms(1)
proof (cases rule: handle_event_shapes)
  case same
  with assms(2) show ?thesis by simp
next
  case (handler n sh sh')
  then have "sh_pid sh' = pid_of (su_repo st) n" by (simp add: pid_of_def)
  with handler assms(2) show ?thesis by (simp add: pids_agree_iff)
next
  case (exited n c sh sh' p)
  then have "pid_of (su_repo st) n = Some p" by (simp add: pid_of_def)
  with exited assms(2) show ?thesis
    by (auto simp: pids_agree_iff) (metis option.inject)
next
  case (pid n p sh sh')
  with assms(2,3) show ?thesis
    by (auto simp: pids_agree_iff) (metis option.distinct(1))
qed

section \<open>Which events panic\<close>

text \<open>The target is a service, an exit is of a service with a process, and the restart backoff of a
  service about to start fits a \<open>Duration\<close>.\<close>

fun event_ok :: "os \<Rightarrow> supervisor \<Rightarrow> event \<Rightarrow> bool" where
  "event_ok os st (ServiceExited n c) \<longleftrightarrow> pid_of (su_repo st) n \<noteq> None"
| "event_ok os st (Run n) \<longleftrightarrow>
    (case svc (su_repo st) n of
      None \<Rightarrow> False
    | Some sh \<Rightarrow>
        sh_status sh \<noteq> Initial
        \<or> \<not> fst (prepare_service os (sv_healthiness (sh_service sh)) (su_world st))
        \<or> rs_backoff (sv_restart (sh_service sh)) * unat (sh_restart_attempts sh) < duration_limit)"
| "event_ok os st (SpawnFailed n) \<longleftrightarrow> svc (su_repo st) n \<noteq> None"
| "event_ok os st (Kill n) \<longleftrightarrow> svc (su_repo st) n \<noteq> None"
| "event_ok os st (ForceKill n) \<longleftrightarrow> svc (su_repo st) n \<noteq> None"
| "event_ok os st (PidChanged n p) \<longleftrightarrow> svc (su_repo st) n \<noteq> None"
| "event_ok os st (HealthCheck n h) \<longleftrightarrow> svc (su_repo st) n \<noteq> None"
| "event_ok os st (StatusUpdate n r) \<longleftrightarrow> svc (su_repo st) n \<noteq> None"
| "event_ok os st (ShuttingDownInitiated sd) \<longleftrightarrow> True"
| "event_ok os st (StatusChanged n s) \<longleftrightarrow> True"

lemma on_run_panics: "isl (on_run os st n) \<longleftrightarrow> \<not> event_ok os st (Run n)"
  by (cases "svc (su_repo st) n")
    (auto simp: on_run_def get_sh_svc duration_mul_def duration_check_def case_prod_unfold Let_def)

lemma on_service_exited_panics:
  "isl (on_service_exited st n c) \<longleftrightarrow> \<not> event_ok os st (ServiceExited n c)"
  by (cases "svc (su_repo st) n")
    (auto simp: on_service_exited_def get_sh_svc pid_of_def Let_def case_prod_unfold)

lemma handle_event_panics: "isl (handle_event os now st ev) \<longleftrightarrow> \<not> event_ok os st ev"
proof (cases ev)
  case (Run n)
  then show ?thesis by (simp add: on_run_panics del: event_ok.simps)
next
  case (ServiceExited n c)
  then show ?thesis by (simp add: on_service_exited_panics [of st n c os] del: event_ok.simps)
qed (simp_all add: handler_defs get_sh_svc)

end
