(* ===== verification/Supervisor_Run.thy ===== *)
theory Supervisor_Run
  imports Supervisor_Safe
begin

text \<open>
  The supervisor's event loop: what one event emits (signals, spawner threads, announcements), what a
  round and the whole loop preserve, and the exit status of the run.
\<close>

section \<open>Effects and announcements of one event\<close>

lemma kill_mem:
  "SendSignal p s \<in> set (kill sh sig) \<longleftrightarrow> sh_pid sh = Some p
    \<and> s = (case sig of Some x \<Rightarrow> x | None \<Rightarrow> signal_of (tm_signal (sv_termination (sh_service sh))))"
  "SpawnForkExec x d \<notin> set (kill sh sig)"
  by (auto simp: kill_def Let_def split: option.splits)

lemma signal_of_not_kill [simp]: "signal_of t \<noteq> SIGKILL"
  by (cases t) simp_all

lemma handle_event_signals:
  assumes "handle_event os now st ev = Inr (st', out, acts)" and "SendSignal p s \<in> set acts"
  shows "\<exists>n sh sh'. svc (su_repo st) n = Some sh \<and> sh_status sh = InKilling
    \<and> svc (su_repo st') n = Some sh' \<and> sh_pid sh' = Some p
    \<and> (ev = ForceKill n \<and> s = SIGKILL
       \<or> (ev = Kill n \<or> ev = PidChanged n p) \<and> s = signal_of (tm_signal (sv_termination (sh_service sh))))"
  using assms
  by (elim handle_eventE; (elim handler_elims)?;
      auto simp: kill_mem shutting_down_started_def)

lemma handle_event_spawns:
  assumes "handle_event os now st ev = Inr (st', out, acts)" and "SpawnForkExec s d \<in> set acts"
  shows "\<exists>n sh. ev = Run n \<and> svc (su_repo st) n = Some sh \<and> sh_status sh = Initial \<and> s = sh_service sh
    \<and> d = rs_backoff (sv_restart s) * unat (sh_restart_attempts sh)
    \<and> svc (su_repo st') n = Some (sh\<lparr>sh_status := Starting\<rparr>) \<and> acts = [SpawnForkExec s d]"
  using assms
  by (elim handle_eventE; (elim handler_elims)?;
      auto simp: kill_mem shutting_down_started_def duration_mul_def)

text \<open>A status that changed is announced by \<open>StatusChanged\<close>, but for two handlers.\<close>

definition announced :: "event \<Rightarrow> supervisor \<Rightarrow> supervisor \<Rightarrow> event list \<Rightarrow> bool" where
  "announced ev st st' out \<longleftrightarrow>
    (\<forall>n sh sh'. svc (su_repo st) n = Some sh \<longrightarrow> svc (su_repo st') n = Some sh'
      \<longrightarrow> sh_status sh' \<noteq> sh_status sh
      \<longrightarrow> StatusChanged n (sh_status sh') \<in> set out
        \<or> ev = SpawnFailed n \<or> (ev = Run n \<and> sh_status sh' = FinishedFailed))"

lemma handle_event_announced:
  assumes "handle_event os now st ev = Inr (st', out, acts)" and "repo_wf (su_repo st)"
  shows "announced ev st st' out"
  using assms
  by (elim handle_eventE; (elim handler_elims)?;
      auto simp: announced_def shutting_down_started_def frame_simps repo_wf_name)

text \<open>The restart counter: only a status update to \<open>Started\<close> resets it.\<close>

lemma handle_event_attempts:
  assumes "handle_event os now st ev = Inr (st', out, acts)" and "ev \<noteq> StatusUpdate n Started"
    and "svc (su_repo st) n = Some sh" and "svc (su_repo st') n = Some sh'"
  shows "sh_restart_attempts sh' = sh_restart_attempts sh
    \<or> (\<exists>c. ev = ServiceExited n c) \<and> sh_restart_attempts sh' = sh_restart_attempts sh + 1"
  using assms
  by (elim handle_eventE; (elim handler_elims)?;
      auto simp: shutting_down_started_def frame_simps change_status_def handle_status_change_eq
        Let_def exit_bookkeeping_def u32_from_bool_def exit_request_def split: if_splits)

lemma handle_event_no_Started_update:
  assumes "handle_event os now st ev = Inr (st', out, acts)"
  shows "StatusUpdate n Started \<notin> set out"
  using assms by (elim handle_eventE; (elim handler_elims)?; auto)

lemma next_evs_no_Started_update:
  assumes "next_evs now sh repo lc = Inr evs"
  shows "StatusUpdate n Started \<notin> set evs"
proof (cases lc)
  case LRunning
  with assms show ?thesis
    by (cases "sh_status sh")
      (auto simp: next_evs_def next_events_def Let_def handle_restart_strategy_def
        dest: handle_failed_service_events split: if_splits restart_strategy.splits)
next
  case (ShuttingDown sd)
  with assms show ?thesis
    by (auto simp: next_evs_def dest: next_events_shutting_down_kinds)
qed

section \<open>A round of the loop\<close>

interpretation config: step_relation "timed_step os" config_kept for os
  by unfold_locales (auto simp: timed_step_def config_kept_def dest: handle_event_config)

interpretation wf: step_invariant "timed_step os" sup_wf for os
  by unfold_locales (auto simp: timed_step_def intro: handle_event_wf)

lemma handle_sigterm_simps [simp]:
  "su_repo (handle_sigterm st) = su_repo st" "su_status (handle_sigterm st) = su_status st"
  "su_world (handle_sigterm st) = su_world st"
  by (simp_all add: handle_sigterm_def)

definition round_start :: "round_input \<Rightarrow> supervisor \<Rightarrow> supervisor" where
  "round_start inp st = (if ri_signal inp then handle_sigterm st else st)"

lemma round_start_simps [simp]:
  "su_repo (round_start inp st) = su_repo st" "su_status (round_start inp st) = su_status st"
  "sup_wf (round_start inp st) = sup_wf st"
  by (simp_all add: round_start_def sup_wf_def)

lemma run_round_cases:
  assumes "run_round os inp st = Inr (st', sent, acts)"
  obtains produced service_evs where
    "handle_all os (round_start inp st) (ri_received inp) = Inr (st', produced, acts)"
    "services_next (ri_clock inp) st' = Inr service_evs"
    "sent = sigterm_events (round_start inp st) @ produced @ service_evs
      @ reaper_run (ri_waitpid inp) (su_repo st') max_process_reaps_iters"
  using assms by (auto simp: run_round_def round_start_def Let_def)

lemma run_round_config: "run_round os inp st = Inr (st', sent, acts) \<Longrightarrow> config_kept st st'"
  by (auto simp: handle_all_def config_kept_def elim!: run_round_cases dest!: config.rel_run)

lemma run_round_wf: "run_round os inp st = Inr (st', sent, acts) \<Longrightarrow> sup_wf st \<Longrightarrow> sup_wf st'"
  by (auto simp: handle_all_def elim!: run_round_cases intro: wf.inv_run [of "round_start inp st"])

lemma services_next_mem:
  assumes "services_next clock st = Inr evs" and "repo_wf (su_repo st)"
  shows "e \<in> set evs \<longleftrightarrow>
    (\<exists>n sh es. svc (su_repo st) n = Some sh
      \<and> next_evs (clock n) sh (su_repo st) (su_status st) = Inr es \<and> e \<in> set es)"
  unfolding flat_map_res_Inr_set [OF assms(1) [unfolded services_next_def]] Bex_def split_paired_Ex
  by (simp add: entries_svc [OF assms(2)])

lemma services_next_total: "sup_wf st \<Longrightarrow> \<exists>evs. services_next clock st = Inr evs"
  unfolding services_next_def
  by (rule flat_map_res_no_panic) (auto simp: sup_wf_def entries_svc intro: next_evs_total)

end
