(* ===== verification/Closed_Loop.thy ===== *)
theory Closed_Loop
  imports Supervisor_Run
begin

text \<open>
  \<open>Horust::run\<close> (\<open>horust/mod.rs\<close>) seen from the supervisor: its loop, closed through the bus. What the
  supervisor sends comes back to its own connector, with what the other threads send in between, in
  the order of the bus and as late as the bus pleases. The loop of theory \<open>Supervisor\<close> takes its
  inputs as given; here a round receives a part of the events that were sent before it.
\<close>

section \<open>One round on the bus\<close>

text \<open>Two sequences of events merged by a schedule: \<open>True\<close> takes from the first.\<close>

fun interleave :: "bool list \<Rightarrow> 'a list \<Rightarrow> 'a list \<Rightarrow> 'a list" where
  "interleave (True # bs) (x # xs) ys = x # interleave bs xs ys"
| "interleave (False # bs) xs (y # ys) = y # interleave bs xs ys"
| "interleave (_ # bs) xs ys = interleave bs xs ys"
| "interleave [] xs ys = xs @ ys"

text \<open>
  What happens around one round: how many of the pending events have been dispatched when the
  supervisor polls its connector, the clock readings, whether a signal arrived, the results of
  \<open>waitpid\<close>, and what the other threads send, with the order the bus gives it.
\<close>

record outside =
  ou_delivered :: nat
  ou_times :: "nat \<Rightarrow> instant"
  ou_signal :: bool
  ou_clock :: "service_name \<Rightarrow> instant"
  ou_waitpid :: "nat \<Rightarrow> wait_status"
  ou_sent :: "event list"
  ou_schedule :: "bool list"

definition round_input_of :: "outside \<Rightarrow> event list \<Rightarrow> round_input" where
  "round_input_of ou pending =
    (let evs = take (ou_delivered ou) pending
     in \<lparr>ri_received = zip (map (ou_times ou) [0..<length evs]) evs, ri_signal = ou_signal ou,
         ri_clock = ou_clock ou, ri_waitpid = ou_waitpid ou\<rparr>)"

type_synonym config = "supervisor \<times> event list"

definition bus_round :: "os \<Rightarrow> outside \<Rightarrow> config \<Rightarrow> config res" where
  "bus_round os ou c =
    (let (st, pending) = c
     in res_map (\<lambda>(st', sent, acts).
          (st', drop (ou_delivered ou) pending @ interleave (ou_schedule ou) sent (ou_sent ou)))
        (run_round os (round_input_of ou pending) st))"

section \<open>The loop\<close>

partial_function (option) horust_run ::
  "os \<Rightarrow> pid \<Rightarrow> (nat \<Rightarrow> outside) \<Rightarrow> nat \<Rightarrow> config
    \<Rightarrow> (supervisor \<times> exit_status \<times> event list \<times> action list) res option" where
  "horust_run os self_pid ous k c =
    (if all_have_finished (su_repo (fst c)) then Some (Inr (fst c, run_end self_pid (fst c)))
     else (case bus_round os (ous k) c of
         Inl p \<Rightarrow> Some (Inl p)
       | Inr c' \<Rightarrow> horust_run os self_pid ous (Suc k) c'))"

text \<open>The configuration after \<open>n\<close> rounds, from round \<open>k\<close> on.\<close>

fun rounds :: "os \<Rightarrow> (nat \<Rightarrow> outside) \<Rightarrow> nat \<Rightarrow> nat \<Rightarrow> config \<Rightarrow> config res" where
  "rounds os ous k 0 c = Inr c"
| "rounds os ous k (Suc n) c = res_bind (bus_round os (ous k) c) (rounds os ous (Suc k) n)"

section \<open>Lemmas\<close>

lemma interleave_set: "set (interleave bs xs ys) = set xs \<union> set ys"
  by (induction bs xs ys rule: interleave.induct) auto

lemma interleave_filter_left:
  "\<forall>y \<in> set ys. \<not> P y \<Longrightarrow> filter P (interleave bs xs ys) = filter P xs"
  by (induction bs xs ys rule: interleave.induct) auto

lemma received_events: "map snd (ri_received (round_input_of ou pending)) = take (ou_delivered ou) pending"
  by (simp add: round_input_of_def Let_def map_snd_zip)

lemma round_input_of_simps [simp]:
  "ri_signal (round_input_of ou pending) = ou_signal ou"
  "ri_clock (round_input_of ou pending) = ou_clock ou"
  "ri_waitpid (round_input_of ou pending) = ou_waitpid ou"
  by (simp_all add: round_input_of_def Let_def)

lemma bus_round_Inr:
  "bus_round os ou (st, pending) = Inr (st', pending') \<longleftrightarrow>
    (\<exists>sent acts. run_round os (round_input_of ou pending) st = Inr (st', sent, acts)
      \<and> pending' = drop (ou_delivered ou) pending @ interleave (ou_schedule ou) sent (ou_sent ou))"
  by (auto simp: bus_round_def)

lemma rounds_add:
  "rounds os ous k n c = Inr c1 \<Longrightarrow> rounds os ous (k + n) m c1 = Inr c2 \<Longrightarrow> rounds os ous k (n + m) c = Inr c2"
  by (induction n arbitrary: k c) auto

lemma rounds_Suc_Inr:
  "rounds os ous k (Suc m) c = Inr c2 \<longleftrightarrow>
    (\<exists>c1. rounds os ous k m c = Inr c1 \<and> bus_round os (ous (k + m)) c1 = Inr c2)"
proof (induction m arbitrary: k c)
  case 0
  show ?case by (cases "bus_round os (ous k) c") auto
qed auto

lemma sigterm_events_only: "e \<in> set (sigterm_events st) \<Longrightarrow> \<exists>sd. e = ShuttingDownInitiated sd"
  by (auto simp: sigterm_events_def split: lifecycle_status.splits shutting_down.splits bool.splits)

lemma bus_roundE:
  assumes "bus_round os ou (st, q) = Inr (st', q')"
  obtains out acts evs where
    "handle_all os (round_start (round_input_of ou q) st) (ri_received (round_input_of ou q)) = Inr (st', out, acts)"
    "services_next (ou_clock ou) st' = Inr evs"
    "\<And>e. e \<in> set q' \<Longrightarrow> e \<in> set q \<or> e \<in> set (sigterm_events (round_start (round_input_of ou q) st)) \<or> e \<in> set out
      \<or> e \<in> set evs \<or> (\<exists>n c. e = ServiceExited n c) \<or> e \<in> set (ou_sent ou)"
proof -
  let ?in = "round_input_of ou q"
  from assms obtain sent acts where run: "run_round os ?in st = Inr (st', sent, acts)"
    and q': "q' = drop (ou_delivered ou) q @ interleave (ou_schedule ou) sent (ou_sent ou)" by (auto simp: bus_round_Inr)
  from run obtain out evs where h: "handle_all os (round_start ?in st) (ri_received ?in) = Inr (st', out, acts)"
    and evs: "services_next (ou_clock ou) st' = Inr evs"
    and sent: "sent = sigterm_events (round_start ?in st) @ out @ evs
      @ reaper_run (ou_waitpid ou) (su_repo st') max_process_reaps_iters"
    by (auto elim!: run_round_cases)
  show thesis
    by (rule that [OF h evs]) (auto simp: q' sent interleave_set reaper_run_mem dest: in_set_dropD)
qed

lemma horust_run_finished:
  "all_have_finished (su_repo (fst c)) \<Longrightarrow> horust_run os p ous k c = Some (Inr (fst c, run_end p (fst c)))"
  by (simp add: horust_run.simps)

lemma horust_run_continue:
  "\<not> all_have_finished (su_repo (fst c)) \<Longrightarrow> bus_round os (ous k) c = Inr c'
    \<Longrightarrow> horust_run os p ous k c = horust_run os p ous (Suc k) c'"
  by (simp add: horust_run.simps [of os p ous k])

lemma horust_run_ends:
  assumes "rounds os ous k n c = Inr c'" and "all_have_finished (su_repo (fst c'))"
  shows "\<exists>st. horust_run os p ous k c = Some (Inr (st, run_end p st)) \<and> all_have_finished (su_repo st)"
  using assms
proof (induction n arbitrary: k c)
  case 0
  then show ?case by (auto simp only: rounds.simps sum.inject horust_run_finished)
next
  case (Suc n)
  then obtain c1 where c1: "bus_round os (ous k) c = Inr c1" and "rounds os ous (Suc k) n c1 = Inr c'"
    by auto
  with Suc.IH Suc.prems(2) have "\<exists>st. horust_run os p ous (Suc k) c1 = Some (Inr (st, run_end p st))
      \<and> all_have_finished (su_repo st)" by blast
  with c1 show ?case
    by (metis horust_run_finished horust_run_continue)
qed

lemma rounds_config: "rounds os ous k m c = Inr c' \<Longrightarrow> config_kept (fst c) (fst c')"
proof (induction m arbitrary: k c)
  case 0
  then show ?case by (simp add: config_kept_def)
next
  case (Suc m)
  from Suc.prems obtain c1 where b: "bus_round os (ous k) c = Inr c1" and "rounds os ous (Suc k) m c1 = Inr c'"
    by auto
  moreover from b have "config_kept (fst c) (fst c1)"
    by (cases c; cases c1) (auto simp: bus_round_Inr dest: run_round_config)
  ultimately show ?case using Suc.IH by (fastforce simp: config_kept_def)
qed

text \<open>The loop with a bound on its rounds, to evaluate it.\<close>

fun bounded_run :: "os \<Rightarrow> (nat \<Rightarrow> outside) \<Rightarrow> nat \<Rightarrow> nat \<Rightarrow> config \<Rightarrow> supervisor option" where
  "bounded_run os ous k 0 c = None"
| "bounded_run os ous k (Suc n) c =
    (if all_have_finished (su_repo (fst c)) then Some (fst c)
     else (case bus_round os (ous k) c of Inl _ \<Rightarrow> None | Inr c' \<Rightarrow> bounded_run os ous (Suc k) n c'))"

lemma bounded_run_horust_run:
  "bounded_run os ous k n c = Some st \<Longrightarrow> horust_run os p ous k c = Some (Inr (st, run_end p st))"
proof (induction n arbitrary: k c)
  case (Suc n)
  then show ?case
    by (cases "bus_round os (ous k) c") (auto simp: horust_run.simps [of os p ous k c] split: if_splits)
qed simp

text \<open>The closed loop is one of the loops of theory \<open>Supervisor\<close>: some inputs lead it the same way.\<close>

lemma run_inputs_cong:
  assumes "run os p f k st = Some r"
  shows "\<forall>g. (\<forall>i\<ge>k. f i = g i) \<longrightarrow> run os p g k st = Some r"
  using assms
proof (induction rule: run.raw_induct [rotated, consumes 1, case_names step])
  case (step run_ih os p f k st r)
  show ?case
  proof (intro allI impI)
    fix g assume g: "\<forall>i\<ge>k. f i = g i"
    then have "f k = g k" by simp
    show "run os p g k st = Some r"
    proof (cases "all_have_finished (su_repo st)")
      case True
      with step.hyps show ?thesis by (simp add: run.simps)
    next
      case False
      with step.hyps \<open>f k = g k\<close> step.IH g show ?thesis
        by (cases "run_round os (g k) st") (simp_all add: run.simps [of os p g k])
    qed
  qed
qed

lemma horust_run_is_run:
  assumes "horust_run os p ous k c = Some r"
  shows "\<exists>inputs. run os p inputs k (fst c) = Some r"
  using assms
proof (induction rule: horust_run.raw_induct [rotated, consumes 1, case_names step])
  case (step ih os p ous k c r)
  obtain st pending where c: "c = (st, pending)" by fastforce
  show ?case
  proof (cases "all_have_finished (su_repo st)")
    case True
    with step.hyps show ?thesis by (simp add: c run.simps)
  next
    case False
    show ?thesis
    proof (cases "bus_round os (ous k) c")
      case (Inl e)
      with step.hyps False show ?thesis
        by (auto simp: c bus_round_def run.simps [of os p _ k] split: sum.splits
          intro!: exI [of _ "\<lambda>_. round_input_of (ous k) pending"])
    next
      case (Inr c')
      then obtain sent acts where r: "run_round os (round_input_of (ous k) pending) st = Inr (fst c', sent, acts)"
        by (cases c') (auto simp: c bus_round_Inr)
      from step.hyps False Inr have "ih os p ous (Suc k) c' = Some r" by (simp add: c)
      from step.IH [OF this] obtain inputs where "run os p inputs (Suc k) (fst c') = Some r" ..
      from run_inputs_cong [OF this]
      have "run os p (inputs(k := round_input_of (ous k) pending)) (Suc k) (fst c') = Some r"
        by simp
      with False r have "run os p (inputs(k := round_input_of (ous k) pending)) k st = Some r"
        by (simp add: run.simps [of os p _ k])
      then show ?thesis by (auto simp: c)
    qed
  qed
qed

end
