(* ===== verification/Commands.thy ===== *)
theory Commands
  imports Formats Program_Path
begin

text \<open>
  The status queries over the Unix socket: the messages (\<open>commands/src/proto/messages.rs\<close>), server and
  client (\<open>server.rs\<close>, \<open>client.rs\<close>, \<open>lib.rs\<close>), the handler thread (\<open>commands_handler.rs\<close>) and the
  command line client (\<open>horustctl\<close>). Bytes on the socket are those of the \<open>prost\<close> encoder: \<open>encode\<close> and
  \<open>decode\<close> are arguments, and what is relied on is that decoding an encoded message returns it.
\<close>

section \<open>Messages\<close>

datatype msg_status =
  M_Starting | M_Started | M_Running | M_Inkilling | M_Success | M_Finished | M_Finishedfailed
| M_Failed | M_Initial

fun status_to_i32 :: "msg_status \<Rightarrow> i32" where
  "status_to_i32 M_Starting = 0"
| "status_to_i32 M_Started = 1"
| "status_to_i32 M_Running = 2"
| "status_to_i32 M_Inkilling = 3"
| "status_to_i32 M_Success = 4"
| "status_to_i32 M_Finished = 5"
| "status_to_i32 M_Finishedfailed = 6"
| "status_to_i32 M_Failed = 7"
| "status_to_i32 M_Initial = 8"

definition all_msg_status :: "msg_status list" where
  "all_msg_status = [M_Starting, M_Started, M_Running, M_Inkilling, M_Success, M_Finished,
     M_Finishedfailed, M_Failed, M_Initial]"

definition status_try_from :: "i32 \<Rightarrow> msg_status option" where
  "status_try_from value = find (\<lambda>s. status_to_i32 s = value) all_msg_status"

fun as_str_name :: "msg_status \<Rightarrow> string" where
  "as_str_name M_Starting = ''STARTING''"
| "as_str_name M_Started = ''STARTED''"
| "as_str_name M_Running = ''RUNNING''"
| "as_str_name M_Inkilling = ''INKILLING''"
| "as_str_name M_Success = ''SUCCESS''"
| "as_str_name M_Finished = ''FINISHED''"
| "as_str_name M_Finishedfailed = ''FINISHEDFAILED''"
| "as_str_name M_Failed = ''FAILED''"
| "as_str_name M_Initial = ''INITIAL''"

definition from_str_name :: "string \<Rightarrow> msg_status option" where
  "from_str_name value =
    (if value = ''STARTING'' then Some M_Starting
     else if value = ''STARTED'' then Some M_Started
     else if value = ''RUNNING'' then Some M_Running
     else if value = ''INKILLING'' then Some M_Inkilling
     else if value = ''SUCCESS'' then Some M_Success
     else if value = ''FINISHED'' then Some M_Finished
     else if value = ''FINISHEDFAILED'' then Some M_Finishedfailed
     else if value = ''FAILED'' then Some M_Failed
     else if value = ''INITIAL'' then Some M_Initial
     else None)"

fun from_service_status :: "service_status \<Rightarrow> msg_status" where
  "from_service_status Starting = M_Starting"
| "from_service_status Started = M_Started"
| "from_service_status Running = M_Running"
| "from_service_status InKilling = M_Inkilling"
| "from_service_status Success = M_Success"
| "from_service_status Finished = M_Finished"
| "from_service_status FinishedFailed = M_Finishedfailed"
| "from_service_status Failed = M_Failed"
| "from_service_status Initial = M_Initial"

datatype request = StatusRequest string | ChangeRequest string i32
datatype response = ErrorResponse string | StatusResponse string i32
datatype message_type = Request "request option" | Response "response option"
datatype message = Message "message_type option"

section \<open>Server\<close>

datatype command_error =
  DecodeError | NoRequest | SocketError string | ServerError string | ServiceNotFound service_name
| InvalidResponse

definition new_horust_msg_error_response :: "string \<Rightarrow> message" where
  "new_horust_msg_error_response error = Message (Some (Response (Some (ErrorResponse error))))"

definition new_horust_msg_service_status_response :: "service_name \<Rightarrow> msg_status \<Rightarrow> message" where
  "new_horust_msg_service_status_response n status =
    Message (Some (Response (Some (StatusResponse n (status_to_i32 status)))))"

definition not_found_text :: "service_name \<Rightarrow> string" where
  "not_found_text n = ''Error: service '' @ n @ '' not found.''"

record commands_handler =
  cm_services :: "(service_name, service_status) hmap"
  cm_socket_file :: bool     \<comment> \<open>the socket file is in place\<close>
  cm_done :: bool

definition commands_handler_new :: "service_name list \<Rightarrow> commands_handler" where
  "commands_handler_new services =
    \<lparr>cm_services = hm_collect (map (\<lambda>s. (s, Initial)) services), cm_socket_file = True, cm_done = False\<rparr>"

definition get_service_status :: "commands_handler \<Rightarrow> service_name \<Rightarrow> string + msg_status" where
  "get_service_status h n =
    ok_or (not_found_text n) (map_option from_service_status (hm_get (cm_services h) n))"

text \<open>
  The two ends of a connection: \<open>read_to_end\<close> and decoding, encoding and \<open>write_all\<close>; \<open>write\<close> is the socket.
\<close>

definition receive_message :: "('b \<Rightarrow> message option) \<Rightarrow> command_error + 'b \<Rightarrow> command_error + message" where
  "receive_message decode received = res_bind received (\<lambda>buf. ok_or DecodeError (decode buf))"

definition send_message :: "(message \<Rightarrow> 'b) \<Rightarrow> ('b \<Rightarrow> 'r) \<Rightarrow> message \<Rightarrow> 'r" where
  "send_message encode write message = write (encode message)"

lemma message_io [simp]:
  "receive_message decode (Inr buf) = (case decode buf of None \<Rightarrow> Inl DecodeError | Some m \<Rightarrow> Inr m)"
  "receive_message decode (Inl err) = Inl err"
  "send_message encode write m = write (encode m)"
  by (simp_all add: receive_message_def send_message_def ok_or_def split: option.split)

text \<open>What the server writes back: \<open>None\<close> is a connection it closes without an answer.\<close>

definition handle_connection ::
  "('b \<Rightarrow> message option) \<Rightarrow> (message \<Rightarrow> 'b) \<Rightarrow> commands_handler \<Rightarrow> 'b \<Rightarrow> command_error + 'b option"
where
  "handle_connection decode encode h bytes =
    (case receive_message decode (Inr bytes) of
      Inl err \<Rightarrow> Inl err
    | Inr (Message None) \<Rightarrow> Inl NoRequest
    | Inr (Message (Some (Request (Some (StatusRequest n))))) \<Rightarrow>
        Inr (send_message encode Some
          (case get_service_status h n of
            Inr status \<Rightarrow> new_horust_msg_service_status_response n status
          | Inl err \<Rightarrow> new_horust_msg_error_response (''Error from status handler: '' @ err)))
    | Inr (Message (Some (Request (Some (ChangeRequest n status))))) \<Rightarrow>
        Inr (send_message encode Some (new_horust_msg_error_response ''Unimplemented!''))
    | Inr (Message (Some _)) \<Rightarrow> Inr None)"

section \<open>Handler thread\<close>

text \<open>
  The thread binds its socket first: \<open>bind\<close> and \<open>set_nonblocking\<close> are unwrapped. The arguments say
  whether they succeed for the path.
\<close>

definition commands_bind ::
  "(string \<Rightarrow> bool) \<Rightarrow> bool \<Rightarrow> string \<Rightarrow> service_name list \<Rightarrow> commands_handler res" where
  "commands_bind bind set_nonblocking uds_path services =
    (if \<not> bind uds_path then Inl UnwrapNone
     else if \<not> set_nonblocking then Inl UnwrapNone
     else Inr (commands_handler_new services))"

text \<open>
  The events of a round: \<open>unwrap\<close> panics on an unknown service; a shutdown removes the socket file and
  returns, dropping the events behind it.
\<close>

fun commands_events :: "commands_handler \<Rightarrow> event list \<Rightarrow> commands_handler res" where
  "commands_events h [] = Inr h"
| "commands_events h (StatusChanged n status # evs) =
    (case hm_get (cm_services h) n of
      None \<Rightarrow> Inl UnwrapNone
    | Some _ \<Rightarrow> commands_events (h\<lparr>cm_services := hm_insert n status (cm_services h)\<rparr>) evs)"
| "commands_events h (ShuttingDownInitiated sd # evs) =
    (if cm_socket_file h then Inr (h\<lparr>cm_socket_file := False, cm_done := True\<rparr>) else Inl UnwrapNone)"
| "commands_events h (_ # evs) = commands_events h evs"

text \<open>The other operation of the handler is a \<open>todo!\<close>, which panics; no request reaches it.\<close>

definition update_service_status :: "commands_handler \<Rightarrow> service_name \<Rightarrow> msg_status \<Rightarrow> unit res" where
  "update_service_status h service_name new_status = Inl Unimplemented"

section \<open>Client\<close>

definition new_request :: "request \<Rightarrow> message" where
  "new_request r = Message (Some (Request (Some r)))"

definition unwrap_response :: "message \<Rightarrow> (command_error + response) option" where
  "unwrap_response m =
    (case m of
      Message (Some (Response (Some v))) \<Rightarrow>
        Some (case v of ErrorResponse error \<Rightarrow> Inl (ServerError (''Error: '' @ error)) | StatusResponse _ _ \<Rightarrow> Inr v)
    | _ \<Rightarrow> None)"

text \<open>
  A query: \<open>exchange\<close> is what the socket returns for the bytes written. The outer result is a panic of
  the two \<open>unwrap\<close>s.
\<close>

definition send_status_request ::
  "('b \<Rightarrow> message option) \<Rightarrow> (message \<Rightarrow> 'b) \<Rightarrow> ('b \<Rightarrow> command_error + 'b) \<Rightarrow> service_name
    \<Rightarrow> (command_error + (service_name \<times> msg_status)) res" where
  "send_status_request decode encode exchange n =
    (case receive_message decode (send_message encode exchange (new_request (StatusRequest n))) of
      Inl err \<Rightarrow> Inr (Inl err)
    | Inr received \<Rightarrow>
        (case unwrap_response received of
          None \<Rightarrow> Inl UnwrapNone
        | Some (Inl err) \<Rightarrow> Inr (Inl err)
        | Some (Inr (StatusResponse n' status)) \<Rightarrow>
            (case status_try_from status of None \<Rightarrow> Inl UnwrapNone | Some s \<Rightarrow> Inr (Inr (n', s)))
        | Some (Inr (ErrorResponse _)) \<Rightarrow> Inr (Inl InvalidResponse)))"

definition client ::
  "('b \<Rightarrow> message option) \<Rightarrow> (message \<Rightarrow> 'b) \<Rightarrow> ('b \<Rightarrow> command_error + 'b) \<Rightarrow> service_name
    \<Rightarrow> (command_error + unit) res" where
  "client decode encode exchange n =
    res_map (res_map (\<lambda>_. ())) (send_status_request decode encode exchange n)"

section \<open>The socket to talk to\<close>

definition get_path :: "string \<Rightarrow> int \<Rightarrow> string" where
  "get_path socket_folder_path horust_pid =
    path_join socket_folder_path (''horust-'' @ show_int horust_pid @ ''.sock'')"

text \<open>A directory entry: its name and whether it is a socket, \<open>None\<close> when its type cannot be read.\<close>

definition is_horust_socket :: "string \<times> bool option \<Rightarrow> bool" where
  "is_horust_socket entry \<longleftrightarrow>
    (case entry of (name, is_socket) \<Rightarrow>
      is_socket = Some True \<and> starts_with name ''horust-'' \<and> ends_with name ''.sock'')"

datatype uds_error = NoSuchFolder | NotADirectory | ReadDirFailed | NoSocketFound | MoreThanOneSocket

record socket_folder =
  sf_exists :: bool
  sf_is_dir :: bool
  sf_entries :: "(string \<times> bool option) list option"   \<comment> \<open>\<open>None\<close>: \<open>read_dir\<close> fails\<close>

definition get_uds_path :: "int option \<Rightarrow> string \<Rightarrow> socket_folder \<Rightarrow> uds_error + string" where
  "get_uds_path pid folder_path folder =
    (if \<not> sf_exists folder then Inl NoSuchFolder
     else if \<not> sf_is_dir folder then Inl NotADirectory
     else (case pid of
         Some p \<Rightarrow> Inr (get_path folder_path p)
       | None \<Rightarrow>
           (case sf_entries folder of
             None \<Rightarrow> Inl ReadDirFailed
           | Some entries \<Rightarrow>
               (case map fst (filter is_horust_socket entries) of
                 [] \<Rightarrow> Inl NoSocketFound
               | [ret] \<Rightarrow> Inr (path_join folder_path ret)
               | _ \<Rightarrow> Inl MoreThanOneSocket))))"

section \<open>Lemmas\<close>

lemma status_try_from_to [simp]: "status_try_from (status_to_i32 s) = Some s"
  by (cases s) (simp_all add: status_try_from_def all_msg_status_def)

lemma from_str_name_as [simp]: "from_str_name (as_str_name s) = Some s"
  by (cases s) (simp_all add: from_str_name_def)

lemma from_service_status_inj [simp]: "from_service_status s = from_service_status t \<longleftrightarrow> s = t"
  by (cases s; cases t) simp_all

text \<open>The last status announced for a service.\<close>

fun last_announced :: "service_name \<Rightarrow> event list \<Rightarrow> service_status option" where
  "last_announced n [] = None"
| "last_announced n (ev # evs) =
    (case last_announced n evs of
      Some s \<Rightarrow> Some s
    | None \<Rightarrow> (case ev of StatusChanged m s \<Rightarrow> if m = n then Some s else None | _ \<Rightarrow> None))"

lemma commands_events_other:
  "\<forall>n s. ev \<noteq> StatusChanged n s \<Longrightarrow> \<forall>sd. ev \<noteq> ShuttingDownInitiated sd \<Longrightarrow>
    commands_events h (ev # evs) = commands_events h evs
    \<and> last_announced n (ev # evs) = last_announced n evs"
  by (cases ev) (auto split: option.split)

lemma commands_events_ok:
  assumes "\<forall>sd. ShuttingDownInitiated sd \<notin> set evs"
    and "\<forall>n s. StatusChanged n s \<in> set evs \<longrightarrow> hm_get (cm_services h) n \<noteq> None"
  shows "\<exists>h'. commands_events h evs = Inr h' \<and> cm_done h' = cm_done h
    \<and> (\<forall>n. hm_get (cm_services h') n =
          (case last_announced n evs of Some s \<Rightarrow> Some s | None \<Rightarrow> hm_get (cm_services h) n))"
  using assms
proof (induction evs arbitrary: h)
  case Nil
  then show ?case by simp
next
  case (Cons ev evs)
  show ?case
  proof (cases "\<exists>m s. ev = StatusChanged m s")
    case True
    then obtain m s where ev: "ev = StatusChanged m s" by blast
    with Cons.prems(2) obtain old where old: "hm_get (cm_services h) m = Some old" by auto
    let ?h = "h\<lparr>cm_services := hm_insert m s (cm_services h)\<rparr>"
    have "\<forall>n s. StatusChanged n s \<in> set evs \<longrightarrow> hm_get (cm_services ?h) n \<noteq> None"
      using Cons.prems(2) by (auto simp: ev)
    with Cons.IH [of ?h] Cons.prems(1) obtain h' where h': "commands_events ?h evs = Inr h'"
      "cm_done h' = cm_done h"
      "\<And>n. hm_get (cm_services h') n = (case last_announced n evs of
          Some s \<Rightarrow> Some s | None \<Rightarrow> hm_get (cm_services ?h) n)" by fastforce
    have "hm_get (cm_services h') n = (case last_announced n (ev # evs) of
        Some s \<Rightarrow> Some s | None \<Rightarrow> hm_get (cm_services h) n)" for n
      unfolding h'(3) by (cases "last_announced n evs") (simp_all add: ev)
    with h' old show ?thesis by (simp add: ev)
  next
    case False
    with Cons.prems have "commands_events h (ev # evs) = commands_events h evs"
      "last_announced n (ev # evs) = last_announced n evs" for n
      using commands_events_other [of ev h evs n] by auto
    moreover have "\<forall>n s. StatusChanged n s \<in> set evs \<longrightarrow> hm_get (cm_services h) n \<noteq> None"
      "\<forall>sd. ShuttingDownInitiated sd \<notin> set evs"
      using Cons.prems by auto
    ultimately show ?thesis
      using Cons.IH [of h] by (simp only:) blast
  qed
qed

lemma commands_events_panic:
  assumes "\<forall>sd. ShuttingDownInitiated sd \<notin> set evs"
    and "StatusChanged n s \<in> set evs" and "hm_get (cm_services h) n = None"
  shows "commands_events h evs = Inl UnwrapNone"
  using assms
proof (induction evs arbitrary: h)
  case Nil
  then show ?case by simp
next
  case (Cons ev evs)
  show ?case
  proof (cases "\<exists>m s. ev = StatusChanged m s")
    case True
    then obtain m t where ev: "ev = StatusChanged m t" by blast
    show ?thesis
    proof (cases "hm_get (cm_services h) m")
      case None
      with ev show ?thesis by simp
    next
      case (Some old)
      with Cons.prems ev have "StatusChanged n s \<in> set evs" "n \<noteq> m" by auto
      with Cons.IH [of "h\<lparr>cm_services := hm_insert m t (cm_services h)\<rparr>"] Cons.prems Some ev
      show ?thesis by simp
    qed
  next
    case False
    moreover have "\<forall>sd. ev \<noteq> ShuttingDownInitiated sd" using Cons.prems(1) by auto
    ultimately show ?thesis
      using commands_events_other [of ev h evs n] Cons.IH [of h] Cons.prems False by auto
  qed
qed

lemma horust_socket_name: "is_horust_socket (''horust-'' @ show_int p @ ''.sock'', Some True)"
  by (simp add: is_horust_socket_def starts_with_def ends_with_def)

section \<open>Properties\<close>

text \<open>
  The status codes: each status survives the number on the wire and the printed name, no two
  statuses of a service share one, and exactly the numbers 0 to 8 are a status.
\<close>

lemma status_codes:
  "status_try_from (status_to_i32 m) = Some m \<and> from_str_name (as_str_name m) = Some m
    \<and> (from_service_status s = from_service_status t \<longleftrightarrow> s = t)
    \<and> (status_try_from v \<noteq> None \<longleftrightarrow> unat v \<le> 8)"
proof -
  have "status_try_from v \<noteq> None \<longleftrightarrow> v \<in> {0, 1, 2, 3, 4, 5, 6, 7, 8}"
    by (auto simp: status_try_from_def all_msg_status_def)
  also have "\<dots> \<longleftrightarrow> unat v \<in> {0, 1, 2, 3, 4, 5, 6, 7, 8}"
    by (simp add: word_unat_eq_iff)
  also have "\<dots> \<longleftrightarrow> unat v \<le> 8" by auto
  finally show ?thesis by simp
qed

text \<open>
  A status query over the socket returns the status the handler holds for the service, under the
  same name, and an error naming the service when it holds none; neither side panics. The encoder is
  only assumed to be undone by the decoder.
\<close>

lemma status_query:
  assumes "\<And>m. decode (encode m) = Some m"
  shows "send_status_request decode encode
      (\<lambda>bytes. case handle_connection decode encode h bytes of
        Inr (Some answer) \<Rightarrow> Inr answer | _ \<Rightarrow> Inl (SocketError ''closed'')) n
    = Inr (case hm_get (cm_services h) n of
        Some s \<Rightarrow> Inr (n, from_service_status s)
      | None \<Rightarrow> Inl (ServerError
          (''Error: Error from status handler: Error: service '' @ n @ '' not found.'')))"
  using assms
  by (simp add: send_status_request_def handle_connection_def new_request_def get_service_status_def
      unwrap_response_def new_horust_msg_service_status_response_def new_horust_msg_error_response_def
      not_found_text_def ok_or_def split: option.split)

text \<open>
  The handler's table follows the announcements: after a batch without a shutdown, each service has
  the last status announced for it in the batch, or the one it had. An announcement for a service the
  table does not hold panics the thread.
\<close>

lemma commands_follow_announcements:
  assumes "\<forall>sd. ShuttingDownInitiated sd \<notin> set evs"
  shows "if \<exists>n s. StatusChanged n s \<in> set evs \<and> hm_get (cm_services h) n = None
    then commands_events h evs = Inl UnwrapNone
    else \<exists>h'. commands_events h evs = Inr h' \<and> cm_done h' = cm_done h
      \<and> (\<forall>n. hm_get (cm_services h') n =
            (case last_announced n evs of Some s \<Rightarrow> Some s | None \<Rightarrow> hm_get (cm_services h) n))"
proof (cases "\<exists>n s. StatusChanged n s \<in> set evs \<and> hm_get (cm_services h) n = None")
  case True
  with commands_events_panic [OF assms] show ?thesis by auto
next
  case False
  then have "\<forall>n s. StatusChanged n s \<in> set evs \<longrightarrow> hm_get (cm_services h) n \<noteq> None" by auto
  from commands_events_ok [OF assms this] show ?thesis unfolding if_not_P [OF False] .
qed

text \<open>
  Without \<open>--pid\<close> the client finds the socket a server made: when the only Horust socket in the folder
  is the one of process \<open>p\<close>, the path is the one \<open>--pid p\<close> gives; with none or several there is no path.
\<close>

lemma socket_found:
  assumes "sf_exists folder" and "sf_is_dir folder" and "sf_entries folder = Some entries"
  shows "(filter is_horust_socket entries = [(''horust-'' @ show_int p @ ''.sock'', Some True)]
      \<longrightarrow> get_uds_path None path folder = get_uds_path (Some p) path folder)
    \<and> ((\<exists>socket. get_uds_path None path folder = Inr socket)
        \<longleftrightarrow> length (filter is_horust_socket entries) = 1)
    \<and> is_horust_socket (''horust-'' @ show_int p @ ''.sock'', Some True)"
  using assms horust_socket_name [of p]
  by (auto simp: get_uds_path_def get_path_def length_Suc_conv split: list.split)

end
