(* ===== verification/Examples.thy ===== *)
theory Examples
  imports Supervisor_Run
begin

text \<open>
  Concrete services, handlers and supervisors, on which the witnesses of the properties evaluate.
\<close>

definition ex_service :: "service_name \<Rightarrow> service" where
  "ex_service n = (from_command ''/'' 0 ''true'')\<lparr>sv_name := n\<rparr>"

definition ex_after :: "service_name \<Rightarrow> service_name list \<Rightarrow> service" where
  "ex_after n deps = (ex_service n)\<lparr>sv_start_after := deps\<rparr>"

definition ex_shutdown_after :: "service_name \<Rightarrow> service_name list \<Rightarrow> service" where
  "ex_shutdown_after n deps = (ex_service n)\<lparr>sv_shutdown_after := deps\<rparr>"

definition ex_die_if_failed :: "service_name \<Rightarrow> service_name list \<Rightarrow> service" where
  "ex_die_if_failed n deps =
    (ex_service n)\<lparr>sv_termination := default_termination\<lparr>tm_die_if_failed := deps\<rparr>\<rparr>"

definition ex_handler :: "service \<Rightarrow> service_status \<Rightarrow> pid option \<Rightarrow> service_handler" where
  "ex_handler s status p = (handler_of s)\<lparr>sh_status := status, sh_pid := p\<rparr>"

definition ex_world :: world where
  "ex_world = \<lparr>wd_exists = (\<lambda>_. False), wd_parsed_commands = hm_empty\<rparr>"

definition ex_os :: os where
  "ex_os = \<lparr>os_shlex_split = (\<lambda>s. Some [s]), os_path_var = None, os_is_file = (\<lambda>_. False),
     os_remove_file = (\<lambda>_. True), os_http_feature = True, os_http_head = (\<lambda>_. True),
     os_run_command = (\<lambda>_. Some True)\<rparr>"

definition ex_sup :: "lifecycle_status \<Rightarrow> service_handler list \<Rightarrow> supervisor" where
  "ex_sup lc handlers =
    \<lparr>su_status = lc,
     su_repo = \<lparr>rp_services = map (\<lambda>sh. (sh_name sh, sh)) handlers,
                rp_pid_map = List.map_filter (\<lambda>sh. map_option (\<lambda>p. (p, sh_name sh)) (sh_pid sh)) handlers\<rparr>,
     su_sigterm = False, su_world = ex_world\<rparr>"

definition ex_input :: "(instant \<times> event) list \<Rightarrow> round_input" where
  "ex_input received =
    \<lparr>ri_received = received, ri_signal = False, ri_clock = (\<lambda>_. 0), ri_waitpid = (\<lambda>_. OtherStatus)\<rparr>"

lemmas ex_defs =
  ex_service_def ex_after_def ex_shutdown_after_def ex_handler_def ex_world_def ex_os_def ex_sup_def
  ex_input_def from_command_def default_service_def default_restart_def default_failure_def
  default_healthiness_def default_termination_def default_successful_exit_code_def handler_of_def
  default_attempts_def default_environment_def default_resource_limit_def default_wait_def

lemma svc_ex_sup: "svc (su_repo (ex_sup lc hs)) n = map_of (map (\<lambda>sh. (sh_name sh, sh)) hs) n"
  by (simp add: svc_def ex_sup_def hm_get_def)

lemma sup_wf_ex_sup:
  "sup_wf (ex_sup lc hs) \<longleftrightarrow> distinct (map sh_name hs)
    \<and> distinct (map fst (List.map_filter (\<lambda>sh. map_option (\<lambda>p. (p, sh_name sh)) (sh_pid sh)) hs))
    \<and> deps_known (su_repo (ex_sup lc hs))"
proof -
  have "\<forall>n sh. svc (su_repo (ex_sup lc hs)) n = Some sh \<longrightarrow> sh_name sh = n"
    unfolding svc_ex_sup by (auto dest: map_of_SomeD)
  moreover have "hm_wf (rp_services (su_repo (ex_sup lc hs))) \<longleftrightarrow> distinct (map sh_name hs)"
    by (simp add: ex_sup_def hm_wf_def comp_def)
  moreover have "hm_wf (rp_pid_map (su_repo (ex_sup lc hs))) \<longleftrightarrow>
      distinct (map fst (List.map_filter (\<lambda>sh. map_option (\<lambda>p. (p, sh_name sh)) (sh_pid sh)) hs))"
    by (simp add: ex_sup_def hm_wf_def)
  ultimately show ?thesis
    unfolding sup_wf_def repo_wf_def by blast
qed


lemma deps_known_ex_sup:
  assumes "\<forall>sh \<in> set hs. set (sh_start_after sh) \<union> set (sh_shutdown_after sh) \<subseteq> set (map sh_name hs)"
  shows "deps_known (su_repo (ex_sup lc hs))"
proof -
  have known: "svc (su_repo (ex_sup lc hs)) d \<noteq> None" if "d \<in> set (map sh_name hs)" for d
    using that by (auto simp: svc_ex_sup map_of_eq_None_iff image_image)
  have "sh \<in> set hs" if "svc (su_repo (ex_sup lc hs)) n = Some sh" for n sh
    using that by (auto simp: svc_ex_sup dest: map_of_SomeD)
  with assms known show ?thesis
    unfolding deps_known_def by blast
qed

text \<open>The fields the witnesses read, and the supervisor of one service.\<close>

lemma ex_handler_simps [simp]:
  "sh_status (ex_handler s t p) = t" "sh_pid (ex_handler s t p) = p" "sh_service (ex_handler s t p) = s"
  "sh_restart_attempts (ex_handler s t p) = 0" "sh_shutting_down_start (ex_handler s t p) = None"
  "sh_healthiness_checks_failed (ex_handler s t p) = None" "sh_name (ex_handler s t p) = sv_name s"
  "(ex_handler s t p)\<lparr>sh_status := t'\<rparr> = ex_handler s t' p"
  "(ex_handler s t p)\<lparr>sh_pid := p'\<rparr> = ex_handler s t p'"
  by (simp_all add: ex_handler_def handler_of_def sh_name_def)

lemma ex_service_simps [simp]:
  "sv_name (ex_service n) = n" "sv_healthiness (ex_service n) = default_healthiness"
  "sv_restart (ex_service n) = default_restart" "sv_termination (ex_service n) = default_termination"
  "sv_failure (ex_service n) = default_failure" "sv_start_after (ex_service n) = []"
  "sv_shutdown_after (ex_service n) = []"
  by (simp_all add: ex_service_def from_command_def default_service_def)

lemma default_simps [simp]:
  "rs_backoff default_restart = 0" "rs_attempts default_restart = 0" "rs_strategy default_restart = Never"
  "tm_signal default_termination = TS_TERM" "tm_die_if_failed default_termination = []"
  "fl_strategy default_failure = Ignore" "fl_successful_exit_code default_failure = [0]"
  by (simp_all add: default_restart_def default_termination_def default_failure_def from_secs_def
      default_successful_exit_code_def default_attempts_def)

lemma prepare_service_default [simp]: "prepare_service os default_healthiness w = (True, w)"
  by (simp add: prepare_service_split file_check_prepare_def command_check_prepare_def
      default_healthiness_def)

lemma ex_sup_fields [simp]:
  "su_world (ex_sup lc hs) = ex_world" "su_status (ex_sup lc hs) = lc" "su_sigterm (ex_sup lc hs) = False"
  "(ex_sup lc hs)\<lparr>su_world := ex_world\<rparr> = ex_sup lc hs"
  by (simp_all add: ex_sup_def)

lemma ex_a_wf [simp]: "repo_wf (su_repo (ex_sup lc [ex_handler (ex_service ''a'') s p]))"
  using sup_wf_ex_sup [of lc "[ex_handler (ex_service ''a'') s p]"]
    deps_known_ex_sup [of "[ex_handler (ex_service ''a'') s p]" lc]
  by (cases p) (simp_all add: sup_wf_def List.map_filter_def sh_start_after_def sh_shutdown_after_def)

lemma ex_a_svc [simp]:
  "svc (su_repo (ex_sup lc [ex_handler (ex_service ''a'') s p])) n
    = (if n = ''a'' then Some (ex_handler (ex_service ''a'') s p) else None)"
  by (simp add: svc_ex_sup)

lemma ex_hm_entries: "hm_entries (rp_services (su_repo (ex_sup lc hs))) = map (\<lambda>sh. (sh_name sh, sh)) hs"
  by (simp add: ex_sup_def hm_entries_def)

lemma ex_reaper [simp]: "reaper_run (\<lambda>_. OtherStatus) repo k = []"
proof -
  have "e \<notin> set (reaper_run (\<lambda>_. OtherStatus) repo k)" for e by (simp add: reaper_run_mem)
  then show ?thesis by (metis list.set_intros(1) neq_Nil_conv)
qed

lemma ex_input_simps [simp]:
  "ri_received (ex_input r) = r" "ri_waitpid (ex_input r) = (\<lambda>_. OtherStatus)"
  "round_start (ex_input r) st = st" "ri_signal (ex_input r) = False" "ri_clock (ex_input r) = (\<lambda>_. 0)"
  by (simp_all add: ex_input_def round_start_def)

lemma ex_handle_all_Nil [simp]: "handle_all os st [] = Inr (st, [], [])"
  by (simp add: handle_all_def)

lemma ex_handle_all_one:
  "handle_all os st [(t, ev)] = handle_event os t st ev"
  by (cases "handle_event os t st ev") (auto simp: handle_all_def timed_step_def)

lemma ex_a_sup_wf: "sup_wf (ex_sup lc [ex_handler (ex_service ''a'') s p])"
  unfolding sup_wf_def
  by (simp add: deps_known_ex_sup sh_start_after_def sh_shutdown_after_def)

text \<open>Two services that may depend on each other.\<close>

lemma ex_dep_service_simps [simp]:
  "sv_name (ex_after n ds) = n" "sv_start_after (ex_after n ds) = ds" "sv_shutdown_after (ex_after n ds) = []"
  "sv_name (ex_shutdown_after n ds) = n" "sv_start_after (ex_shutdown_after n ds) = []"
  "sv_shutdown_after (ex_shutdown_after n ds) = ds"
  "sv_name (ex_die_if_failed n ds) = n" "sv_start_after (ex_die_if_failed n ds) = []"
  "sv_shutdown_after (ex_die_if_failed n ds) = []"
  "sv_healthiness (ex_die_if_failed n ds) = default_healthiness"
  "sv_termination (ex_die_if_failed n ds) = default_termination\<lparr>tm_die_if_failed := ds\<rparr>"
  by (simp_all add: ex_after_def ex_shutdown_after_def ex_die_if_failed_def)

lemma ex_two_sup_wf:
  assumes "sv_name x = ''a''" and "sv_name y = ''b''" and "p = None \<or> q = None \<or> p \<noteq> q"
    and "set (sv_start_after x) \<union> set (sv_start_after y) \<union> set (sv_shutdown_after x) \<union> set (sv_shutdown_after y)
      \<subseteq> {''a'', ''b''}"
  shows "sup_wf (ex_sup lc [ex_handler x s p, ex_handler y t q])"
proof -
  have "deps_known (su_repo (ex_sup lc [ex_handler x s p, ex_handler y t q]))"
    by (intro deps_known_ex_sup) (use assms in \<open>simp add: sh_start_after_def sh_shutdown_after_def\<close>)
  with assms(1-3) show ?thesis
    unfolding sup_wf_ex_sup by (cases p; cases q) (simp_all add: List.map_filter_def)
qed

lemma ex_two_wf:
  assumes "sv_name x = ''a''" and "sv_name y = ''b''" and "p = None \<or> q = None \<or> p \<noteq> q"
    and "set (sv_start_after x) \<union> set (sv_start_after y) \<union> set (sv_shutdown_after x) \<union> set (sv_shutdown_after y)
      \<subseteq> {''a'', ''b''}"
  shows "repo_wf (su_repo (ex_sup lc [ex_handler x s p, ex_handler y t q]))"
  using ex_two_sup_wf [OF assms] by (simp add: sup_wf_def)

end
