(* ===== verification/Service_Props.thy ===== *)
theory Service_Props
  imports Examples
begin

text \<open>
  The properties of one service: its state machine, its restart budget, its health-check counter and
  the decision to send SIGKILL.
\<close>

section \<open>The state machine\<close>

text \<open>
  C1. Refinement: a requested status change either is an edge of the abstract machine \<open>accepts\<close>, and
  then the handler reaches that edge's target (resetting the restart counter on \<open>Started\<close> only) and
  changes nothing else, or there is no such edge and the handler is returned unchanged.
\<close>

theorem change_status_refines:
  "(\<exists>t. accepts (sh_status sh) r t
      \<and> change_status sh r
        = (sh\<lparr>sh_status := t, sh_restart_attempts := (if r = Started then 0 else sh_restart_attempts sh)\<rparr>, t))
    \<or> ((\<nexists>t. accepts (sh_status sh) r t) \<and> change_status sh r = (sh, sh_status sh))"
  by (cases "transition_valid (sh_status sh) r")
    (simp_all add: change_status_def handle_status_change_eq accepts_iff)

text \<open>
  The two reports whose handlers overwrite the status of a service without consulting the table.
\<close>

definition respawns :: "service_name \<Rightarrow> event \<Rightarrow> bool" where
  "respawns n ev \<longleftrightarrow> (\<exists>p. ev = PidChanged n p) \<or> ev = SpawnFailed n"

lemma terminal_step:
  assumes "handle_event os now st ev = Inr (st', out, acts)" and "\<not> respawns n ev"
    and "map_option sh_status (svc (su_repo st) n) = Some t" and "t = Finished \<or> t = FinishedFailed"
  shows "map_option sh_status (svc (su_repo st') n) = Some t"
proof -
  from assms(3) obtain sh where sh: "svc (su_repo st) n = Some sh" "sh_status sh = t" by auto
  with handle_event_svc [OF assms(1)] obtain sh' where "svc (su_repo st') n = Some sh'"
    "sh_status sh' = t \<or> moves ev n t (sh_status sh')" by fastforce
  with assms(2,4) show ?thesis
    by (auto simp: respawns_def elim: moves_from_finished moves_from_finished_failed)
qed

text \<open>
  C27. Over any list of handled events, a service that has reached \<open>Finished\<close> or \<open>FinishedFailed\<close> keeps
  that status, unless an event reports a new process or a failed spawn for it: those two handlers
  overwrite the status without consulting the transition table.
\<close>

theorem terminal_status_stays:
  assumes "handle_all os st evs = Inr (st', out, acts)"
    and "\<forall>e \<in> set evs. \<not> respawns n (snd e)"
    and "map_option sh_status (svc (su_repo st) n) = Some t" and "t = Finished \<or> t = FinishedFailed"
  shows "map_option sh_status (svc (su_repo st') n) = Some t"
  using assms(1-3)
proof (induction evs arbitrary: st out acts)
  case Nil
  then show ?case by (simp add: handle_all_def)
next
  case (Cons e evs)
  from Cons.prems(1) obtain st1 out1 acts1 out2 acts2
    where s: "handle_event os (fst e) st (snd e) = Inr (st1, out1, acts1)"
      and r: "handle_all os st1 evs = Inr (st', out2, acts2)"
    by (auto simp: handle_all_def timed_step_def)
  have "map_option sh_status (svc (su_repo st1) n) = Some t"
    using terminal_step [OF s _ Cons.prems(3) assms(4)] Cons.prems(2) by simp
  with Cons.IH [OF r] Cons.prems(2) show ?case by simp
qed

theorem terminal_status_stays_witness:
  "map_option sh_status (svc (su_repo
      (ex_sup LRunning [ex_handler (ex_service ''a'') Finished None])) ''a'') = Some Finished"
proof -
  let ?st = "ex_sup LRunning [ex_handler (ex_service ''a'') Finished None]"
  have "handle_all ex_os ?st [(0, StatusUpdate ''a'' Initial)] = Inr (?st, [], [])"
    by (simp add: handle_all_def timed_step_def on_status_update_def get_sh_svc svc_ex_sup ex_handler_def
        ex_service_def sh_name_def handler_of_def change_status_def handle_status_change_def
        transition_valid_def allowed_transitions_def)
  from terminal_status_stays [OF this, of "''a''" Finished] show ?thesis
    by (simp add: svc_ex_sup ex_handler_def ex_service_def sh_name_def handler_of_def respawns_def)
qed

section \<open>Restarting\<close>

text \<open>
  The status requested after an exit: with strategy \<open>Always\<close> a restart; with \<open>OnFailure\<close> a
  restart after a failure, however many attempts were made; with \<open>Never\<close> a failed service is
  restarted exactly while the attempts are not over.
\<close>

lemma restart_decision:
  "handle_restart_strategy sh failed = StatusUpdate (sh_name sh)
    (if rs_strategy (sv_restart (sh_service sh)) = Always then Initial
     else if \<not> failed then Finished
     else if rs_strategy (sv_restart (sh_service sh)) = OnFailure then Initial
     else if 0 < unat (rs_attempts (sv_restart (sh_service sh)))
          \<and> unat (sh_restart_attempts sh) \<le> unat (rs_attempts (sv_restart (sh_service sh)))
          then Initial else FinishedFailed)"
proof -
  have "restart_attempts_are_over sh \<longleftrightarrow>
      \<not> (0 < unat (rs_attempts (sv_restart (sh_service sh)))
         \<and> unat (sh_restart_attempts sh) \<le> unat (rs_attempts (sv_restart (sh_service sh))))"
    by (auto simp: restart_attempts_are_over_def unat_gt_0 word_less_nat_alt)
  then show ?thesis
    by (auto simp: handle_restart_strategy_def split: restart_strategy.split)
qed

text \<open>
  A service that exits before it is \<open>Running\<close>, with a failed or missing health report, loses an
  attempt; \<open>early_failure\<close> is one such exit followed by the return to \<open>Starting\<close>.
\<close>

definition early_failure :: "service_handler \<Rightarrow> service_handler" where
  "early_failure sh = (exit_bookkeeping (sh\<lparr>sh_status := Starting\<rparr>))\<lparr>sh_status := Failed\<rparr>"

lemma early_failure_simps [simp]:
  "sh_service (early_failure sh) = sh_service sh" "sh_name (early_failure sh) = sh_name sh"
  "sh_healthiness_checks_failed (early_failure sh) = sh_healthiness_checks_failed sh"
  "sh_restart_attempts (early_failure sh)
    = sh_restart_attempts sh + u32_from_bool (has_some_failed_healthchecks sh)"
  by (simp_all add: early_failure_def sh_name_def exit_bookkeeping_def has_some_failed_healthchecks_def
      Let_def)

lemma early_failures_count:
  assumes "has_some_failed_healthchecks sh" and "sh_restart_attempts sh = 0"
  shows "sh_restart_attempts ((early_failure ^^ k) sh) = of_nat k
    \<and> sh_service ((early_failure ^^ k) sh) = sh_service sh
    \<and> sh_healthiness_checks_failed ((early_failure ^^ k) sh) = sh_healthiness_checks_failed sh"
proof (induction k)
  case 0
  then show ?case by (simp add: assms)
next
  case (Suc k)
  moreover have "has_some_failed_healthchecks ((early_failure ^^ k) sh)"
    using Suc assms(1) by (simp add: has_some_failed_healthchecks_def)
  ultimately show ?case by (simp add: u32_from_bool_def add.commute)
qed



section \<open>Health reports\<close>

definition unhealthy_count :: "healthiness_status list \<Rightarrow> nat" where
  "unhealthy_count checks = length (filter (\<lambda>c. c = Unhealthy) checks)"

abbreviation reported :: "service_handler \<Rightarrow> healthiness_status list \<Rightarrow> service_handler" where
  "reported sh checks \<equiv> foldl add_healthcheck_event sh checks"

definition failed_count :: "service_handler \<Rightarrow> int" where
  "failed_count sh = (case sh_healthiness_checks_failed sh of None \<Rightarrow> 0 | Some c \<Rightarrow> sint c)"

lemma reported_frame [simp]:
  "sh_status (reported sh checks) = sh_status sh" "sh_service (reported sh checks) = sh_service sh"
  "sh_name (reported sh checks) = sh_name sh"
  by (induction checks arbitrary: sh) (simp_all add: frame_simps sh_name_def)

lemma add_healthcheck_failed_count:
  assumes "is_alive_state sh" and "failed_count sh < 2 ^ 31 - 1"
  shows "failed_count (add_healthcheck_event sh c) = failed_count sh + (if c = Unhealthy then 1 else 0)"
proof (cases c)
  case Healthy
  then show ?thesis
    by (simp add: add_healthcheck_event_def failed_count_def i32_from_bool_def split: option.split)
next
  case Unhealthy
  with assms show ?thesis
    by (auto simp: add_healthcheck_event_def failed_count_def i32_from_bool_def sint_incr split: option.splits)
qed

lemma reported_count:
  assumes "is_alive_state sh" and "failed_count sh + int (length checks) < 2 ^ 31"
  shows "failed_count (reported sh checks) = failed_count sh + int (unhealthy_count checks)"
  using assms
proof (induction checks arbitrary: sh)
  case Nil
  then show ?case by (simp add: unhealthy_count_def)
next
  case (Cons c cs)
  have "failed_count (add_healthcheck_event sh c) = failed_count sh + (if c = Unhealthy then 1 else 0)"
    using Cons.prems by (intro add_healthcheck_failed_count) auto
  with Cons.IH [of "add_healthcheck_event sh c"] Cons.prems show ?case
    by (auto simp: unhealthy_count_def frame_simps split: if_splits)
qed

lemma reported_some: "checks \<noteq> [] \<Longrightarrow> sh_healthiness_checks_failed (reported sh checks) \<noteq> None"
  by (induction checks rule: rev_induct) (simp_all add: add_healthcheck_event_def Let_def)

text \<open>
  Failed health checks accumulate: after any reports, a \<open>Running\<close> service is asked to be killed
  exactly when the failed reports it ever got, healthy ones in between notwithstanding, exceed
  \<open>max-failed\<close>. The count is an \<open>i32\<close>, so fewer than \<open>2 ^ 31\<close> reports.
\<close>

lemma failed_checks_accumulate:
  assumes "sh_status sh = Running" and "sh_healthiness_checks_failed sh = None"
    and "checks \<noteq> []" and "int (length checks) < 2 ^ 31"
  shows "next_events now repo (reported sh checks) = Inr
    (if sint (hl_max_failed (sv_healthiness (sh_service sh))) < int (unhealthy_count checks)
     then [StatusUpdate (sh_name sh) InKilling, Kill (sh_name sh)] else [])"
proof -
  have "failed_count (reported sh checks) = int (unhealthy_count checks)"
    using assms reported_count [of sh checks] by (simp add: failed_count_def)
  moreover from reported_some [OF assms(3)] obtain c
    where "sh_healthiness_checks_failed (reported sh checks) = Some c" by blast
  ultimately show ?thesis
    using assms(1) by (simp add: next_events_def Let_def i32_gt_def failed_count_def)
qed

text \<open>
  A service that starts up becomes \<open>Running\<close> only with a clean record: it is moved on exactly when
  it has a report and no failed one. After one failed report no later report, healthy or not, lets it
  leave \<open>Started\<close>.
\<close>

lemma one_failed_check_blocks_running:
  assumes "sh_status sh = Started" and "sh_healthiness_checks_failed sh = None"
    and "int (length checks) < 2 ^ 31"
  shows "next_events now repo (reported sh checks) = Inr
    (if checks \<noteq> [] \<and> Unhealthy \<notin> set checks then [StatusUpdate (sh_name sh) Running] else [])"
proof (cases "checks = []")
  case True
  with assms show ?thesis
    by (simp add: next_events_def has_some_failed_healthchecks_def i32_gt_def)
next
  case False
  have "failed_count (reported sh checks) = int (unhealthy_count checks)"
    using assms reported_count [of sh checks] by (simp add: failed_count_def)
  moreover have "0 < unhealthy_count checks \<longleftrightarrow> Unhealthy \<in> set checks"
    by (auto simp: unhealthy_count_def filter_empty_conv)
  moreover from reported_some [OF False] obtain c
    where "sh_healthiness_checks_failed (reported sh checks) = Some c" by blast
  ultimately show ?thesis
    using assms(1) False
    by (simp add: next_events_def Let_def i32_gt_def failed_count_def has_some_failed_healthchecks_def)
qed

end
