(* ===== verification/Supervisor_Props.thy ===== *)
theory Supervisor_Props
  imports Service_Props
begin

text \<open>
  The properties of the handling of one event and of the states reached by any sequence of events:
  the abstract machine of the services, the pid table, panics, signals, spawns, announcements and
  exits.
\<close>

section \<open>The abstract machine\<close>

text \<open>The service an event is about.\<close>

fun event_target :: "event \<Rightarrow> service_name option" where
  "event_target (PidChanged n p) = Some n"
| "event_target (StatusUpdate n r) = Some n"
| "event_target (StatusChanged n s) = Some n"
| "event_target (ServiceExited n c) = Some n"
| "event_target (ForceKill n) = Some n"
| "event_target (Kill n) = Some n"
| "event_target (SpawnFailed n) = Some n"
| "event_target (Run n) = Some n"
| "event_target (HealthCheck n h) = Some n"
| "event_target (ShuttingDownInitiated sd) = None"

lemma handle_event_frame:
  assumes "handle_event os now st ev = Inr (st', out, acts)" and "event_target ev \<noteq> Some n"
  shows "svc (su_repo st') n = svc (su_repo st) n"
  using assms
  by (elim handle_eventE; (elim handler_elims)?; auto simp: shutting_down_started_def)

text \<open>
  C2. Refinement of the supervisor by the abstract machine \<open>moves\<close>: a handled event creates and
  removes no service, changes no service but its target, never changes a configuration, and takes
  the target's status along an edge of the machine or leaves it.
\<close>

theorem handle_event_refines:
  assumes "handle_event os now st ev = Inr (st', out, acts)"
  shows "(case svc (su_repo st) n of
      None \<Rightarrow> svc (su_repo st') n = None
    | Some sh \<Rightarrow> (\<exists>sh'. svc (su_repo st') n = Some sh'
        \<and> sh_service sh' = sh_service sh
        \<and> (sh' = sh \<or> event_target ev = Some n)
        \<and> (sh_status sh' = sh_status sh \<or> moves ev n (sh_status sh) (sh_status sh'))))"
proof (cases "svc (su_repo st) n")
  case None
  with handle_event_after [OF assms] have "svc (su_repo st') n = None"
    unfolding svc_after_def by (auto dest: spec [of _ n])
  with None show ?thesis by simp
next
  case (Some sh)
  from handle_event_svc [OF assms Some] obtain sh' where "svc (su_repo st') n = Some sh'"
    "sh_service sh' = sh_service sh"
    "sh_status sh' = sh_status sh \<or> moves ev n (sh_status sh) (sh_status sh')" by blast
  with Some handle_event_frame [OF assms, of n] show ?thesis by auto
qed

theorem handle_event_refines_witness:
  "moves (PidChanged ''a'' 7) ''a'' Starting Started
    \<and> (\<exists>st' out acts. handle_event ex_os 0 (ex_sup LRunning [ex_handler (ex_service ''a'') Starting None])
          (PidChanged ''a'' 7) = Inr (st', out, acts)
        \<and> (\<exists>sh'. svc (su_repo st') ''a'' = Some sh' \<and> sh_service sh' = ex_service ''a''))"
proof -
  let ?st = "ex_sup LRunning [ex_handler (ex_service ''a'') Starting None]"
  let ?sh = "ex_handler (ex_service ''a'') Starting None"
  have s: "svc (su_repo ?st) ''a'' = Some ?sh" by simp
  then have "\<not> isl (handle_event ex_os 0 ?st (PidChanged ''a'' 7))"
    unfolding handle_event_panics by simp
  then obtain r where "handle_event ex_os 0 ?st (PidChanged ''a'' 7) = Inr r"
    using isl_def by (metis sum.exhaust)
  then obtain st' out acts
    where h: "handle_event ex_os 0 ?st (PidChanged ''a'' 7) = Inr (st', out, acts)" by (cases r) auto
  with handle_event_refines [OF h, of "''a''"] s have "\<exists>sh'. svc (su_repo st') ''a'' = Some sh' \<and> sh_service sh' = ex_service ''a''"
    by auto
  with h show ?thesis by (auto intro: moves.got_pid)
qed

section \<open>Reachable states\<close>

text \<open>
  The states the supervisor reaches from its start by handling events, in any order, and by the
  signal handler. The one condition on the events is \<open>fresh_pid\<close>: a reported process id is not in
  use and the service has no process.
\<close>

inductive reachable :: "os \<Rightarrow> world \<Rightarrow> service list \<Rightarrow> supervisor \<Rightarrow> bool"
  for os w services where
  start: "reachable os w services (supervisor_new w services)"
| event: "reachable os w services st \<Longrightarrow> fresh_pid st ev
    \<Longrightarrow> handle_event os now st ev = Inr (st', out, acts) \<Longrightarrow> reachable os w services st'"
| signal: "reachable os w services st \<Longrightarrow> reachable os w services (handle_sigterm st)"

lemma repo_wf_event:
  assumes "handle_event os now st ev = Inr (st', out, acts)" and "repo_wf (su_repo st)"
  shows "repo_wf (su_repo st')"
  using assms(1)
  by (cases rule: handle_event_shapes) (use assms(2) in \<open>auto intro: repo_wf_insert_same\<close>)

lemma reachable_repo:
  assumes "reachable os w services st"
  shows "repo_wf (su_repo st)" and "pids_agree (su_repo st)"
    and "config_kept (supervisor_new w services) st"
proof -
  have "repo_wf (su_repo st) \<and> pids_agree (su_repo st) \<and> config_kept (supervisor_new w services) st"
    using assms
  proof (induction rule: reachable.induct)
    case start
    show ?case by (simp add: supervisor_new_def repo_new_wf repo_new_pids config_kept_def)
  next
    case (event st ev now st' out acts)
    with handle_event_config [OF event.hyps(3)] show ?case
      by (auto simp: config_kept_def intro: repo_wf_event handle_event_pids)
  next
    case (signal st)
    then show ?case by (simp add: handle_sigterm_def config_kept_def)
  qed
  then show "repo_wf (su_repo st)" and "pids_agree (su_repo st)"
    and "config_kept (supervisor_new w services) st" by auto
qed



section \<open>Panics\<close>

text \<open>
  C4. The events the supervisor panics on, exactly: one that names an unknown service, an exit of a
  service that has no process, and a start whose backoff, multiplied by the attempts made, does not
  fit a \<open>Duration\<close>. Every other event is handled.
\<close>

theorem handle_event_panic_iff:
  "isl (handle_event os now st ev) \<longleftrightarrow>
    (\<exists>n. event_target ev = Some n \<and> svc (su_repo st) n = None \<and> (\<nexists>s. ev = StatusChanged n s))
    \<or> (\<exists>n c. ev = ServiceExited n c \<and> pid_of (su_repo st) n = None)
    \<or> (\<exists>n sh. ev = Run n \<and> svc (su_repo st) n = Some sh \<and> sh_status sh = Initial
         \<and> fst (prepare_service os (sv_healthiness (sh_service sh)) (su_world st))
         \<and> duration_limit \<le> rs_backoff (sv_restart (sh_service sh)) * unat (sh_restart_attempts sh))"
  unfolding handle_event_panics
  by (cases ev) (auto simp: pid_of_def not_less split: option.splits)

section \<open>Signals, processes and announcements\<close>

text \<open>
  C8. A signal is sent only to the process of a service that is \<open>InKilling\<close>, and it is \<open>SIGKILL\<close>
  exactly for a \<open>ForceKill\<close>; any other one is the signal the service file configures. In particular
  a service asked to stop before its process was known is signalled when the process is reported.
\<close>

theorem signals_only_in_killing:
  assumes "handle_event os now st ev = Inr (st', out, acts)"
  shows "SendSignal p s \<in> set acts \<longleftrightarrow>
    (\<exists>n sh. svc (su_repo st) n = Some sh \<and> sh_status sh = InKilling
      \<and> (ev = ForceKill n \<and> sh_pid sh = Some p \<and> s = SIGKILL
         \<or> (ev = Kill n \<and> sh_pid sh = Some p \<or> ev = PidChanged n p)
           \<and> s = signal_of (tm_signal (sv_termination (sh_service sh)))))"
  using assms
  by (elim handle_eventE; (elim handler_elims)?;
      auto simp: kill_mem shutting_down_started_def)

lemma ex_stop_event:
  "handle_event ex_os 5 (ex_sup LRunning [ex_handler (ex_service ''a'') InKilling (Some 7)]) (Kill ''a'')
    = Inr (set_sh ''a'' (shutting_down_started 5 (ex_handler (ex_service ''a'') InKilling (Some 7)))
            (ex_sup LRunning [ex_handler (ex_service ''a'') InKilling (Some 7)]),
          [], [SendSignal 7 SIGTERM])"
  by (simp add: on_kill_def get_sh_svc kill_def shutting_down_started_def)

theorem signals_only_in_killing_witness:
  "\<exists>n sh. svc (su_repo (ex_sup LRunning [ex_handler (ex_service ''a'') InKilling (Some 7)])) n = Some sh
    \<and> sh_status sh = InKilling \<and> sh_pid sh = Some 7"
  using signals_only_in_killing [OF ex_stop_event, of 7 SIGTERM] by auto

lemma on_run_ignored:
  "svc (su_repo st) n = Some sh \<Longrightarrow> sh_status sh \<noteq> Initial \<Longrightarrow> on_run os st n = Inr (st, [], [])"
  by (simp add: on_run_def get_sh_svc)

text \<open>
  C9. A process is started only by \<open>Run\<close> of a service in \<open>Initial\<close>, once, for the service's own
  configuration, after the backoff multiplied by the attempts made; the service is then \<open>Starting\<close>,
  so a second \<open>Run\<close> starts nothing.
\<close>

theorem spawn_only_from_initial:
  assumes "handle_event os now st ev = Inr (st', out, acts)" and "SpawnForkExec s d \<in> set acts"
  shows "\<exists>n sh. ev = Run n \<and> svc (su_repo st) n = Some sh \<and> sh_status sh = Initial
    \<and> s = sh_service sh \<and> acts = [SpawnForkExec s d]
    \<and> d = rs_backoff (sv_restart s) * unat (sh_restart_attempts sh)
    \<and> (\<forall>os' now'. handle_event os' now' st' (Run n) = Inr (st', [], []))"
  using handle_event_spawns [OF assms] by (force simp: on_run_ignored)

lemma ex_run_event:
  "handle_event ex_os 0 (ex_sup LRunning [ex_handler (ex_service ''a'') Initial None]) (Run ''a'')
    = Inr (set_sh ''a'' (ex_handler (ex_service ''a'') Starting None)
            (ex_sup LRunning [ex_handler (ex_service ''a'') Initial None]),
          [StatusChanged ''a'' Starting], [SpawnForkExec (ex_service ''a'') 0])"
  by (simp add: on_run_def get_sh_svc duration_mul_def duration_check_def duration_limit_def
      nanos_per_sec_def)

theorem spawn_only_from_initial_witness:
  "\<exists>n sh. svc (su_repo (ex_sup LRunning [ex_handler (ex_service ''a'') Initial None])) n = Some sh
    \<and> sh_status sh = Initial \<and> sh_service sh = ex_service ''a''"
  using spawn_only_from_initial [OF ex_run_event, of "ex_service ''a''" 0] by auto

text \<open>
  Announcements: a service whose status an event changes is announced on the bus with the status
  it reached, except by the two handlers that set the status themselves: a failed spawn, and a start
  whose health checks cannot be prepared.
\<close>

lemma status_changes_announced:
  assumes "handle_event os now st ev = Inr (st', out, acts)" and "repo_wf (su_repo st)"
    and "svc (su_repo st) n = Some sh" and "svc (su_repo st') n = Some sh'"
    and "sh_status sh' \<noteq> sh_status sh"
  shows "StatusChanged n (sh_status sh') \<in> set out
    \<or> ev = SpawnFailed n \<or> (ev = Run n \<and> sh_status sh' = FinishedFailed)"
  using handle_event_announced [OF assms(1,2)] assms(3-5) by (simp add: announced_def)

section \<open>Exits\<close>

text \<open>
  C10. The exit of a service with a process: the process leaves the handler and the pid table, the
  pending kill is forgotten, an attempt is counted when the service was in an early state with a failed or
  missing health report, and the status becomes \<open>Failed\<close> for an unsuccessful exit code or a
  \<open>Running\<close> service with failed checks, \<open>Success\<close> otherwise, provided the service was up or being
  killed; a status that is already terminal or force-killed stays.
\<close>

theorem exit_outcome:
  assumes "svc (su_repo st) n = Some sh" and "sh_pid sh = Some p"
  shows "\<exists>st' sh'. handle_event os now st (ServiceExited n c) = Inr (st', [StatusChanged n (sh_status sh')], [])
    \<and> svc (su_repo st') n = Some sh'
    \<and> sh_pid sh' = None \<and> sh_shutting_down_start sh' = None
    \<and> get_service_by_pid (su_repo st') p = None
    \<and> sh_restart_attempts sh' = sh_restart_attempts sh
        + (if has_some_failed_healthchecks sh \<and> sh_status sh \<in> {Initial, Starting, Started} then 1 else 0)
    \<and> sh_status sh' =
        (if sh_status sh \<notin> {Starting, Started, Running, InKilling} then sh_status sh
         else if c \<notin> set (fl_successful_exit_code (sv_failure (sh_service sh)))
              \<or> sh_status sh = Running \<and> has_some_failed_healthchecks sh then Failed else Success)"
proof -
  let ?sh2 = "exit_bookkeeping sh"
  let ?r = "exit_request ?sh2 c"
  let ?sh' = "fst (change_status ?sh2 ?r)"
  let ?st' = "st\<lparr>su_repo := insert_sh_by_name n ?sh' (remove_pid p (su_repo st))\<rparr>"
  have "handle_event os now st (ServiceExited n c) = Inr (?st', [StatusChanged n (sh_status ?sh')], [])"
    using assms by (simp add: on_service_exited_def get_sh_svc Let_def case_prod_unfold)
  moreover have "sh_status ?sh' =
      (if sh_status sh \<notin> {Starting, Started, Running, InKilling} then sh_status sh
       else if c \<notin> set (fl_successful_exit_code (sv_failure (sh_service sh)))
            \<or> sh_status sh = Running \<and> has_some_failed_healthchecks sh then Failed else Success)"
    by (cases "sh_status sh")
      (auto simp: change_status_def handle_status_change_eq Let_def exit_request_def
        transition_valid_def allowed_transitions_def has_some_failed_healthchecks_def)
  moreover have "sh_restart_attempts ?sh' = sh_restart_attempts sh
      + (if has_some_failed_healthchecks sh \<and> sh_status sh \<in> {Initial, Starting, Started} then 1 else 0)"
    by (auto simp: change_status_def handle_status_change_eq Let_def exit_bookkeeping_def
        exit_request_def u32_from_bool_def has_some_failed_healthchecks_def)
  ultimately show ?thesis
    by (intro exI [of _ ?st'] exI [of _ ?sh']) (simp add: frame_simps)
qed

theorem exit_outcome_witness:
  "\<exists>st'. handle_event ex_os 0 (ex_sup LRunning [ex_handler (ex_service ''a'') Running (Some 7)])
      (ServiceExited ''a'' 3) = Inr (st', [StatusChanged ''a'' Failed], [])"
  using exit_outcome [of "ex_sup LRunning [ex_handler (ex_service ''a'') Running (Some 7)]" "''a''" _ 7 ex_os 0 3]
  by auto

section \<open>The restart counter\<close>

definition is_exit_of :: "service_name \<Rightarrow> event \<Rightarrow> bool" where
  "is_exit_of n ev \<longleftrightarrow> (\<exists>c. ev = ServiceExited n c)"

lemma handle_all_attempts:
  assumes "handle_all os st evs = Inr (st', out, acts)"
    and "\<forall>e \<in> set evs. snd e \<noteq> StatusUpdate n Started"
    and "svc (su_repo st) n = Some sh"
  shows "\<exists>sh' k. svc (su_repo st') n = Some sh' \<and> StatusUpdate m Started \<notin> set out
    \<and> k \<le> length (filter (\<lambda>e. is_exit_of n (snd e)) evs)
    \<and> sh_restart_attempts sh' = sh_restart_attempts sh + of_nat k"
  using assms
proof (induction evs arbitrary: st out acts sh)
  case Nil
  then show ?case by (simp add: handle_all_def)
next
  case (Cons e evs)
  from Cons.prems(1) obtain st1 out1 acts1 out2 acts2
    where s: "handle_event os (fst e) st (snd e) = Inr (st1, out1, acts1)"
      and r: "handle_all os st1 evs = Inr (st', out2, acts2)" and out: "out = out1 @ out2"
    by (auto simp: handle_all_def timed_step_def)
  from handle_event_svc [OF s Cons.prems(3)] obtain sh1 where sh1: "svc (su_repo st1) n = Some sh1"
    by blast
  from Cons.IH [OF r _ sh1] Cons.prems(2) obtain sh' k where IH: "svc (su_repo st') n = Some sh'"
    "StatusUpdate m Started \<notin> set out2" "k \<le> length (filter (\<lambda>e. is_exit_of n (snd e)) evs)"
    "sh_restart_attempts sh' = sh_restart_attempts sh1 + of_nat k" by auto
  have "sh_restart_attempts sh1 = sh_restart_attempts sh
      \<or> is_exit_of n (snd e) \<and> sh_restart_attempts sh1 = sh_restart_attempts sh + 1"
    using handle_event_attempts [OF s _ Cons.prems(3) sh1] handle_event_frame [OF s, of n]
      Cons.prems(2,3) sh1 by (auto simp: is_exit_of_def)
  then show ?case
  proof
    assume "sh_restart_attempts sh1 = sh_restart_attempts sh"
    with IH out handle_event_no_Started_update [OF s] show ?thesis
      by (intro exI [of _ sh'] exI [of _ k]) auto
  next
    assume "is_exit_of n (snd e) \<and> sh_restart_attempts sh1 = sh_restart_attempts sh + 1"
    with IH out handle_event_no_Started_update [OF s] show ?thesis
      by (intro exI [of _ sh'] exI [of _ "Suc k"]) (auto simp: add.assoc)
  qed
qed

text \<open>
  C26. The restart counter is never reset by the running system: in a round that receives no
  \<open>StatusUpdate n Started\<close> the counter of \<open>n\<close> only grows, by at most the number of exits of \<open>n\<close> it
  handles, and the round sends no such update for any service, so neither will a later one.
\<close>

theorem restart_counter_never_reset:
  assumes "run_round os inp st = Inr (st', sent, acts)"
    and "\<forall>e \<in> set (ri_received inp). snd e \<noteq> StatusUpdate n Started"
    and "svc (su_repo st) n = Some sh"
  shows "(\<exists>sh' k. svc (su_repo st') n = Some sh'
      \<and> sh_restart_attempts sh' = sh_restart_attempts sh + of_nat k
      \<and> k \<le> length (filter (\<lambda>e. is_exit_of n (snd e)) (ri_received inp)))
    \<and> StatusUpdate m Started \<notin> set sent"
  using assms(1)
proof (cases rule: run_round_cases)
  case (1 produced service_evs)
  note all = 1(1) and nx = 1(2) and sent = 1(3)
  from handle_all_attempts [OF all assms(2), of sh m] assms(3) obtain sh' k where
    "svc (su_repo st') n = Some sh'" "StatusUpdate m Started \<notin> set produced"
    "k \<le> length (filter (\<lambda>e. is_exit_of n (snd e)) (ri_received inp))"
    "sh_restart_attempts sh' = sh_restart_attempts sh + of_nat k" by auto
  moreover have "StatusUpdate m Started \<notin> set service_evs"
    using flat_map_res_Inr_set [OF nx [unfolded services_next_def]] next_evs_no_Started_update by fastforce
  moreover have "StatusUpdate m Started \<notin> set (sigterm_events x)" for x
    by (auto simp: sigterm_events_def split: lifecycle_status.splits shutting_down.splits bool.splits)
  moreover have "StatusUpdate m Started \<notin> set (reaper_run w repo k)" for w repo k
    by (auto simp: reaper_run_mem)
  ultimately show ?thesis unfolding sent by auto
qed

lemma ex_exit:
  "handle_event ex_os 0 (ex_sup LRunning [ex_handler (ex_service ''a'') Started (Some 7)]) (ServiceExited ''a'' 1)
    = Inr (ex_sup LRunning [(ex_handler (ex_service ''a'') Failed None)\<lparr>sh_restart_attempts := 1\<rparr>],
        [StatusChanged ''a'' Failed], [])"
  by (simp add: on_service_exited_def get_sh_svc exit_bookkeeping_def u32_from_bool_def i32_gt_def
      exit_request_def change_status_def handle_status_change_def transition_valid_def Let_def
      allowed_transitions_def has_some_failed_healthchecks_def)
   (simp add: ex_sup_def insert_sh_by_name_def remove_pid_def hm_insert_def hm_remove_def List.map_filter_def
      sh_name_def ex_handler_def handler_of_def)

lemma ex_round:
  "run_round ex_os (ex_input [(0, ServiceExited ''a'' 1)])
      (ex_sup LRunning [ex_handler (ex_service ''a'') Started (Some 7)])
    = Inr (ex_sup LRunning [(ex_handler (ex_service ''a'') Failed None)\<lparr>sh_restart_attempts := 1\<rparr>],
        [StatusChanged ''a'' Failed, StatusUpdate ''a'' FinishedFailed], [])"
  by (simp add: run_round_def sigterm_events_def ex_handle_all_one ex_exit services_next_def
      ex_hm_entries del: handle_event.simps)
    (simp add: next_evs_def next_events_def sh_name_def handle_failed_service_def get_dependents_def
      ex_hm_entries get_die_if_failed_def handle_restart_strategy_def restart_attempts_are_over_def)

theorem restart_counter_never_reset_witness:
  "\<exists>sh' k. svc (su_repo (ex_sup LRunning
        [(ex_handler (ex_service ''a'') Failed None)\<lparr>sh_restart_attempts := 1\<rparr>])) ''a'' = Some sh'
      \<and> sh_restart_attempts sh' = 0 + of_nat k \<and> k \<le> 1"
  using restart_counter_never_reset [OF ex_round, of "''a''"] by (simp add: is_exit_of_def)

end
