(* ===== verification/Supervisor_Names.thy ===== *)
theory Supervisor_Names
  imports Supervisor_Props
begin

text \<open>
  Who the events are about: the supervisor only sends events that name services it has, whatever
  events and whatever \<open>waitpid\<close> answers it is given. So nothing that receives its events meets an unknown
  service.
\<close>

section \<open>The services of a supervisor\<close>

definition names_of :: "service list \<Rightarrow> service_name set" where
  "names_of services = sv_name ` set services"

definition names_kept :: "service_name set \<Rightarrow> supervisor \<Rightarrow> bool" where
  "names_kept names st \<longleftrightarrow> repo_wf (su_repo st) \<and> dom (svc (su_repo st)) = names
    \<and> (\<forall>p n. get_service_by_pid (su_repo st) p = Some n \<longrightarrow> n \<in> names)"

lemma names_of_start: "names_kept (names_of services) (supervisor_new w services)"
  using repo_new_pids [of services]
  by (auto simp: names_kept_def supervisor_new_def repo_new_wf svc_repo_new names_of_def find_None_iff
      dom_def image_iff pids_agree_def handler_of_def)

lemma names_kept_event:
  assumes "handle_event os now st ev = Inr (st', out, acts)" and "names_kept names st"
  shows "names_kept names st'"
proof -
  have wf: "repo_wf (su_repo st')" using assms repo_wf_event by (auto simp: names_kept_def)
  from assms(1) show ?thesis
  proof (cases rule: handle_event_shapes)
    case same
    with assms(2) show ?thesis by (simp add: names_kept_def)
  qed (use assms(2) wf in \<open>auto simp: names_kept_def split: if_splits\<close>)
qed

interpretation named: step_invariant "timed_step os" "names_kept names" for os names
  by unfold_locales (auto simp: timed_step_def intro: names_kept_event)

section \<open>The names the events carry\<close>

definition known_targets :: "service_name set \<Rightarrow> event set" where
  "known_targets names = {ev. \<forall>n. event_target ev = Some n \<longrightarrow> n \<in> names}"

lemma known_targets_iff: "ev \<in> known_targets names \<longleftrightarrow> (\<forall>n. event_target ev = Some n \<longrightarrow> n \<in> names)"
  by (simp add: known_targets_def)

lemma handle_event_targets:
  assumes "handle_event os now st ev = Inr (st', out, acts)" and "names_kept names st"
  shows "set out \<subseteq> known_targets names"
proof -
  have wf: "repo_wf (su_repo st)" and known: "svc (su_repo st) m = Some sh \<Longrightarrow> m \<in> names" for m sh
    using assms(2) by (auto simp: names_kept_def)
  from assms(1) wf show ?thesis
    by (elim handle_eventE; (elim handler_elims)?; auto simp: repo_wf_name known_targets_iff intro: known)
qed

lemma next_events_targets:
  assumes "next_events now repo sh = Inr evs" and "repo_wf repo" and "svc repo n = Some sh"
    and "e \<in> set evs" and "event_target e = Some m"
  shows "svc repo m \<noteq> None"
  using assms
  by (cases "sh_status sh")
    (auto simp: next_events_def Let_def handle_restart_strategy_def repo_wf_name get_dependents_iff
      get_die_if_failed_iff dest!: handle_failed_service_events split: if_splits)

lemma next_evs_targets:
  assumes "next_evs now sh repo lc = Inr evs" and "repo_wf repo" and "svc repo n = Some sh"
    and "e \<in> set evs" and "event_target e = Some m"
  shows "svc repo m \<noteq> None"
proof (cases lc)
  case LRunning
  with assms next_events_targets show ?thesis by (simp add: next_evs_def)
next
  case (ShuttingDown sd)
  with next_events_shutting_down_kinds [of now sh sd repo evs e] assms show ?thesis
    by (auto simp: next_evs_def repo_wf_name)
qed

lemma run_round_names:
  assumes "run_round os inp st = Inr (st', sent, acts)" and "names_kept names st"
  shows "names_kept names st'" and "set sent \<subseteq> known_targets names"
proof -
  from assms(2) have start: "names_kept names (round_start inp st)" by (simp add: names_kept_def)
  have "names_kept names st' \<and> set sent \<subseteq> known_targets names"
    using assms(1)
  proof (cases rule: run_round_cases)
    case (1 produced service_evs)
    from 1(1) have run: "run_events (timed_step os) (round_start inp st) (ri_received inp) = Inr (st', produced, acts)"
      by (simp add: handle_all_def)
    from named.inv_run [OF start run] have st': "names_kept names st'" .
    have "set produced \<subseteq> known_targets names"
      using named.run_produces [OF _ start run, of "known_targets names" UNIV]
      by (auto simp: timed_step_def dest: handle_event_targets)
    moreover have "set service_evs \<subseteq> known_targets names"
    proof
      fix e assume e: "e \<in> set service_evs"
      from st' have wf: "repo_wf (su_repo st')" by (simp add: names_kept_def)
      from services_next_mem [OF 1(2) wf, of e] e next_evs_targets [OF _ wf] st'
      show "e \<in> known_targets names" by (fastforce simp: known_targets_iff names_kept_def)
    qed
    moreover have "set (reaper_run (ri_waitpid inp) (su_repo st') max_process_reaps_iters) \<subseteq> known_targets names"
      using st' by (fastforce simp: reaper_run_mem known_targets_iff names_kept_def)
    moreover have "set (sigterm_events (round_start inp st)) \<subseteq> known_targets names"
      by (auto simp: sigterm_events_def known_targets_iff
          split: lifecycle_status.splits shutting_down.splits bool.splits)
    ultimately show ?thesis using st' by (simp add: 1(3))
  qed
  then show "names_kept names st'" and "set sent \<subseteq> known_targets names" by simp_all
qed

end
