(* ===== verification/System.thy ===== *)
theory System
  imports Closed_Loop Commands Supervisor_Names
begin

text \<open>
  \<open>Horust::run\<close> (\<open>horust/mod.rs\<close>): the supervisor, the commands handler and the health manager on one
  bus. The bus is the sequence of all events sent, and a connector a position in it: that every
  connector receives all events in the order of their sending is shown in theory \<open>Bus\<close>. A turn is
  what one thread does between two polls of its connector; turns come in any order. The spawner
  threads, the health workers and the arrival of signals and process ends are part of the turns'
  arguments.
\<close>

section \<open>State\<close>

record system =
  sy_sup :: supervisor
  sy_cmd :: commands_handler
  sy_mgr :: manager
  sy_log :: "event list"     \<comment> \<open>everything sent so far, in the order of the bus\<close>
  sy_sup_pos :: nat
  sy_cmd_pos :: nat
  sy_mgr_pos :: nat

text \<open>All connectors join before the bus runs.\<close>

definition system_start :: "world \<Rightarrow> service list \<Rightarrow> system" where
  "system_start w services =
    \<lparr>sy_sup = supervisor_new w services, sy_cmd = commands_handler_new (map sv_name services),
     sy_mgr = manager_init, sy_log = [], sy_sup_pos = 0, sy_cmd_pos = 0, sy_mgr_pos = 0\<rparr>"

section \<open>Turns\<close>

datatype turn = SupervisorTurn outside | CommandsTurn nat | ManagerTurn | ThreadSends event

definition supervisor_turn :: "os \<Rightarrow> outside \<Rightarrow> system \<Rightarrow> system res" where
  "supervisor_turn os ou sy =
    res_map (\<lambda>(st, sent, acts).
        sy\<lparr>sy_sup := st, sy_sup_pos := min (sy_sup_pos sy + ou_delivered ou) (length (sy_log sy)),
           sy_log := sy_log sy @ interleave (ou_schedule ou) sent (ou_sent ou)\<rparr>)
      (run_round os (round_input_of ou (drop (sy_sup_pos sy) (sy_log sy))) (sy_sup sy))"

definition commands_turn :: "nat \<Rightarrow> system \<Rightarrow> system res" where
  "commands_turn d sy =
    (if cm_done (sy_cmd sy) then Inr sy
     else res_map (\<lambda>h. sy\<lparr>sy_cmd := h, sy_cmd_pos := min (sy_cmd_pos sy + d) (length (sy_log sy))\<rparr>)
       (commands_events (sy_cmd sy) (take d (drop (sy_cmd_pos sy) (sy_log sy)))))"

definition manager_turn :: "service list \<Rightarrow> system \<Rightarrow> system res" where
  "manager_turn services sy =
    (case drop (sy_mgr_pos sy) (sy_log sy) of
      [] \<Rightarrow> Inr sy
    | ev # _ \<Rightarrow>
        if mg_done (sy_mgr sy) then Inr sy
        else res_map (\<lambda>(m, sent, acts).
            sy\<lparr>sy_mgr := m, sy_mgr_pos := Suc (sy_mgr_pos sy), sy_log := sy_log sy @ sent\<rparr>)
          (manager_step services (sy_mgr sy) ev))"

fun system_turn :: "os \<Rightarrow> service list \<Rightarrow> turn \<Rightarrow> system \<Rightarrow> system res" where
  "system_turn os services (SupervisorTurn ou) sy = supervisor_turn os ou sy"
| "system_turn os services (CommandsTurn d) sy = commands_turn d sy"
| "system_turn os services ManagerTurn sy = manager_turn services sy"
| "system_turn os services (ThreadSends ev) sy = Inr (sy\<lparr>sy_log := sy_log sy @ [ev]\<rparr>)"

text \<open>What spawner threads and health workers send, for services of the configuration.\<close>

fun thread_event :: "service_name set \<Rightarrow> event \<Rightarrow> bool" where
  "thread_event names (PidChanged n p) \<longleftrightarrow> n \<in> names"
| "thread_event names (SpawnFailed n) \<longleftrightarrow> n \<in> names"
| "thread_event names (HealthCheck n h) \<longleftrightarrow> n \<in> names"
| "thread_event names _ \<longleftrightarrow> False"

fun turn_ok :: "service_name set \<Rightarrow> turn \<Rightarrow> bool" where
  "turn_ok names (SupervisorTurn ou) \<longleftrightarrow> list_all (thread_event names) (ou_sent ou)"
| "turn_ok names (ThreadSends ev) \<longleftrightarrow> thread_event names ev"
| "turn_ok names _ \<longleftrightarrow> True"

inductive system_reaches :: "os \<Rightarrow> world \<Rightarrow> service list \<Rightarrow> system \<Rightarrow> bool"
  for os w services
where
  start: "system_reaches os w services (system_start w services)"
| turn: "system_reaches os w services sy \<Longrightarrow> turn_ok (names_of services) t \<Longrightarrow> system_turn os services t sy = Inr sy'
    \<Longrightarrow> system_reaches os w services sy'"

section \<open>Lemmas\<close>

lemma supervisor_turn_Inr:
  assumes "supervisor_turn os ou sy = Inr sy'"
  obtains sent acts where "run_round os (round_input_of ou (drop (sy_sup_pos sy) (sy_log sy))) (sy_sup sy)
      = Inr (sy_sup sy', sent, acts)"
    "sy_log sy' = sy_log sy @ interleave (ou_schedule ou) sent (ou_sent ou)"
    "sy_cmd sy' = sy_cmd sy" "sy_cmd_pos sy' = sy_cmd_pos sy" "sy_mgr sy' = sy_mgr sy" "sy_mgr_pos sy' = sy_mgr_pos sy"
  using assms by (auto simp: supervisor_turn_def)

text \<open>The supervisor's part of a turn is a round of the closed loop.\<close>

lemma supervisor_turn_is_bus_round:
  assumes "supervisor_turn os ou sy = Inr sy'"
  shows "bus_round os ou (sy_sup sy, drop (sy_sup_pos sy) (sy_log sy))
    = Inr (sy_sup sy', drop (sy_sup_pos sy') (sy_log sy'))"
  using assms by (cases "sy_sup_pos sy + ou_delivered ou \<le> length (sy_log sy)")
    (auto simp: supervisor_turn_def bus_round_Inr ac_simps min_def)

end
