(* ===== verification/Health_Props.thy ===== *)
theory Health_Props
  imports Healthcheck
begin

text \<open>
  The properties of the health checks: what a healthy report means, what the preparation guarantees,
  and the manager's workers.
\<close>

section \<open>Reports\<close>

text \<open>
  A report is \<open>Healthy\<close> exactly when every check that is configured passes: the file exists, the
  endpoint answers (and the program was built with the HTTP check), and the prepared command runs with
  success. A failing file or HTTP check is reported without running the command.
\<close>

lemma healthy_report:
  "(check_health os w h = Inr Healthy \<longleftrightarrow>
      (\<forall>f. hl_file_path h = Some f \<longrightarrow> wd_exists w f)
      \<and> (\<forall>url. hl_http_endpoint h = Some url \<longrightarrow> os_http_feature os \<and> os_http_head os url)
      \<and> (\<forall>c. hl_command h = Some c \<longrightarrow> (\<exists>prog args. hm_get (wd_parsed_commands w) c = Some (prog # args)
            \<and> os_run_command os (prog # args) = Some True)))
    \<and> ((\<exists>f. hl_file_path h = Some f \<and> \<not> wd_exists w f) \<longrightarrow> check_health os w h = Inr Unhealthy)"
proof -
  have c: "command_check_run os w h = Inr True \<longleftrightarrow>
      (\<forall>c. hl_command h = Some c \<longrightarrow> (\<exists>prog args. hm_get (wd_parsed_commands w) c = Some (prog # args)
            \<and> os_run_command os (prog # args) = Some True))"
    by (auto simp: command_check_run_def neq_Nil_conv split: option.split)
  have f: "file_check_run w h \<longleftrightarrow> (\<forall>f. hl_file_path h = Some f \<longrightarrow> wd_exists w f)"
    by (auto simp: file_check_run_def split: option.split)
  have u: "http_check_run os h \<longleftrightarrow>
      (\<forall>url. hl_http_endpoint h = Some url \<longrightarrow> os_http_feature os \<and> os_http_head os url)"
    by (auto simp: http_check_run_def split: option.split)
  have "check_health os w h = Inr Healthy \<longleftrightarrow> file_check_run w h \<and> http_check_run os h
      \<and> command_check_run os w h = Inr True"
    by (cases "command_check_run os w h") (auto simp: check_health_eq healthiness_from_bool_def)
  moreover have "\<not> file_check_run w h \<Longrightarrow> check_health os w h = Inr Unhealthy"
    by (simp add: check_health_eq)
  ultimately show ?thesis using c f u by auto
qed

text \<open>
  A successful preparation leaves no stale evidence: the health file does not exist, so only the
  service can create it, and the command is resolved, so its check can run; nothing else changes.
\<close>

lemma prepared_checks_are_fresh:
  assumes "prepare_service os h w = (True, w')"
  shows "(\<forall>f. hl_file_path h = Some f \<longrightarrow> \<not> wd_exists w' f)
    \<and> (\<forall>g. hl_file_path h \<noteq> Some g \<longrightarrow> wd_exists w' g = wd_exists w g)
    \<and> (\<forall>c. hl_command h = Some c \<longrightarrow> (\<exists>prog args. hm_get (wd_parsed_commands w') c = Some (prog # args)))
    \<and> (\<forall>c. hl_command h \<noteq> Some c \<longrightarrow> hm_get (wd_parsed_commands w') c = hm_get (wd_parsed_commands w) c)"
proof -
  obtain w1 where f: "file_check_prepare os w h = (True, w1)" and c: "command_check_prepare os w1 h = (True, w')"
    using assms by (auto simp: prepare_service_split split: prod.splits if_splits)
  have w1: "(\<forall>f. hl_file_path h = Some f \<longrightarrow> \<not> wd_exists w1 f)
      \<and> (\<forall>g. hl_file_path h \<noteq> Some g \<longrightarrow> wd_exists w1 g = wd_exists w g)
      \<and> wd_parsed_commands w1 = wd_parsed_commands w"
    using f by (auto simp: file_check_prepare_def split: option.splits if_splits)
  show ?thesis
  proof (cases "hl_command h")
    case None
    with c w1 show ?thesis by (simp add: command_check_prepare_def)
  next
    case (Some cmd)
    with c have p: "prepare_cmd os w1 cmd = (True, w')" by (simp add: command_check_prepare_def)
    have "wd_exists w' = wd_exists w1" using prepare_cmd_exists [of os w1 cmd] p by simp
    moreover have "hm_get (wd_parsed_commands w') k = hm_get (wd_parsed_commands w1) k" if "k \<noteq> cmd" for k
      using p that by (auto simp: prepare_cmd_def split: option.splits list.splits sum.splits)
    ultimately show ?thesis
      using Some w1 prepare_cmd_cached [OF p] by auto
  qed
qed

section \<open>Workers\<close>

definition live_worker :: "worker_action list \<Rightarrow> worker_id \<Rightarrow> service \<Rightarrow> bool" where
  "live_worker acts i s \<longleftrightarrow> SpawnWorker i s \<in> set acts \<and> StopWorker i \<notin> set acts"

text \<open>After the actions \<open>prev\<close>, the table lists exactly the live workers, each under its service.\<close>

definition manager_inv :: "worker_action list \<Rightarrow> manager \<Rightarrow> bool" where
  "manager_inv prev m \<longleftrightarrow> hm_wf (mg_workers m)
    \<and> (\<forall>i s. live_worker prev i s \<longrightarrow> hm_get (mg_workers m) (sv_name s) = Some i)
    \<and> (\<forall>n i. hm_get (mg_workers m) n = Some i \<longrightarrow> (\<exists>s. sv_name s = n \<and> live_worker prev i s))
    \<and> (\<forall>n k i. hm_get (mg_workers m) n = Some i \<longrightarrow> hm_get (mg_workers m) k = Some i \<longrightarrow> n = k)
    \<and> (\<forall>i s. SpawnWorker i s \<in> set prev \<longrightarrow> i < mg_next_id m)
    \<and> (\<forall>i. StopWorker i \<in> set prev \<longrightarrow> i < mg_next_id m)"

lemma manager_inv_init: "manager_inv [] manager_init"
  by (simp add: manager_inv_def manager_init_def live_worker_def hm_wf_empty)

lemma stop_existing_mem:
  "StopWorker i \<in> set (stop_existing m n) \<longleftrightarrow> hm_get (mg_workers m) n = Some i"
  "SpawnWorker i s \<notin> set (stop_existing m n)"
  by (auto simp: stop_existing_def split: option.splits)

lemma manager_inv_stop:
  assumes "manager_inv prev m"
  shows "manager_inv (prev @ stop_existing m n) (m\<lparr>mg_workers := hm_remove n (mg_workers m)\<rparr>)"
proof -
  have lt: "hm_get (mg_workers m) n = Some i \<Longrightarrow> i < mg_next_id m" for i
    using assms unfolding manager_inv_def live_worker_def by blast
  have lw: "live_worker (prev @ stop_existing m n) i s
      \<longleftrightarrow> live_worker prev i s \<and> hm_get (mg_workers m) n \<noteq> Some i" for i s
    by (auto simp: live_worker_def stop_existing_mem)
  from assms show ?thesis
    unfolding manager_inv_def lw
    by (auto simp: hm_wf_remove stop_existing_mem lt split: if_splits) metis
qed

lemma manager_inv_spawn:
  assumes "manager_inv prev m" and "hm_get (mg_workers m) (sv_name s) = None"
  shows "manager_inv (prev @ [SpawnWorker (mg_next_id m) s])
    (m\<lparr>mg_workers := hm_insert (sv_name s) (mg_next_id m) (mg_workers m), mg_next_id := Suc (mg_next_id m)\<rparr>)"
proof -
  have "hm_get (mg_workers m) n \<noteq> Some (mg_next_id m)" for n
    using assms(1) unfolding manager_inv_def live_worker_def by (metis less_irrefl)
  moreover have "StopWorker (mg_next_id m) \<notin> set prev"
    using assms(1) unfolding manager_inv_def by blast
  moreover have "live_worker (prev @ [SpawnWorker (mg_next_id m) s]) i t
      \<longleftrightarrow> live_worker prev i t \<or> (i = mg_next_id m \<and> t = s \<and> StopWorker i \<notin> set prev)" for i t
    by (auto simp: live_worker_def)
  ultimately show ?thesis
    using assms unfolding manager_inv_def
    by (auto simp: hm_wf_insert less_Suc_eq split: if_splits) (metis option.distinct(1))+
qed

lemma manager_inv_stop_all:
  assumes "manager_inv prev m"
  shows "manager_inv (prev @ map (\<lambda>(_, i). StopWorker i) (hm_entries (mg_workers m)))
    (m\<lparr>mg_workers := hm_empty, mg_done := True\<rparr>)"
proof -
  have wf: "hm_wf (mg_workers m)" using assms by (simp add: manager_inv_def)
  have stop: "StopWorker i \<in> set (map (\<lambda>(_, i). StopWorker i) (hm_entries (mg_workers m)))
      \<longleftrightarrow> (\<exists>n. hm_get (mg_workers m) n = Some i)" for i
    by (force simp: hm.entries_get [OF wf, symmetric] image_iff)
  have spawn: "SpawnWorker i s \<notin> set (map (\<lambda>(_, i). StopWorker i) (hm_entries (mg_workers m)))" for i s
    by auto
  show ?thesis
    using assms stop spawn unfolding manager_inv_def live_worker_def set_append Un_iff
    by (simp add: hm_wf_empty) blast
qed

lemma manager_step_inv:
  assumes "manager_inv prev m" and "manager_step services m ev = Inr (m', sent, acts)"
  shows "manager_inv (prev @ acts) m'"
proof (cases "\<exists>n. ev = StatusChanged n Started")
  case True
  then obtain n where ev: "ev = StatusChanged n Started" by blast
  with assms(2) obtain s where s: "find (\<lambda>s. sv_name s = n) services = Some s"
    by (auto simp: get_service_def)
  then have "sv_name s = n" by (auto simp: find_Some_iff)
  with manager_inv_spawn [OF manager_inv_stop [OF assms(1), of n], of s] assms ev s show ?thesis
    by (auto simp: get_service_def split: if_splits)
next
  case False
  with assms manager_inv_stop [OF assms(1)] manager_inv_stop_all [OF assms(1)] show ?thesis
    by (cases ev) (auto elim!: manager_step.elims)
qed

lemma manager_step_done:
  "manager_step services m ev = Inr (m', sent, acts) \<Longrightarrow> (mg_done m \<longrightarrow> mg_workers m = hm_empty)
    \<Longrightarrow> \<not> mg_done m \<Longrightarrow> mg_done m' \<longrightarrow> mg_workers m' = hm_empty"
  by (elim manager_step.elims)
    (auto simp: eq_commute [of "Inr x" "res_map f r" for x f r] split: if_splits)

lemma manager_run_done:
  "manager_run services m evs = Inr (m', sent, acts) \<Longrightarrow> (mg_done m \<longrightarrow> mg_workers m = hm_empty)
    \<Longrightarrow> mg_done m' \<longrightarrow> hm_get (mg_workers m') n = None"
proof (induction evs arbitrary: m sent acts)
  case Nil
  then show ?case by simp
next
  case (Cons ev evs)
  show ?case
  proof (cases "mg_done m")
    case True
    with Cons.prems show ?thesis by simp
  next
    case False
    with Cons.prems(1) obtain m1 sent1 acts1 sent2 acts2 where
      s: "manager_step services m ev = Inr (m1, sent1, acts1)" and
      r: "manager_run services m1 evs = Inr (m', sent2, acts2)" by auto
    from Cons.IH [OF r manager_step_done [OF s Cons.prems(2) False]] show ?thesis .
  qed
qed

lemma manager_run_inv:
  "manager_inv prev m \<Longrightarrow> manager_run services m evs = Inr (m', sent, acts) \<Longrightarrow> manager_inv (prev @ acts) m'"
proof (induction evs arbitrary: prev m sent acts)
  case Nil
  then show ?case by simp
next
  case (Cons ev evs)
  show ?case
  proof (cases "mg_done m")
    case True
    with Cons.prems show ?thesis by simp
  next
    case False
    with Cons.prems(2) obtain m1 sent1 acts1 sent2 acts2 where
      s: "manager_step services m ev = Inr (m1, sent1, acts1)" and
      r: "manager_run services m1 evs = Inr (m', sent2, acts2)" and "acts = acts1 @ acts2"
      by auto
    with Cons.IH [OF manager_step_inv [OF Cons.prems(1) s] r] show ?thesis by simp
  qed
qed



end
