(* ===== verification/System_Props.thy ===== *)
theory System_Props
  imports System Examples Health_Props
begin

text \<open>
  Properties of the threads together: in every state the turns reach, the commands handler and the
  health manager take their turns without a panic, and the table the handler answers from follows
  the statuses of the supervisor.
\<close>

section \<open>What a sequence of events tells about a service\<close>

definition announce :: "service_name \<Rightarrow> service_status \<Rightarrow> event \<Rightarrow> service_status" where
  "announce n t ev = (case ev of StatusChanged m s \<Rightarrow> if m = n then s else t | _ \<Rightarrow> t)"

definition told :: "service_name \<Rightarrow> service_status \<Rightarrow> event list \<Rightarrow> service_status" where
  "told n t evs = foldl (announce n) t evs"

lemma told_simps [simp]:
  "told n t [] = t"
  "told n t (ev # evs) = told n (announce n t ev) evs"
  "told n t (evs @ evs') = told n (told n t evs) evs'"
  by (simp_all add: told_def)

lemma announce_simps [simp]:
  "announce n t (StatusChanged m s) = (if m = n then s else t)"
  by (simp add: announce_def)

lemma announce_other: "\<forall>m s. ev \<noteq> StatusChanged m s \<Longrightarrow> announce n t ev = t"
  by (cases ev) (auto simp: announce_def)

lemma told_or: "told n t evs = t \<or> StatusChanged n (told n t evs) \<in> set evs"
proof (induction evs arbitrary: t)
  case (Cons ev evs)
  from Cons.IH [of "announce n t ev"] show ?case
    by (cases ev) (auto simp: announce_def split: if_splits)
qed simp

definition is_announcement :: "event \<Rightarrow> bool" where
  "is_announcement ev \<longleftrightarrow> (\<exists>m s. ev = StatusChanged m s)"

lemma told_filter: "told n t (filter is_announcement evs) = told n t evs"
  by (induction evs arbitrary: t) (auto simp: is_announcement_def announce_other)

lemma told_interleave:
  "list_all (thread_event names) ys \<Longrightarrow> told n t (interleave bs xs ys) = told n t xs"
  using interleave_filter_left [of ys is_announcement bs xs]
  by (metis (no_types, lifting) is_announcement_def list_all_iff thread_event.simps told_filter)

lemma told_known: "\<forall>s. StatusChanged n s \<notin> set evs \<Longrightarrow> told n t evs = t"
  using told_or [of n t evs] by auto

lemma known_StatusChanged [simp]: "StatusChanged m s \<in> known_targets names \<longleftrightarrow> m \<in> names"
  by (simp add: known_targets_iff)

text \<open>The handler's table is told what the events tell.\<close>

lemma commands_events_told:
  "\<forall>sd. ShuttingDownInitiated sd \<notin> set evs \<Longrightarrow>
    \<forall>n s. StatusChanged n s \<in> set evs \<longrightarrow> hm_get (cm_services h) n \<noteq> None \<Longrightarrow>
    \<exists>h'. commands_events h evs = Inr h' \<and> cm_done h' = cm_done h \<and> cm_socket_file h' = cm_socket_file h
      \<and> (\<forall>n. hm_get (cm_services h') n = map_option (\<lambda>t. told n t evs) (hm_get (cm_services h) n))"
proof (induction h evs rule: commands_events.induct)
  case (2 h m s evs)
  then obtain t where "hm_get (cm_services h) m = Some t" by fastforce
  with 2 show ?case by (fastforce simp: option.map_comp)
qed (auto simp: announce_other option.map_ident)

section \<open>What the supervisor announces\<close>

text \<open>
  The status shown for a service: the one it has, or \<open>Failed\<close> while it is being killed, as
  \<open>next_events\<close> announces the end of a service it only asks to kill by force.
\<close>

definition shown :: "service_status \<Rightarrow> service_status \<Rightarrow> bool" where
  "shown s t \<longleftrightarrow> t = s \<or> s = InKilling \<and> t = Failed"

lemma shown_simps [simp]: "shown s s" "shown InKilling Failed"
  by (simp_all add: shown_def)

lemma handle_event_shown:
  assumes "handle_event os now st ev = Inr (st', out, acts)" and "repo_wf (su_repo st)"
    and "svc (su_repo st) n = Some sh" and "shown (sh_status sh) t"
    and "ev \<noteq> SpawnFailed n" and "\<forall>sd. ShuttingDownInitiated sd \<notin> set out"
  shows "\<exists>sh'. svc (su_repo st') n = Some sh' \<and> shown (sh_status sh') (told n t out)"
  using assms
  by (elim handle_eventE; (elim handler_elims)?;
      auto simp: shutting_down_started_def frame_simps repo_wf_name shown_def announce_other)

lemma handle_all_shown:
  assumes "handle_all os st evs = Inr (st', out, acts)" and "repo_wf (su_repo st)"
    and "svc (su_repo st) n = Some sh" and "shown (sh_status sh) t"
    and "SpawnFailed n \<notin> snd ` set evs" and "\<forall>sd. ShuttingDownInitiated sd \<notin> set out"
  shows "\<exists>sh'. svc (su_repo st') n = Some sh' \<and> shown (sh_status sh') (told n t out)"
  using assms
proof (induction evs arbitrary: st sh t out acts)
  case Nil
  then show ?case by (simp add: handle_all_def)
next
  case (Cons e evs)
  from Cons.prems(1) obtain st1 out1 acts1 out2 acts2
    where s: "handle_event os (fst e) st (snd e) = Inr (st1, out1, acts1)"
      and r: "handle_all os st1 evs = Inr (st', out2, acts2)" and out: "out = out1 @ out2"
    by (auto simp: handle_all_def timed_step_def)
  from handle_event_shown [OF s Cons.prems(2-4)] Cons.prems(5,6)
  obtain sh1 where "svc (su_repo st1) n = Some sh1" "shown (sh_status sh1) (told n t out1)"
    by (auto simp: out)
  from Cons.IH [OF r repo_wf_event [OF s Cons.prems(2)] this] Cons.prems(5,6)
  show ?case by (auto simp: out)
qed

lemma next_events_announces:
  "next_events now repo sh = Inr evs \<Longrightarrow> StatusChanged m s \<in> set evs
    \<Longrightarrow> m = sh_name sh \<and> s = Failed \<and> sh_status sh = InKilling"
  by (cases "sh_status sh")
    (auto simp: next_events_def Let_def handle_restart_strategy_def
      dest: handle_failed_service_events split: if_splits)

lemma next_evs_announces:
  "next_evs now sh repo lc = Inr evs \<Longrightarrow> StatusChanged m s \<in> set evs
    \<Longrightarrow> m = sh_name sh \<and> s = Failed \<and> sh_status sh = InKilling"
  by (cases lc) (auto simp: next_evs_def dest: next_events_announces next_events_shutting_down_kinds)

lemma services_next_announces:
  assumes "services_next clock st = Inr evs" and "repo_wf (su_repo st)" and "StatusChanged m s \<in> set evs"
  shows "\<exists>sh. svc (su_repo st) m = Some sh \<and> s = Failed \<and> sh_status sh = InKilling"
  using assms by (auto simp: services_next_mem repo_wf_name dest!: next_evs_announces)

lemma services_next_shown:
  assumes "services_next clock st = Inr evs" and "repo_wf (su_repo st)"
    and "svc (su_repo st) n = Some sh" and "shown (sh_status sh) t"
  shows "shown (sh_status sh) (told n t evs)"
  using told_or [of n t evs] assms services_next_announces [OF assms(1,2)] by fastforce

lemma reaper_announces_nothing: "StatusChanged m s \<notin> set (reaper_run waitpid repo k)"
  by (auto simp: reaper_run_mem)

lemma sigterm_announces_nothing: "StatusChanged m s \<notin> set (sigterm_events st)"
  by (auto simp: sigterm_events_def split: lifecycle_status.splits shutting_down.splits bool.splits)

lemma run_round_shown:
  assumes "run_round os inp st = Inr (st', sent, acts)" and "names_kept names st"
    and "svc (su_repo st) n = Some sh" and "shown (sh_status sh) t"
    and "SpawnFailed n \<notin> snd ` set (ri_received inp)" and "\<forall>sd. ShuttingDownInitiated sd \<notin> set sent"
  shows "\<exists>sh'. svc (su_repo st') n = Some sh' \<and> shown (sh_status sh') (told n t sent)"
  using assms(1)
proof (cases rule: run_round_cases)
  case (1 produced service_evs)
  from handle_all_shown [OF 1(1), of n sh t] assms(2-6) 1(3)
  obtain sh' where sh': "svc (su_repo st') n = Some sh'" "shown (sh_status sh') (told n t produced)"
    by (auto simp: names_kept_def)
  have "repo_wf (su_repo st')" using run_round_names(1) [OF assms(1,2)] by (simp add: names_kept_def)
  from services_next_shown [OF 1(2) this sh'] sh'(1) show ?thesis
    by (simp add: 1(3) told_known reaper_announces_nothing sigterm_announces_nothing)
qed

section \<open>The invariant of the system\<close>

definition no_shutdown :: "event list \<Rightarrow> bool" where
  "no_shutdown evs \<longleftrightarrow> (\<forall>sd. ShuttingDownInitiated sd \<notin> set evs)"

lemma no_shutdown_append [simp]: "no_shutdown (xs @ ys) \<longleftrightarrow> no_shutdown xs \<and> no_shutdown ys"
  by (auto simp: no_shutdown_def)

definition system_inv :: "service_name set \<Rightarrow> system \<Rightarrow> bool" where
  "system_inv names sy \<longleftrightarrow>
    names_kept names (sy_sup sy)
    \<and> set (sy_log sy) \<subseteq> known_targets names
    \<and> dom (hm_get (cm_services (sy_cmd sy))) = names
    \<and> (cm_done (sy_cmd sy) \<or> cm_socket_file (sy_cmd sy))
    \<and> (no_shutdown (sy_log sy) \<longrightarrow> \<not> cm_done (sy_cmd sy)
        \<and> (\<forall>n \<in> names. hm_get (cm_services (sy_cmd sy)) n
              = Some (told n Initial (take (sy_cmd_pos sy) (sy_log sy)))))
    \<and> sy_cmd_pos sy \<le> length (sy_log sy)
    \<and> (no_shutdown (sy_log sy) \<longrightarrow> (\<forall>n sh. SpawnFailed n \<notin> set (sy_log sy)
        \<longrightarrow> svc (su_repo (sy_sup sy)) n = Some sh
        \<longrightarrow> shown (sh_status sh) (told n Initial (sy_log sy))))"

lemma commands_events_safe:
  "set evs \<subseteq> known_targets (dom (hm_get (cm_services h))) \<Longrightarrow> cm_socket_file h \<Longrightarrow>
    \<exists>h'. commands_events h evs = Inr h' \<and> dom (hm_get (cm_services h')) = dom (hm_get (cm_services h))
      \<and> (cm_done h' \<or> cm_socket_file h')"
proof (induction h evs rule: commands_events.induct)
  case (2 h m s evs)
  then obtain t where t: "hm_get (cm_services h) m = Some t" by auto
  have "dom (\<lambda>a. if a = m then Some s else hm_get (cm_services h) a) = dom (hm_get (cm_services h))"
    using t by (auto simp: dom_def)
  with 2 t show ?case by auto
qed auto

lemma hm_get_start:
  "hm_get (cm_services (commands_handler_new ns)) n = (if n \<in> set ns then Some Initial else None)"
proof -
  have "map_of (rev (map (\<lambda>s. (s, Initial)) ns)) n = (if n \<in> set ns then Some Initial else None)"
    by (induction ns rule: rev_induct) auto
  then show ?thesis by (simp add: commands_handler_new_def hm_get_collect)
qed

lemma svc_start_status:
  "svc (su_repo (supervisor_new w services)) n = Some sh \<Longrightarrow> sh_status sh = Initial"
  by (auto simp: supervisor_new_def svc_repo_new handler_of_def)

lemma commands_handler_new_simps [simp]:
  "dom (hm_get (cm_services (commands_handler_new ns))) = set ns"
  "cm_socket_file (commands_handler_new ns)" "\<not> cm_done (commands_handler_new ns)"
  by (auto simp: hm_get_start dom_def) (simp_all add: commands_handler_new_def)

lemma system_inv_start: "system_inv (names_of services) (system_start w services)"
  using names_of_start [of services w]
  by (auto simp: system_inv_def system_start_def hm_get_start svc_start_status names_of_def)

lemma thread_event_quiet:
  "thread_event names ev \<Longrightarrow> ev \<in> known_targets names \<and> (\<forall>sd. ev \<noteq> ShuttingDownInitiated sd)
    \<and> (\<forall>m s. ev \<noteq> StatusChanged m s)"
  by (cases ev) (auto simp: known_targets_iff)

lemma thread_events_quiet:
  assumes "list_all (thread_event names) evs"
  shows "set evs \<subseteq> known_targets names" and "no_shutdown evs" and "told n t evs = t"
  using assms thread_event_quiet
  by (fastforce simp: list_all_iff no_shutdown_def intro!: told_known)+

lemma no_shutdown_interleave:
  "no_shutdown (interleave bs xs ys) \<longleftrightarrow> no_shutdown xs \<and> no_shutdown ys"
  by (auto simp: no_shutdown_def interleave_set)

lemma system_inv_grow:
  assumes "system_inv names sy" and "list_all (thread_event names) evs"
  shows "system_inv names (sy\<lparr>sy_mgr := m, sy_mgr_pos := k, sy_log := sy_log sy @ evs\<rparr>)"
  using assms by (auto simp: system_inv_def thread_events_quiet)

lemma system_inv_supervisor_turn:
  assumes inv: "system_inv names sy" and turn: "supervisor_turn os ou sy = Inr sy'"
    and ok: "list_all (thread_event names) (ou_sent ou)"
  shows "system_inv names sy'"
proof -
  from supervisor_turn_Inr [OF turn] obtain sent acts where
    round: "run_round os (round_input_of ou (drop (sy_sup_pos sy) (sy_log sy))) (sy_sup sy)
      = Inr (sy_sup sy', sent, acts)"
    and log: "sy_log sy' = sy_log sy @ interleave (ou_schedule ou) sent (ou_sent ou)"
    and same: "sy_cmd sy' = sy_cmd sy" "sy_cmd_pos sy' = sy_cmd_pos sy" by metis
  from inv have names: "names_kept names (sy_sup sy)" by (simp add: system_inv_def)
  note sent = run_round_names [OF round names]
  have received: "SpawnFailed n \<notin> set (sy_log sy) \<Longrightarrow>
      SpawnFailed n \<notin> snd ` set (ri_received (round_input_of ou (drop (sy_sup_pos sy) (sy_log sy))))" for n
    using received_events [of ou "drop (sy_sup_pos sy) (sy_log sy)"]
    by (metis image_set in_set_dropD in_set_takeD)
  have shown: "shown (sh_status sh') (told n Initial (sy_log sy'))"
    if "no_shutdown (sy_log sy')" "SpawnFailed n \<notin> set (sy_log sy')" "svc (su_repo (sy_sup sy')) n = Some sh'"
    for n sh'
  proof -
    from that(3) sent(1) names obtain sh where sh: "svc (su_repo (sy_sup sy)) n = Some sh"
      by (fastforce simp: names_kept_def)
    with inv that have "shown (sh_status sh) (told n Initial (sy_log sy))"
      by (auto simp: system_inv_def log)
    moreover have "\<forall>sd. ShuttingDownInitiated sd \<notin> set sent"
      using that(1) by (auto simp: log interleave_set no_shutdown_def)
    moreover have "SpawnFailed n \<notin> set (sy_log sy)" using that(2) by (simp add: log)
    ultimately show ?thesis
      using run_round_shown [OF round names sh] received [of n] that(3)
      by (auto simp: log told_interleave [OF ok])
  qed
  have "set (sy_log sy') \<subseteq> known_targets names"
    using inv sent(2) thread_events_quiet(1) [OF ok]
    by (auto simp: system_inv_def log interleave_set)
  moreover have "take (sy_cmd_pos sy) (sy_log sy') = take (sy_cmd_pos sy) (sy_log sy)"
    "sy_cmd_pos sy \<le> length (sy_log sy')"
    "no_shutdown (sy_log sy') \<Longrightarrow> no_shutdown (sy_log sy)"
    using inv by (simp_all add: system_inv_def log)
  ultimately show ?thesis
    using inv sent(1) shown unfolding system_inv_def same by metis
qed

lemma system_inv_commands_turn:
  assumes inv: "system_inv names sy"
  shows "\<exists>sy'. commands_turn d sy = Inr sy' \<and> system_inv names sy' \<and> sy_sup sy' = sy_sup sy
    \<and> sy_log sy' = sy_log sy \<and> sy_cmd_pos sy' = (if cm_done (sy_cmd sy) then sy_cmd_pos sy
        else min (sy_cmd_pos sy + d) (length (sy_log sy)))"
proof (cases "cm_done (sy_cmd sy)")
  case True
  with inv show ?thesis by (simp add: commands_turn_def)
next
  case False
  let ?evs = "take d (drop (sy_cmd_pos sy) (sy_log sy))"
  let ?pos = "min (sy_cmd_pos sy + d) (length (sy_log sy))"
  have evs: "set ?evs \<subseteq> set (sy_log sy)" by (meson set_drop_subset set_take_subset subset_trans)
  from inv have names: "set (sy_log sy) \<subseteq> known_targets names" "dom (hm_get (cm_services (sy_cmd sy))) = names"
    by (simp_all add: system_inv_def)
  from inv evs False obtain h' where h': "commands_events (sy_cmd sy) ?evs = Inr h'"
    "dom (hm_get (cm_services h')) = names" "cm_done h' \<or> cm_socket_file h'"
    using commands_events_safe [of ?evs "sy_cmd sy"] by (fastforce simp: system_inv_def)
  have pos: "take ?pos (sy_log sy) = take (sy_cmd_pos sy) (sy_log sy) @ ?evs"
    by (simp add: take_add min_def)
  have quiet: "\<not> cm_done h' \<and> (\<forall>n \<in> names. hm_get (cm_services h') n = Some (told n Initial (take ?pos (sy_log sy))))"
    if ns: "no_shutdown (sy_log sy)"
  proof -
    have "n \<in> dom (hm_get (cm_services (sy_cmd sy)))" if "StatusChanged n s \<in> set ?evs" for n s
      using that evs names by (metis known_StatusChanged subsetD)
    then have "\<forall>n s. StatusChanged n s \<in> set ?evs \<longrightarrow> hm_get (cm_services (sy_cmd sy)) n \<noteq> None" by blast
    moreover have "\<forall>sd. ShuttingDownInitiated sd \<notin> set ?evs" using ns evs by (auto simp: no_shutdown_def)
    ultimately obtain "\<not> cm_done h'"
      "\<And>n. hm_get (cm_services h') n = map_option (\<lambda>t. told n t ?evs) (hm_get (cm_services (sy_cmd sy)) n)"
      using commands_events_told [of ?evs "sy_cmd sy"] h'(1) False by auto
    moreover have "\<forall>n \<in> names. hm_get (cm_services (sy_cmd sy)) n
        = Some (told n Initial (take (sy_cmd_pos sy) (sy_log sy)))"
      using inv ns by (simp add: system_inv_def)
    ultimately show ?thesis unfolding pos by simp
  qed
  have "commands_turn d sy = Inr (sy\<lparr>sy_cmd := h', sy_cmd_pos := ?pos\<rparr>)"
    using h'(1) False by (simp add: commands_turn_def)
  moreover have "system_inv names (sy\<lparr>sy_cmd := h', sy_cmd_pos := ?pos\<rparr>)"
    using inv h'(2,3) quiet by (simp add: system_inv_def)
  ultimately show ?thesis using False by simp
qed

lemma manager_step_total:
  assumes "ev \<in> known_targets (names_of services)"
  shows "\<exists>m' sent acts. manager_step services m ev = Inr (m', sent, acts)
    \<and> list_all (thread_event (names_of services)) sent"
proof (cases "\<exists>n. ev = StatusChanged n Started")
  case True
  then obtain n where ev: "ev = StatusChanged n Started" by blast
  with assms obtain s where "find (\<lambda>s. sv_name s = n) services = Some s"
    by (cases "find (\<lambda>s. sv_name s = n) services") (auto simp: names_of_def find_None_iff)
  moreover have "n \<in> names_of services" using assms ev by simp
  ultimately show ?thesis by (simp add: ev get_service_def)
next
  case False
  then show ?thesis by (cases "(services, m, ev)" rule: manager_step.cases) auto
qed

lemma system_inv_manager_turn:
  assumes inv: "system_inv (names_of services) sy"
  shows "\<exists>sy'. manager_turn services sy = Inr sy' \<and> system_inv (names_of services) sy'"
proof (cases "drop (sy_mgr_pos sy) (sy_log sy)")
  case Nil
  with inv show ?thesis by (simp add: manager_turn_def)
next
  case (Cons ev rest)
  then have "ev \<in> set (sy_log sy)" by (metis list.set_intros(1) in_set_dropD)
  with inv have "ev \<in> known_targets (names_of services)" by (auto simp: system_inv_def)
  from manager_step_total [OF this, of "sy_mgr sy"] system_inv_grow [OF inv] inv show ?thesis
    by (auto simp: manager_turn_def Cons)
qed

lemma system_inv_turn:
  assumes "system_inv (names_of services) sy" and "turn_ok (names_of services) t" and "system_turn os services t sy = Inr sy'"
  shows "system_inv (names_of services) sy'"
proof (cases t)
  case (SupervisorTurn ou)
  with assms show ?thesis by (auto intro: system_inv_supervisor_turn)
next
  case (CommandsTurn d)
  with assms system_inv_commands_turn [of "names_of services" sy d] show ?thesis by auto
next
  case ManagerTurn
  with assms system_inv_manager_turn [of services sy] show ?thesis by auto
next
  case (ThreadSends ev)
  with assms system_inv_grow [where evs = "[ev]" and m = "sy_mgr sy" and k = "sy_mgr_pos sy" and sy = sy] show ?thesis
    by auto
qed

lemma system_reaches_inv: "system_reaches os w services sy \<Longrightarrow> system_inv (names_of services) sy"
  by (induction rule: system_reaches.induct) (auto intro: system_inv_start system_inv_turn)

section \<open>Names and positions\<close>

text \<open>What the threads hold and what is on the bus is of the configured services, and no connector is past the end.\<close>

definition system_typed :: "service_name set \<Rightarrow> system \<Rightarrow> bool" where
  "system_typed names sy \<longleftrightarrow>
    (\<forall>e \<in> set (sy_log sy). \<forall>n. event_target e = Some n \<longrightarrow> n \<in> names)
    \<and> dom (svc (su_repo (sy_sup sy))) = names
    \<and> (\<forall>n sh. svc (su_repo (sy_sup sy)) n = Some sh \<longrightarrow> sh_name sh = n)
    \<and> (\<forall>p n. get_service_by_pid (su_repo (sy_sup sy)) p = Some n \<longrightarrow> n \<in> names)
    \<and> dom (hm_get (cm_services (sy_cmd sy))) = names
    \<and> dom (hm_get (mg_workers (sy_mgr sy))) \<subseteq> names
    \<and> sy_sup_pos sy \<le> length (sy_log sy) \<and> sy_cmd_pos sy \<le> length (sy_log sy) \<and> sy_mgr_pos sy \<le> length (sy_log sy)"

lemma manager_step_workers:
  assumes "manager_step services m ev = Inr (m', sent, acts)" and "dom (hm_get (mg_workers m)) \<subseteq> names_of services"
  shows "dom (hm_get (mg_workers m')) \<subseteq> names_of services"
  using assms
  by (cases "(services, m, ev)" rule: manager_step.cases)
    (auto simp: get_service_def names_of_def dom_def subset_iff find_Some_iff split: if_splits)

lemma workers_known:
  "system_reaches os w services sy \<Longrightarrow> dom (hm_get (mg_workers (sy_mgr sy))) \<subseteq> names_of services
    \<and> sy_sup_pos sy \<le> length (sy_log sy) \<and> sy_mgr_pos sy \<le> length (sy_log sy)"
proof (induction rule: system_reaches.induct)
  case start
  then show ?case by (simp add: system_start_def manager_init_def)
next
  case (turn sy t sy')
  show ?case
  proof (cases t)
    case ManagerTurn
    with turn show ?thesis
      by (auto simp: manager_turn_def dest!: manager_step_workers split: list.splits if_splits)
        (metis Suc_leI drop_all list.distinct(1) not_le trans_le_add1)+
  qed (use turn in \<open>auto simp: supervisor_turn_def commands_turn_def min_def split: if_splits\<close>)
qed

section \<open>Properties\<close>



text \<open>
  C22. The running system is well typed: in every state the threads reach, each event ever put on the
  bus names a configured service, the supervisor and the commands handler hold exactly the configured
  services, each under its name, the pid table and the health workers belong to some of them, and no
  connector has read past the end of the bus.
\<close>

theorem system_well_typed:
  assumes "system_reaches os w services sy"
  shows "system_typed (names_of services) sy"
  using system_reaches_inv [OF assms] workers_known [OF assms]
  by (auto simp: system_typed_def system_inv_def names_kept_def known_targets_iff repo_wf_name)

theorem system_well_typed_witness:
  "system_typed {''a''} (system_start ex_world [ex_service ''a''])"
  using system_well_typed [OF system_reaches.start [of ex_os ex_world "[ex_service ''a'']"]] by (simp add: names_of_def)

text \<open>
  What \<open>horustctl\<close> shows is true, up to the delay of the bus: before a shutdown, once the commands
  handler has read what was sent, it answers with the status the supervisor holds, except that a
  service still being killed may already be called \<open>Failed\<close>. A service with a failed spawn is
  excepted: its status is changed in silence.
\<close>

lemma status_shown_is_true:
  assumes "system_reaches os w services sy" and "svc (su_repo (sy_sup sy)) n = Some sh"
    and "SpawnFailed n \<notin> set (sy_log sy)" and "\<forall>sd. ShuttingDownInitiated sd \<notin> set (sy_log sy)"
    and "length (sy_log sy) \<le> sy_cmd_pos sy + d"
  shows "\<exists>sy' s. system_turn os services (CommandsTurn d) sy = Inr sy'
    \<and> get_service_status (sy_cmd sy') n = Inr (from_service_status s)
    \<and> (s = sh_status sh \<or> sh_status sh = InKilling \<and> s = Failed)"
proof -
  let ?names = "names_of services"
  from system_reaches_inv [OF assms(1)] have inv: "system_inv ?names sy" .
  from system_inv_commands_turn [OF inv, of d] obtain sy' where
    turn: "commands_turn d sy = Inr sy'" and inv': "system_inv ?names sy'"
    and same: "sy_sup sy' = sy_sup sy" "sy_log sy' = sy_log sy"
    and pos: "sy_cmd_pos sy' = (if cm_done (sy_cmd sy) then sy_cmd_pos sy
        else min (sy_cmd_pos sy + d) (length (sy_log sy)))" by blast
  have ns: "no_shutdown (sy_log sy)" using assms(4) by (simp add: no_shutdown_def)
  have "n \<in> ?names" using inv assms(2) by (auto simp: system_inv_def names_kept_def)
  moreover have "sy_cmd_pos sy' = length (sy_log sy)"
    using inv ns assms(5) by (simp add: pos system_inv_def)
  ultimately have "hm_get (cm_services (sy_cmd sy')) n = Some (told n Initial (sy_log sy))"
    using inv' ns by (simp add: system_inv_def same)
  moreover have "shown (sh_status sh) (told n Initial (sy_log sy))"
    using inv ns assms(2,3) by (simp add: system_inv_def)
  ultimately show ?thesis
    using turn by (auto simp: get_service_status_def shown_def)
qed

end
