(* ===== verification/Drain.thy ===== *)
theory Drain
  imports Closed_Loop
begin

text \<open>
  A shutdown under way: the events that then go over the bus only take services down. Every such
  event lowers the rank of its target's status or leaves it, and the event a round sends for an
  unfinished service lowers it when it arrives. So the ranks go to zero, and the loop ends.
\<close>

section \<open>Events of a shutdown\<close>

fun drains :: "shutting_down \<Rightarrow> event \<Rightarrow> bool" where
  "drains sd (StatusUpdate n r) \<longleftrightarrow> r = InKilling \<or> r = Finished \<or> r = FinishedFailed"
| "drains sd (ShuttingDownInitiated sd') \<longleftrightarrow> sd' = sd"
| "drains sd (Run n) \<longleftrightarrow> False"
| "drains sd (SpawnFailed n) \<longleftrightarrow> False"
| "drains sd (PidChanged n p) \<longleftrightarrow> False"
| "drains sd (Kill n) \<longleftrightarrow> True"
| "drains sd (ForceKill n) \<longleftrightarrow> True"
| "drains sd (ServiceExited n c) \<longleftrightarrow> True"
| "drains sd (HealthCheck n h) \<longleftrightarrow> True"
| "drains sd (StatusChanged n s) \<longleftrightarrow> True"

fun srank :: "service_status \<Rightarrow> nat" where
  "srank Starting = 7" | "srank Started = 6" | "srank Running = 5" | "srank InKilling = 4"
| "srank Failed = 3" | "srank Initial = 2" | "srank Success = 1" | "srank Finished = 0"
| "srank FinishedFailed = 0"

definition status_of :: "supervisor \<Rightarrow> service_name \<Rightarrow> service_status option" where
  "status_of st n = map_option sh_status (svc (su_repo st) n)"

definition rank_of :: "supervisor \<Rightarrow> service_name \<Rightarrow> nat" where
  "rank_of st n = (case status_of st n of None \<Rightarrow> 0 | Some s \<Rightarrow> srank s)"

text \<open>No service waits for a process that was never reported.\<close>

definition settled :: "supervisor \<Rightarrow> bool" where
  "settled st \<longleftrightarrow> (\<forall>n sh. svc (su_repo st) n = Some sh \<longrightarrow>
    sh_status sh \<noteq> Starting
    \<and> (sh_status sh \<in> {Started, Running, InKilling} \<longrightarrow> sh_pid sh \<noteq> None))"

lemma srank_zero: "srank s = 0 \<longleftrightarrow> s = Finished \<or> s = FinishedFailed"
  by (cases s) simp_all

lemma srank_inj: "srank s = srank t \<Longrightarrow> srank s \<noteq> 0 \<Longrightarrow> s = t"
  by (cases s; cases t) simp_all

lemma accepts_down: "accepts s r t \<Longrightarrow> r \<noteq> Initial \<Longrightarrow> r \<noteq> Starting \<Longrightarrow> r \<noteq> Started \<Longrightarrow> srank t < srank s"
  by (auto elim!: accepts.cases)

lemma moves_down:
  assumes "moves ev n s t" and "drains sd ev"
  shows "srank t < srank s"
  using assms by (cases rule: moves.cases) (auto intro: accepts_down)

lemma rank_of_event:
  assumes "handle_event os now st ev = Inr (st', out, acts)" and "drains sd ev"
  shows "rank_of st' n \<le> rank_of st n"
proof (cases "svc (su_repo st) n")
  case None
  then have "svc (su_repo st') n = None"
    using handle_event_after [OF assms(1), unfolded svc_after_def, rule_format, of n] by simp
  then show ?thesis by (simp add: rank_of_def status_of_def)
next
  case (Some sh)
  from handle_event_svc [OF assms(1) this] obtain sh' where "svc (su_repo st') n = Some sh'"
    "sh_status sh' = sh_status sh \<or> moves ev n (sh_status sh) (sh_status sh')" by blast
  with Some moves_down [OF _ assms(2)] show ?thesis by (auto simp: rank_of_def status_of_def intro: less_imp_le)
qed

lemma drained_output:
  assumes "handle_event os now st ev = Inr (st', out, acts)" and "drains sd ev"
  shows "\<forall>e \<in> set out. \<exists>n s. e = StatusChanged n s"
  using assms by (elim handle_eventE; (elim handler_elims)?; auto)

lemma drained_lifecycle:
  assumes "handle_event os now st ev = Inr (st', out, acts)" and "drains sd ev"
    and "su_status st = ShuttingDown sd"
  shows "su_status st' = ShuttingDown sd"
  using assms by (elim handle_eventE; (elim handler_elims)?; auto)

lemma drained_pid:
  assumes "handle_event os now st ev = Inr (st', out, acts)" and "drains sd ev"
  shows "pid_of (su_repo st') n = (if \<exists>c. ev = ServiceExited n c then None else pid_of (su_repo st) n)"
  using assms
  by (elim handle_eventE; (elim handler_elims)?;
      auto simp: pid_of_def frame_simps shutting_down_started_def)

lemma exited_status:
  assumes "handle_event os now st (ServiceExited n c) = Inr (st', out, acts)"
    and "svc (su_repo st') n = Some sh'"
  shows "sh_status sh' \<notin> {Starting, Started, Running, InKilling}"
proof -
  from assms(1) obtain sh sh2 where "svc (su_repo st') n = Some (fst (change_status sh2 (exit_request sh2 c)))"
    by (auto elim!: on_service_exited_cases)
  with assms(2) have sh': "sh' = fst (change_status sh2 (exit_request sh2 c))" by simp
  have "exit_request sh2 c = Success \<or> exit_request sh2 c = Failed" by (simp add: exit_request_def Let_def)
  with sh' show ?thesis
    by (cases "sh_status sh2")
      (auto simp: change_status_def handle_status_change_eq Let_def transition_valid_def allowed_transitions_def)
qed

lemma moves_alive:
  "moves ev n s t \<Longrightarrow> drains sd ev \<Longrightarrow> s \<noteq> Starting \<Longrightarrow> t \<noteq> Starting
    \<and> (t \<in> {Started, Running, InKilling} \<longrightarrow> s \<in> {Started, Running, InKilling})"
  by (elim moves.cases) (auto elim!: accepts.cases)

lemma drained_settled:
  assumes "handle_event os now st ev = Inr (st', out, acts)" and "drains sd ev" and "settled st"
  shows "settled st'"
  unfolding settled_def
proof (intro allI impI)
  fix n sh' assume sh': "svc (su_repo st') n = Some sh'"
  with handle_event_after [OF assms(1), unfolded svc_after_def, rule_format, of n]
  obtain sh where sh: "svc (su_repo st) n = Some sh"
    and m: "sh_status sh' = sh_status sh \<or> moves ev n (sh_status sh) (sh_status sh')"
    by (auto split: option.splits)
  from assms(3) sh have s: "sh_status sh \<noteq> Starting"
    and p: "sh_status sh \<in> {Started, Running, InKilling} \<longrightarrow> sh_pid sh \<noteq> None"
    by (auto simp: settled_def)
  have a: "sh_status sh' \<noteq> Starting
      \<and> (sh_status sh' \<in> {Started, Running, InKilling} \<longrightarrow> sh_status sh \<in> {Started, Running, InKilling})"
    using m moves_alive [OF _ assms(2) s] s by auto
  show "sh_status sh' \<noteq> Starting \<and> (sh_status sh' \<in> {Started, Running, InKilling} \<longrightarrow> sh_pid sh' \<noteq> None)"
  proof (cases "\<exists>c. ev = ServiceExited n c")
    case True
    with assms(1) exited_status sh' show ?thesis by blast
  next
    case False
    with drained_pid [OF assms(1,2), of n] sh sh' have "sh_pid sh' = sh_pid sh" by (simp add: pid_of_def)
    with a p show ?thesis by auto
  qed
qed

section \<open>Handling the events of a shutdown\<close>

fun exit_of :: "event \<Rightarrow> service_name list" where
  "exit_of (ServiceExited n c) = [n]"
| "exit_of _ = []"

definition exits :: "event list \<Rightarrow> service_name list" where
  "exits evs = concat (map exit_of evs)"

lemma exit_of_mem: "n \<in> set (exit_of e) \<longleftrightarrow> (\<exists>c. e = ServiceExited n c)"
  by (cases e) auto

lemma exits_simps [simp]: "exits [] = []" "exits (e # evs) = exit_of e @ exits evs"
  "exits (evs @ evs') = exits evs @ exits evs'"
  by (simp_all add: exits_def)

fun drain_target :: "event \<Rightarrow> service_name option" where
  "drain_target (StatusUpdate n r) = Some n" | "drain_target (Kill n) = Some n"
| "drain_target (ForceKill n) = Some n" | "drain_target (ServiceExited n c) = Some n"
| "drain_target (HealthCheck n h) = Some n" | "drain_target e = None"

text \<open>Events that can be handled one after the other: each exit is of a service with a process, once.\<close>

definition drainable :: "shutting_down \<Rightarrow> supervisor \<Rightarrow> event list \<Rightarrow> bool" where
  "drainable sd st evs \<longleftrightarrow>
    (\<forall>e \<in> set evs. drains sd e \<and> (\<forall>n. drain_target e = Some n \<longrightarrow> svc (su_repo st) n \<noteq> None))
    \<and> distinct (exits evs) \<and> (\<forall>n \<in> set (exits evs). pid_of (su_repo st) n \<noteq> None)"

definition draining :: "shutting_down \<Rightarrow> supervisor \<Rightarrow> bool" where
  "draining sd st \<longleftrightarrow> sup_wf st \<and> settled st \<and> pids_agree (su_repo st)
    \<and> su_status st = ShuttingDown sd \<and> (sd = Gracefully \<longrightarrow> \<not> su_sigterm st)"

lemma draining_event:
  assumes "handle_event os now st ev = Inr (st', out, acts)" and "drains sd ev" and "draining sd st"
  shows "draining sd st'"
proof -
  have "fresh_pid st ev" using assms(2) by (cases ev) auto
  moreover have "su_sigterm st' \<longrightarrow> su_sigterm st"
    using assms(1) by (elim handle_eventE; (elim handler_elims)?; simp)
  ultimately show ?thesis
    using assms handle_event_wf [OF assms(1)] drained_settled [OF assms(1,2)] drained_lifecycle [OF assms(1,2)]
      handle_event_pids [OF assms(1)]
    by (auto simp: draining_def)
qed

lemma event_svc_known:
  assumes "handle_event os now st ev = Inr (st', out, acts)"
  shows "svc (su_repo st') n = None \<longleftrightarrow> svc (su_repo st) n = None"
  using handle_event_after [OF assms, unfolded svc_after_def, rule_format, of n]
  by (auto split: option.splits)

lemma drainable_step:
  assumes "drainable sd st (e # evs)"
  obtains st' out acts where "handle_event os now st e = Inr (st', out, acts)" and "drainable sd st' evs"
proof -
  from assms have e: "drains sd e" and t: "\<forall>n. drain_target e = Some n \<longrightarrow> svc (su_repo st) n \<noteq> None"
    and x: "\<forall>n \<in> set (exits (e # evs)). pid_of (su_repo st) n \<noteq> None" "distinct (exits (e # evs))"
    by (auto simp: drainable_def)
  from e t x have "event_ok os st e" by (cases e) auto
  then have "\<not> isl (handle_event os now st e)" by (simp add: handle_event_panics)
  then obtain st' out acts where h: "handle_event os now st e = Inr (st', out, acts)"
    by (cases "handle_event os now st e") auto
  moreover have "drainable sd st' evs"
    using assms drained_pid [OF h e] event_svc_known [OF h]
    by (auto simp: drainable_def exit_of_mem)
  ultimately show ?thesis by (rule that)
qed

lemma handle_all_Nil: "handle_all os st [] = Inr (st, [], [])"
  by (simp add: handle_all_def)

lemma handle_all_Cons:
  "handle_all os st (te # tes) = Inr (st', out, acts) \<longleftrightarrow>
    (\<exists>st1 out1 acts1 out2 acts2. handle_event os (fst te) st (snd te) = Inr (st1, out1, acts1)
      \<and> handle_all os st1 tes = Inr (st', out2, acts2) \<and> out = out1 @ out2 \<and> acts = acts1 @ acts2)"
  by (auto simp: handle_all_def timed_step_def)

lemma drain_all:
  assumes "drainable sd st (map snd tes)" and "draining sd st"
  shows "\<exists>st' out acts. handle_all os st tes = Inr (st', out, acts) \<and> draining sd st'
    \<and> (\<forall>e \<in> set out. \<exists>n s. e = StatusChanged n s)
    \<and> (\<forall>n. rank_of st' n \<le> rank_of st n)
    \<and> (\<forall>n. svc (su_repo st') n = None \<longleftrightarrow> svc (su_repo st) n = None)
    \<and> (\<forall>n. pid_of (su_repo st') n = (if n \<in> set (exits (map snd tes)) then None else pid_of (su_repo st) n))"
  using assms
proof (induction tes arbitrary: st)
  case Nil
  then show ?case by (simp add: handle_all_Nil)
next
  case (Cons te tes)
  from Cons.prems(1) obtain st1 out1 acts1 where h: "handle_event os (fst te) st (snd te) = Inr (st1, out1, acts1)"
    and d1: "drainable sd st1 (map snd tes)" by (auto elim: drainable_step [of sd st "snd te" "map snd tes" os "fst te"])
  from Cons.prems(1) have e: "drains sd (snd te)" by (simp add: drainable_def)
  from Cons.prems(2) have "draining sd st1"
    by (rule draining_event [OF h e])
  from Cons.IH [OF d1 this] obtain st' out2 acts2 where r: "handle_all os st1 tes = Inr (st', out2, acts2)"
    "draining sd st'" "\<forall>e \<in> set out2. \<exists>n s. e = StatusChanged n s" "\<forall>n. rank_of st' n \<le> rank_of st1 n"
    "\<forall>n. svc (su_repo st') n = None \<longleftrightarrow> svc (su_repo st1) n = None"
    "\<forall>n. pid_of (su_repo st') n = (if n \<in> set (exits (map snd tes)) then None else pid_of (su_repo st1) n)"
    by blast
  have "handle_all os st (te # tes) = Inr (st', out1 @ out2, acts1 @ acts2)"
    using h r(1) by (auto simp: handle_all_Cons)
  moreover have "pid_of (su_repo st') n
      = (if n \<in> set (exits (map snd (te # tes))) then None else pid_of (su_repo st) n)" for n
    using r(6) drained_pid [OF h e, of n] by (auto simp: exit_of_mem)
  ultimately show ?case
    using r(2,3,4,5) drained_output [OF h e] rank_of_event [OF h e] event_svc_known [OF h]
    by (auto intro: order_trans)
qed

section \<open>Events that take a service down\<close>

definition takes_down :: "event \<Rightarrow> service_name \<Rightarrow> service_status \<Rightarrow> bool" where
  "takes_down e n s \<longleftrightarrow> (\<exists>r t. e = StatusUpdate n r \<and> accepts s r t) \<or> (e = ForceKill n \<and> s = InKilling)"

lemma change_status_accepted: "accepts (sh_status sh) r t \<Longrightarrow> snd (change_status sh r) = t"
  by (simp add: change_status_def handle_status_change_eq Let_def accepts_iff)

lemma takes_down_event:
  assumes "handle_event os now st e = Inr (st', out, acts)" and "takes_down e n s" and "drains sd e"
    and "status_of st n = Some s"
  shows "rank_of st' n < srank s"
proof -
  from assms(4) obtain sh where sh: "svc (su_repo st) n = Some sh" "sh_status sh = s"
    by (auto simp: status_of_def)
  from assms(2) show ?thesis unfolding takes_down_def
  proof (elim disjE exE conjE)
    fix r t assume e: "e = StatusUpdate n r" and a: "accepts s r t"
    with sh have "snd (change_status sh r) = t" "t \<noteq> s"
      using change_status_accepted [of sh r t] accepts_changes [OF a] by auto
    with assms(1) e sh have "svc (su_repo st') n = Some (fst (change_status sh r))"
      by (auto elim!: on_status_update_cases)
    then have "rank_of st' n = srank t"
      using \<open>snd (change_status sh r) = t\<close> by (simp add: rank_of_def status_of_def)
    moreover have "srank t < srank s" using assms(3) e by (intro accepts_down [OF a]) auto
    ultimately show ?thesis by simp
  next
    assume "e = ForceKill n" "s = InKilling"
    with assms(1) sh show ?thesis
      by (auto simp: rank_of_def status_of_def elim!: on_force_kill_cases)
  qed
qed

lemma takes_down_ranked: "takes_down e n s \<Longrightarrow> drains sd e \<Longrightarrow> srank s \<noteq> 0"
  by (auto simp: takes_down_def dest!: accepts_down)

lemma rank_of_all:
  assumes "handle_all os st tes = Inr (st', out, acts)" and "\<forall>e \<in> set (map snd tes). drains sd e"
  shows "rank_of st' n \<le> rank_of st n"
  using assms
proof (induction tes arbitrary: st out acts)
  case Nil
  then show ?case by (simp add: handle_all_Nil)
next
  case (Cons te tes)
  from Cons.prems(1) obtain st1 out1 acts1 out2 acts2
    where h: "handle_event os (fst te) st (snd te) = Inr (st1, out1, acts1)"
      and r: "handle_all os st1 tes = Inr (st', out2, acts2)" by (auto simp: handle_all_Cons)
  from Cons.IH [OF r] rank_of_event [OF h, of sd n] Cons.prems(2) show ?case by auto
qed

lemma takes_down_all:
  assumes "handle_all os st tes = Inr (st', out, acts)" and "\<forall>e \<in> set (map snd tes). drains sd e"
    and "e \<in> set (map snd tes)" and "takes_down e n s" and "status_of st n = Some s"
  shows "rank_of st' n < srank s"
  using assms
proof (induction tes arbitrary: st out acts)
  case Nil
  then show ?case by simp
next
  case (Cons te tes)
  from Cons.prems(1) obtain st1 out1 acts1 out2 acts2
    where h: "handle_event os (fst te) st (snd te) = Inr (st1, out1, acts1)"
      and r: "handle_all os st1 tes = Inr (st', out2, acts2)" by (auto simp: handle_all_Cons)
  from rank_of_all [OF r, of sd n] Cons.prems(2) have rest: "rank_of st' n \<le> rank_of st1 n" by simp
  show ?case
  proof (cases "snd te = e")
    case True
    with takes_down_event [OF h] rest Cons.prems show ?thesis by fastforce
  next
    case False
    have le: "rank_of st1 n \<le> srank s"
      using rank_of_event [OF h, of sd n] Cons.prems(2,5) by (simp add: rank_of_def)
    show ?thesis
    proof (cases "rank_of st1 n = srank s")
      case True
      moreover have "srank s \<noteq> 0" using takes_down_ranked Cons.prems by blast
      ultimately have "status_of st1 n = Some s"
        by (auto simp: rank_of_def intro!: srank_inj split: option.splits)
      with Cons.IH [OF r] Cons.prems False show ?thesis by auto
    next
      case False
      with le rest show ?thesis by simp
    qed
  qed
qed

end
