(* ===== verification/Shutdown_Round.thy ===== *)
theory Shutdown_Round
  imports Drain
begin

text \<open>
  One round of a shutdown under way, in the closed loop: what the outside may do, the invariant of the
  pending events, and the lemma that a round is completed and keeps it.
\<close>

section \<open>The outside of a shutdown\<close>

definition reports :: "wait_status \<Rightarrow> pid \<Rightarrow> bool" where
  "reports w p \<longleftrightarrow> (\<exists>c. w = Exited p c) \<or> w = Signaled p"

text \<open>
  What the outside may do: the operating system reports the end of a process once, other threads send
  the results of health checks of known services, and no signal turns a graceful shutdown forceful.
\<close>

definition reaped_once :: "(nat \<Rightarrow> outside) \<Rightarrow> bool" where
  "reaped_once ous \<longleftrightarrow> (\<forall>k l i j p. reports (ou_waitpid (ous k) i) p \<longrightarrow> reports (ou_waitpid (ous l) j) p
    \<longrightarrow> k = l \<and> i = j)"

definition calm :: "shutting_down \<Rightarrow> supervisor \<Rightarrow> outside \<Rightarrow> bool" where
  "calm sd st ou \<longleftrightarrow> (sd = Gracefully \<longrightarrow> \<not> ou_signal ou)
    \<and> (\<forall>e \<in> set (ou_sent ou). \<exists>n h. e = HealthCheck n h \<and> svc (su_repo st) n \<noteq> None)"

text \<open>The processes whose exit is pending are not reported again.\<close>

definition exits_fresh :: "(nat \<Rightarrow> outside) \<Rightarrow> nat \<Rightarrow> config \<Rightarrow> bool" where
  "exits_fresh ous k c \<longleftrightarrow> (\<forall>n \<in> set (exits (snd c)). \<forall>p. pid_of (su_repo (fst c)) n = Some p
    \<longrightarrow> (\<forall>l\<ge>k. \<forall>i. \<not> reports (ou_waitpid (ous l) i) p))"

lemma exits_reaper:
  "exits (reaper_run w repo m) = map fst (List.map_filter (\<lambda>i. reap_one repo (w i)) [0..<m])"
  by (induction m) (auto simp: reaper_run_def List.map_filter_def exits_def new_service_exited_def)

lemma reap_one_reports:
  "reap_one repo w = Some (n, c) \<Longrightarrow> \<exists>p. get_service_by_pid repo p = Some n \<and> reports w p"
  by (cases w) (auto simp: reports_def)

lemma exits_reaper_mem:
  assumes "n \<in> set (exits (reaper_run w repo m))"
  shows "\<exists>i p. get_service_by_pid repo p = Some n \<and> reports (w i) p"
  using assms reap_one_reports by (fastforce simp: exits_reaper List.map_filter_def)

lemma exits_reaper_distinct:
  assumes "pids_agree repo" and "\<And>i j p. reports (w i) p \<Longrightarrow> reports (w j) p \<Longrightarrow> i = j"
  shows "distinct (exits (reaper_run w repo m))"
proof (induction m)
  case 0
  then show ?case by (simp add: reaper_run_def List.map_filter_def)
next
  case (Suc m)
  show ?case
  proof (cases "reap_one repo (w m)")
    case None
    with Suc show ?thesis by (simp add: exits_reaper List.map_filter_def)
  next
    case (Some nc)
    then obtain n c p where nc: "nc = (n, c)" and p: "get_service_by_pid repo p = Some n" "reports (w m) p"
      using reap_one_reports by (cases nc) blast
    have "n \<notin> set (exits (reaper_run w repo m))"
    proof
      assume "n \<in> set (exits (reaper_run w repo m))"
      then obtain i c' where i: "i < m" "reap_one repo (w i) = Some (n, c')"
        by (auto simp: exits_reaper List.map_filter_def)
      from reap_one_reports [OF i(2)] obtain q where q: "get_service_by_pid repo q = Some n" "reports (w i) q"
        by blast
      with p assms(1) have "q = p" by (simp add: pids_agree_iff)
      with assms(2) p q i(1) show False by blast
    qed
    with Suc Some nc show ?thesis by (simp add: exits_reaper List.map_filter_def)
  qed
qed

section \<open>A stop request is followed by its signal\<close>

text \<open>
  In the events of a round, a status update to \<open>InKilling\<close> comes with a \<open>Kill\<close> behind it. So a service
  that is being killed has the time of its signal noted, or the signal is still pending: without one
  of them a graceful shutdown would wait for it forever.
\<close>

fun kills_follow :: "event list \<Rightarrow> bool" where
  "kills_follow [] \<longleftrightarrow> True"
| "kills_follow (StatusUpdate n InKilling # q) \<longleftrightarrow> Kill n \<in> set q \<and> kills_follow q"
| "kills_follow (e # q) \<longleftrightarrow> kills_follow q"

definition stop_noted :: "supervisor \<Rightarrow> event list \<Rightarrow> bool" where
  "stop_noted st q \<longleftrightarrow> kills_follow q \<and> (\<forall>n sh. svc (su_repo st) n = Some sh \<longrightarrow> sh_status sh = InKilling
    \<longrightarrow> sh_shutting_down_start sh \<noteq> None \<or> Kill n \<in> set q)"

lemma kills_follow_Cons:
  "kills_follow (e # q) \<longleftrightarrow> (\<forall>n. e = StatusUpdate n InKilling \<longrightarrow> Kill n \<in> set q) \<and> kills_follow q"
proof (cases e)
  case (StatusUpdate n r)
  then show ?thesis by (cases r) auto
qed auto

lemma kills_follow_append: "kills_follow xs \<Longrightarrow> kills_follow ys \<Longrightarrow> kills_follow (xs @ ys)"
  by (induction xs) (auto simp: kills_follow_Cons simp del: kills_follow.simps)

lemma kills_follow_none: "\<forall>e \<in> set xs. \<forall>n. e \<noteq> StatusUpdate n InKilling \<Longrightarrow> kills_follow xs"
  by (induction xs) (auto simp: kills_follow_Cons simp del: kills_follow.simps(2,3))

lemma kills_follow_interleave:
  assumes "kills_follow xs" and "\<forall>e \<in> set ys. \<forall>n. e \<noteq> StatusUpdate n InKilling"
  shows "kills_follow (interleave bs xs ys)"
  using assms
  by (induction bs xs ys rule: interleave.induct)
    (auto simp: kills_follow_Cons interleave_set simp del: kills_follow.simps(2,3)
      intro!: kills_follow_append [OF _ kills_follow_none])

lemma kills_follow_next:
  assumes "services_next clock st = Inr evs" and "su_status st = ShuttingDown sd"
  shows "kills_follow evs"
proof -
  have one: "kills_follow es" if "next_events_shutting_down now sh sd repo = Inr es" for now sh repo es
    using that by (cases "sh_status sh") (auto simp: next_events_shutting_down_def Let_def split: if_splits)
  have "flat_map_res f xs = Inr es \<Longrightarrow> (\<And>x ys. f x = Inr ys \<Longrightarrow> kills_follow ys) \<Longrightarrow> kills_follow es"
    for f :: "service_name \<times> service_handler \<Rightarrow> event list res" and xs es
    by (induction xs arbitrary: es) (auto intro!: kills_follow_append)
  from this [OF assms(1) [unfolded services_next_def]] one show ?thesis
    by (auto simp: next_evs_def assms(2))
qed

lemma finish_not_in_killing [simp]:
  "snd (change_status sh Finished) = InKilling \<longleftrightarrow> sh_status sh = InKilling"
  "snd (change_status sh FinishedFailed) = InKilling \<longleftrightarrow> False"
  by (cases "sh_status sh"; simp add: change_status_def handle_status_change_eq Let_def transition_valid_def
      allowed_transitions_def)+

text \<open>How a service comes to be in \<open>InKilling\<close> after an event, and what that does to the noted time.\<close>

lemma drained_killing:
  assumes "handle_event os now st e = Inr (st', out, acts)" and "drains sd e"
    and "svc (su_repo st') n = Some sh'" and "sh_status sh' = InKilling"
  obtains (asked) "e = StatusUpdate n InKilling"
  | (signalled) sh where "svc (su_repo st) n = Some sh" "sh_status sh = InKilling" "e = Kill n"
      "sh_shutting_down_start sh' = Some now" "sh_pid sh' = sh_pid sh" "sh_service sh' = sh_service sh"
  | (same) sh where "svc (su_repo st) n = Some sh" "sh_status sh = InKilling" "e \<noteq> Kill n"
      "sh_shutting_down_start sh' = sh_shutting_down_start sh" "sh_pid sh' = sh_pid sh"
      "sh_service sh' = sh_service sh"
proof (cases "e = StatusUpdate n InKilling \<or> (\<exists>c. e = ServiceExited n c)")
  case True
  with assms exited_status asked show ?thesis by fastforce
next
  case False
  with assms show ?thesis
    by (elim handle_eventE; (elim handler_elims)?;
        auto simp: shutting_down_started_def frame_simps split: if_splits
          intro: signalled same)
qed

lemma stop_noted_event:
  assumes h: "handle_event os now st e = Inr (st', out, acts)" and d: "drains sd e"
    and noted: "stop_noted st (e # q)"
  shows "stop_noted st' q"
  unfolding stop_noted_def
proof (intro conjI allI impI)
  show "kills_follow q" using noted by (simp add: stop_noted_def kills_follow_Cons del: kills_follow.simps)
next
  fix n sh' assume "svc (su_repo st') n = Some sh'" "sh_status sh' = InKilling"
  with h d show "sh_shutting_down_start sh' \<noteq> None \<or> Kill n \<in> set q"
  proof (cases rule: drained_killing)
    case asked
    with noted show ?thesis by (simp add: stop_noted_def)
  next
    case (same sh)
    with noted show ?thesis by (auto simp: stop_noted_def)
  qed simp
qed

lemma stop_noted_all:
  assumes "handle_all os st tes = Inr (st', out, acts)" and "\<forall>e \<in> set (map snd tes). drains sd e"
    and "stop_noted st (map snd tes @ q)"
  shows "stop_noted st' q"
  using assms
proof (induction tes arbitrary: st out acts)
  case Nil
  then show ?case by (simp add: handle_all_Nil)
next
  case (Cons te tes)
  then show ?case by (auto simp: handle_all_Cons dest: stop_noted_event)
qed

lemma stop_noted_append: "stop_noted st q \<Longrightarrow> kills_follow r \<Longrightarrow> stop_noted st (q @ r)"
  by (auto simp: stop_noted_def kills_follow_append)

section \<open>A round, and the invariant it keeps\<close>

definition drain_inv :: "(nat \<Rightarrow> outside) \<Rightarrow> shutting_down \<Rightarrow> nat \<Rightarrow> config \<Rightarrow> bool" where
  "drain_inv ous sd k c \<longleftrightarrow> draining sd (fst c) \<and> drainable sd (fst c) (snd c) \<and> exits_fresh ous k c
    \<and> (sd = Gracefully \<longrightarrow> stop_noted (fst c) (snd c))"

lemma drainable_take_drop:
  "drainable sd st q \<Longrightarrow> drainable sd st (take d q)"
  unfolding drainable_def using append_take_drop_id [of d q]
  by (metis (no_types, lifting) distinct_append exits_simps(3) in_set_takeD set_append UnI1)

lemma services_next_drains:
  assumes "draining sd st" and "services_next clock st = Inr evs" and "e \<in> set evs"
  shows "drains sd e \<and> (\<forall>n. drain_target e = Some n \<longrightarrow> svc (su_repo st) n \<noteq> None)
    \<and> (\<nexists>n c. e = ServiceExited n c)"
proof -
  from assms(1) have "repo_wf (su_repo st)" by (simp add: draining_def sup_wf_def)
  from services_next_mem [OF assms(2) this, of e] assms(3,1) obtain n sh es where
    n: "svc (su_repo st) n = Some sh" and es: "next_events_shutting_down (clock n) sh sd (su_repo st) = Inr es"
      "e \<in> set es"
    by (auto simp: next_evs_def draining_def)
  have "sh_name sh = n" using repo_wf_name [OF \<open>repo_wf (su_repo st)\<close> n] .
  with next_events_shutting_down_kinds [OF es] n show ?thesis by auto
qed

lemma no_sigterm_sent:
  assumes "draining sd st" and "calm sd st ou"
  shows "sigterm_events (round_start (round_input_of ou q) st) = []"
    "draining sd (round_start (round_input_of ou q) st)"
  using assms
  by (auto simp: sigterm_events_def draining_def calm_def round_start_def handle_sigterm_def sup_wf_def
      settled_def split: lifecycle_status.split shutting_down.split)

lemma exits_interleave:
  "\<forall>y \<in> set ys. exit_of y = [] \<Longrightarrow> exits (interleave bs xs ys) = exits xs"
proof -
  have "exits ys = []" if "\<forall>y \<in> set ys. exit_of y = []" for ys
    using that by (simp add: exits_def)
  then show "\<forall>y \<in> set ys. exit_of y = [] \<Longrightarrow> exits (interleave bs xs ys) = exits xs"
    by (induction bs xs ys rule: interleave.induct) auto
qed

lemma exits_mem: "n \<in> set (exits evs) \<longleftrightarrow> (\<exists>c. ServiceExited n c \<in> set evs)"
  by (force simp: exits_def exit_of_mem)

lemma exits_none: "(\<And>n c. ServiceExited n c \<notin> set evs) \<Longrightarrow> exits evs = []"
  using exits_mem [of _ evs] by (cases "exits evs") auto

lemma exits_take_drop: "exits q = exits (take d q) @ exits (drop d q)"
  by (metis append_take_drop_id exits_simps(3))

text \<open>
  The exits pending after a round: those left over, and those just reaped. They are of services with a
  process, one each, when \<open>waitpid\<close> reports a process once and none whose exit is pending.
\<close>

lemma exits_next:
  assumes agree: "pids_agree (su_repo st')"
    and q: "distinct (exits q)" "\<forall>n \<in> set (exits q). pid_of (su_repo st) n \<noteq> None"
    and once: "\<forall>i j p. reports (w i) p \<longrightarrow> reports (w j) p \<longrightarrow> i = j"
    and fresh: "\<forall>n \<in> set (exits q). \<forall>p i. pid_of (su_repo st) n = Some p \<longrightarrow> \<not> reports (w i) p"
    and pid: "\<forall>n. pid_of (su_repo st) n \<noteq> None \<longrightarrow> n \<notin> set (exits (take d q))
      \<longrightarrow> pid_of (su_repo st') n = pid_of (su_repo st) n"
    and es: "exits rest = exits (reaper_run w (su_repo st') m)"
  shows "distinct (exits (drop d q @ rest))"
    and "\<forall>n \<in> set (exits (drop d q @ rest)). pid_of (su_repo st') n \<noteq> None"
    and "\<And>n. n \<in> set (exits (drop d q)) \<Longrightarrow> n \<in> set (exits q) \<and> pid_of (su_repo st') n = pid_of (su_repo st) n"
    and "\<And>n. n \<in> set (exits rest) \<Longrightarrow> \<exists>i p. pid_of (su_repo st') n = Some p \<and> reports (w i) p"
proof -
  have dist: "distinct (exits (take d q) @ exits (drop d q))" using q(1) by (simp add: exits_take_drop [of q d])
  show old: "n \<in> set (exits q) \<and> pid_of (su_repo st') n = pid_of (su_repo st) n"
    if "n \<in> set (exits (drop d q))" for n
  proof -
    have "n \<in> set (exits q)" "n \<notin> set (exits (take d q))" using that dist by (auto simp: exits_take_drop [of q d])
    with pid q(2) show ?thesis by blast
  qed
  show new: "\<exists>i p. pid_of (su_repo st') n = Some p \<and> reports (w i) p" if "n \<in> set (exits rest)" for n
    using that exits_reaper_mem [of n] agree unfolding es pids_agree_iff by blast
  have "distinct (exits rest)"
    unfolding es using once by (intro exits_reaper_distinct [OF agree]) blast+
  moreover have "n \<notin> set (exits rest)" if "n \<in> set (exits (drop d q))" for n
    using old [OF that] new [of n] fresh by fastforce
  ultimately show "distinct (exits (drop d q @ rest))" using dist by auto
  show "\<forall>n \<in> set (exits (drop d q @ rest)). pid_of (su_repo st') n \<noteq> None"
    using old new q(2) by fastforce
qed

lemma exits_after:
  assumes agree: "pids_agree (su_repo st')" and q: "drainable sd st q" and fresh: "exits_fresh ous k (st, q)"
    and once: "reaped_once ous"
    and pid: "\<forall>n. pid_of (su_repo st) n \<noteq> None \<longrightarrow> n \<notin> set (exits (take d q))
      \<longrightarrow> pid_of (su_repo st') n = pid_of (su_repo st) n"
    and es: "exits rest = exits (reaper_run (ou_waitpid (ous k)) (su_repo st') m)"
  shows "distinct (exits (drop d q @ rest)) \<and> (\<forall>n \<in> set (exits (drop d q @ rest)). pid_of (su_repo st') n \<noteq> None)
    \<and> exits_fresh ous (Suc k) (st', drop d q @ rest)"
proof -
  have q': "distinct (exits q)" "\<forall>n \<in> set (exits q). pid_of (su_repo st) n \<noteq> None"
    using q by (simp_all add: drainable_def)
  have once': "\<forall>i j p. reports (ou_waitpid (ous k) i) p \<longrightarrow> reports (ou_waitpid (ous k) j) p \<longrightarrow> i = j"
    using once by (auto simp: reaped_once_def)
  have fresh': "\<forall>n \<in> set (exits q). \<forall>p i. pid_of (su_repo st) n = Some p \<longrightarrow> \<not> reports (ou_waitpid (ous k) i) p"
    using fresh by (auto simp: exits_fresh_def)
  note next_q = exits_next [OF agree q' once' fresh' pid es]
  have "exits_fresh ous (Suc k) (st', drop d q @ rest)"
    unfolding exits_fresh_def
  proof (intro ballI allI impI)
    fix n p l i
    assume n: "n \<in> set (exits (snd (st', drop d q @ rest)))" and p: "pid_of (su_repo (fst (st', drop d q @ rest))) n = Some p"
      and l: "Suc k \<le> l"
    show "\<not> reports (ou_waitpid (ous l) i) p"
    proof (cases "n \<in> set (exits rest)")
      case True
      from next_q(4) [OF True] p obtain j where "reports (ou_waitpid (ous k) j) p" by auto
      with once l show ?thesis unfolding reaped_once_def by (metis Suc_n_not_le_n)
    next
      case False
      with n p next_q(3) [of n] fresh l show ?thesis by (auto simp: exits_fresh_def)
    qed
  qed
  with next_q(1,2) show ?thesis by blast
qed

lemma drain_round:
  assumes inv: "drain_inv ous sd k (st, q)" and calm: "calm sd st (ous k)" and once: "reaped_once ous"
  shows "\<exists>st' evs rest. bus_round os (ous k) (st, q) = Inr (st', drop (ou_delivered (ous k)) q @ rest)
    \<and> drain_inv ous sd (Suc k) (st', drop (ou_delivered (ous k)) q @ rest)
    \<and> services_next (ou_clock (ous k)) st' = Inr evs \<and> set evs \<subseteq> set rest
    \<and> (\<forall>n. Kill n \<in> set rest \<longrightarrow> Kill n \<in> set evs)
    \<and> (\<forall>n. rank_of st' n \<le> rank_of st n) \<and> config_kept st st'
    \<and> (\<forall>e n s. e \<in> set (take (ou_delivered (ous k)) q) \<longrightarrow> takes_down e n s \<longrightarrow> status_of st n = Some s
        \<longrightarrow> rank_of st' n < srank s)"
proof -
  let ?d = "ou_delivered (ous k)" and ?in = "round_input_of (ous k) q"
  let ?st = "round_start ?in st"
  from inv have st: "draining sd st" and q: "drainable sd st q" and fresh: "exits_fresh ous k (st, q)"
    by (simp_all add: drain_inv_def)
  have same: "rank_of ?st n = rank_of st n" "status_of ?st n = status_of st n" for n
    by (simp_all add: rank_of_def status_of_def)
  have "drainable sd ?st (take ?d q)"
    using drainable_take_drop [OF q] by (simp add: drainable_def)
  then have "drainable sd ?st (map snd (ri_received ?in))" by (simp add: received_events)
  from drain_all [OF this no_sigterm_sent(2) [OF st calm], of os] obtain st' out acts where
    h: "handle_all os ?st (ri_received ?in) = Inr (st', out, acts)" and st': "draining sd st'"
    and out: "\<forall>e \<in> set out. \<exists>n s. e = StatusChanged n s"
    and rank: "\<forall>n. rank_of st' n \<le> rank_of st n"
    and known: "\<forall>n. svc (su_repo st') n = None \<longleftrightarrow> svc (su_repo st) n = None"
    and pid: "\<forall>n. pid_of (su_repo st') n
      = (if n \<in> set (exits (take ?d q)) then None else pid_of (su_repo st) n)"
    by (auto simp: received_events same)
  obtain evs where evs: "services_next (ou_clock (ous k)) st' = Inr evs"
    using services_next_total st' by (auto simp: draining_def)
  define reap where "reap = reaper_run (ou_waitpid (ous k)) (su_repo st') max_process_reaps_iters"
  define rest where "rest = interleave (ou_schedule (ous k)) (out @ evs @ reap) (ou_sent (ous k))"
  have round: "bus_round os (ous k) (st, q) = Inr (st', drop ?d q @ rest)"
    using h evs no_sigterm_sent(1) [OF st calm]
    by (simp add: bus_round_def run_round_def round_start_def Let_def reap_def rest_def)
  have received: "\<forall>e \<in> set (map snd (ri_received ?in)). drains sd e"
    using drainable_take_drop [OF q, of ?d] by (simp add: received_events drainable_def)
  have sent: "\<forall>e \<in> set (ou_sent (ous k)). \<exists>n h. e = HealthCheck n h \<and> svc (su_repo st) n \<noteq> None"
    using calm by (simp add: calm_def)
  have es: "exits rest = exits reap"
  proof -
    have "exits out = []" using out by (auto intro!: exits_none)
    moreover have "exits evs = []" using services_next_drains [OF st' evs] by (auto intro!: exits_none)
    ultimately show ?thesis
      unfolding rest_def using sent by (subst exits_interleave) auto
  qed
  have agree: "pids_agree (su_repo st')" using st' by (simp add: draining_def)
  have "\<forall>n. pid_of (su_repo st) n \<noteq> None \<longrightarrow> n \<notin> set (exits (take ?d q))
      \<longrightarrow> pid_of (su_repo st') n = pid_of (su_repo st) n" using pid by simp
  note ex = exits_after [OF agree q fresh once this es [unfolded reap_def]]
  have "drains sd e \<and> (\<forall>n. drain_target e = Some n \<longrightarrow> svc (su_repo st') n \<noteq> None)"
    if "e \<in> set (drop ?d q @ rest)" for e
  proof -
    from that consider "e \<in> set q" | "e \<in> set out" | "e \<in> set evs" | "e \<in> set reap" | "e \<in> set (ou_sent (ous k))"
      by (auto simp: rest_def interleave_set dest: in_set_dropD)
    then show ?thesis
    proof cases
      case 1
      with q known show ?thesis by (auto simp: drainable_def)
    next
      case 2
      with out show ?thesis by auto
    next
      case 3
      with services_next_drains [OF st' evs] show ?thesis by blast
    next
      case 4
      then obtain p n c where "get_service_by_pid (su_repo st') p = Some n" "e = ServiceExited n c"
        by (auto simp: reap_def reaper_run_mem)
      with agree show ?thesis by (auto simp: pids_agree_def)
    next
      case 5
      with sent known show ?thesis by auto
    qed
  qed
  with ex have "drainable sd st' (drop ?d q @ rest)" by (simp add: drainable_def)
  moreover have "stop_noted st' (drop ?d q @ rest)" if "sd = Gracefully"
  proof (rule stop_noted_append)
    have "stop_noted ?st (map snd (ri_received ?in) @ drop ?d q)"
      using inv that by (simp add: received_events drain_inv_def stop_noted_def)
    from stop_noted_all [OF h received this] show "stop_noted st' (drop ?d q)" .
    have "kills_follow evs" using kills_follow_next [OF evs] st' by (auto simp: draining_def)
    moreover have "kills_follow out" using out by (auto intro!: kills_follow_none)
    moreover have "kills_follow reap" by (auto simp: reap_def reaper_run_mem intro!: kills_follow_none)
    ultimately show "kills_follow rest"
      unfolding rest_def using sent by (intro kills_follow_interleave kills_follow_append) auto
  qed
  ultimately have "drain_inv ous sd (Suc k) (st', drop ?d q @ rest)" using st' ex by (simp add: drain_inv_def)
  moreover have "rank_of st' n < srank s"
    if "e \<in> set (take ?d q)" "takes_down e n s" "status_of st n = Some s" for e n s
    using takes_down_all [OF h received, of e n s] that by (simp add: received_events same)
  moreover have "Kill n \<in> set evs" if "Kill n \<in> set rest" for n
    using that out sent by (auto simp: rest_def interleave_set reap_def reaper_run_mem)
  moreover have "config_kept st st'"
    using run_round_config round by (auto simp: bus_round_Inr)
  moreover have "set evs \<subseteq> set rest" by (auto simp: rest_def interleave_set)
  ultimately show ?thesis using round evs rank by blast
qed

end
