(* ===== verification/Fair_Loop.thy ===== *)
theory Fair_Loop
  imports Closed_Loop
begin

text \<open>
  What takes place in the end: a loop on the bus in which the services never climb back, and a bus that
  delivers everything. Every pending event arrives, by an induction over its position in the queue and
  the rounds until the next delivery; if some event that brings a service down its ranks is always on
  its way, the ranks go to zero. The shutdown (theory \<open>Delivery\<close>) and the start (theory
  \<open>Start_Up\<close>) are two such loops.
\<close>

section \<open>A bus that delivers\<close>

definition delivers :: "(nat \<Rightarrow> outside) \<Rightarrow> bool" where
  "delivers ous \<longleftrightarrow> (\<forall>k. \<exists>l\<ge>k. 0 < ou_delivered (ous l))"

text \<open>Induction over a position in the queue and the wait for the next delivery.\<close>

lemma delivery_induct:
  assumes "delivers ous"
    and step: "\<And>i k. (ou_delivered (ous k) \<le> i \<Longrightarrow> P (i - ou_delivered (ous k)) (Suc k)) \<Longrightarrow> P i k"
  shows "P (i::nat) k"
proof (induction i arbitrary: k rule: less_induct)
  case (less i)
  have wait: "P i k" if "0 < ou_delivered (ous (k + j))" for j k
    using that
  proof (induction j arbitrary: k)
    case (0 k)
    show ?case
    proof (rule step)
      assume "ou_delivered (ous k) \<le> i"
      with 0 show "P (i - ou_delivered (ous k)) (Suc k)" by (intro less.IH) simp
    qed
  next
    case (Suc j k)
    then have later: "P i (Suc k)" by simp
    show ?case
    proof (rule step)
      assume "ou_delivered (ous k) \<le> i"
      with later less.IH [of "i - ou_delivered (ous k)" "Suc k"] show "P (i - ou_delivered (ous k)) (Suc k)"
        by (cases "ou_delivered (ous k) = 0") auto
    qed
  qed
  from assms(1) obtain l where "k \<le> l" "0 < ou_delivered (ous l)" by (auto simp: delivers_def)
  with wait [of k "l - k"] show ?case by simp
qed

section \<open>Reaching a configuration\<close>

text \<open>\<open>later rank c c'\<close>: the same services and configuration, none of them higher up.\<close>

definition later :: "(supervisor \<Rightarrow> service_name \<Rightarrow> nat) \<Rightarrow> config \<Rightarrow> config \<Rightarrow> bool" where
  "later rank c c' \<longleftrightarrow> (\<forall>n. rank (fst c') n \<le> rank (fst c) n) \<and> config_kept (fst c) (fst c')"

lemma later_refl: "later rank c c"
  by (simp add: later_def config_kept_def)

lemma later_trans: "later rank c c1 \<Longrightarrow> later rank c1 c2 \<Longrightarrow> later rank c c2"
  unfolding later_def config_kept_def by (metis order_trans)

lemma later_known: "later rank c c' \<Longrightarrow> svc (su_repo (fst c')) n = None \<longleftrightarrow> svc (su_repo (fst c)) n = None"
  unfolding later_def config_kept_def by (metis map_option_is_None)

lemma later_lower: "later rank c c' \<Longrightarrow> rank (fst c'') n < rank (fst c') n \<Longrightarrow> rank (fst c'') n < rank (fst c) n"
  by (simp add: later_def less_le_trans)

text \<open>Some number of rounds leads from \<open>c\<close> to a configuration with \<open>P\<close>, which keeps the invariant.\<close>

definition reaches :: "(supervisor \<Rightarrow> service_name \<Rightarrow> nat) \<Rightarrow> (nat \<Rightarrow> config \<Rightarrow> bool) \<Rightarrow> os \<Rightarrow> (nat \<Rightarrow> outside)
    \<Rightarrow> nat \<Rightarrow> config \<Rightarrow> (config \<Rightarrow> bool) \<Rightarrow> bool" where
  "reaches rank I os ous k c P \<longleftrightarrow>
    (\<exists>m c'. rounds os ous k m c = Inr c' \<and> I (k + m) c' \<and> later rank c c' \<and> P c')"

lemma reaches_now: "I k c \<Longrightarrow> P c \<Longrightarrow> reaches rank I os ous k c P"
  unfolding reaches_def by (intro exI [of _ 0]) (simp add: later_refl)

lemma reaches_round:
  assumes "bus_round os (ous k) c = Inr c1" and "later rank c c1" and "reaches rank I os ous (Suc k) c1 P"
  shows "reaches rank I os ous k c P"
proof -
  from assms(3) obtain m c' where "rounds os ous (Suc k) m c1 = Inr c'" "I (Suc k + m) c'"
    "later rank c1 c'" "P c'" unfolding reaches_def by blast
  then show ?thesis
    unfolding reaches_def using assms(1,2) by (intro exI [of _ "Suc m"]) (auto intro: later_trans)
qed

lemma reaches_weaken:
  "reaches rank I os ous k c P \<Longrightarrow> (\<And>c'. later rank c c' \<Longrightarrow> P c' \<Longrightarrow> Q c') \<Longrightarrow> reaches rank I os ous k c Q"
  unfolding reaches_def by blast

lemma reaches_trans:
  assumes "reaches rank I os ous k c P"
    and "\<And>m c'. I m c' \<Longrightarrow> later rank c c' \<Longrightarrow> P c' \<Longrightarrow> reaches rank I os ous m c' Q"
  shows "reaches rank I os ous k c Q"
proof -
  from assms(1) obtain m c1 where 1: "rounds os ous k m c = Inr c1" "I (k + m) c1" "later rank c c1" "P c1"
    unfolding reaches_def by blast
  from assms(2) [OF 1(2-4)] obtain m' c2 where "rounds os ous (k + m) m' c1 = Inr c2"
    "I (k + m + m') c2" "later rank c1 c2" "Q c2"
    unfolding reaches_def by blast
  with 1 show ?thesis
    unfolding reaches_def
    by (intro exI [of _ "m + m'"] exI [of _ c2]) (auto intro: rounds_add later_trans simp: add.assoc)
qed

section \<open>Loops in which no service climbs back\<close>

text \<open>
  The contract: from a configuration with the invariant the round completes, keeps the invariant and
  raises no rank; and an event that \<open>lowers\<close> a service of a rank has lowered it after the round in
  which it arrives.
\<close>

definition total_rank :: "(supervisor \<Rightarrow> service_name \<Rightarrow> nat) \<Rightarrow> supervisor \<Rightarrow> nat" where
  "total_rank rank st = (\<Sum>n | svc (su_repo st) n \<noteq> None. rank st n)"

lemma finite_services: "finite {n. svc repo n \<noteq> None}"
  using finite_dom_map_of [of "rp_services repo"] by (simp add: svc_def hm_get_def dom_def)

locale fair_loop =
  fixes os :: os and ous :: "nat \<Rightarrow> outside" and I :: "nat \<Rightarrow> config \<Rightarrow> bool"
    and rank :: "supervisor \<Rightarrow> service_name \<Rightarrow> nat" and lowers :: "event \<Rightarrow> service_name \<Rightarrow> nat \<Rightarrow> bool"
  assumes fair: "I k c \<Longrightarrow> delivers ous"
    and unknown: "svc (su_repo st) n = None \<Longrightarrow> rank st n = 0"
    and round: "I k c \<Longrightarrow> \<exists>c'. bus_round os (ous k) c = Inr c' \<and> I (Suc k) c' \<and> later rank c c'"
    and arrival: "I k (st, q) \<Longrightarrow> bus_round os (ous k) (st, q) = Inr (st', q')
      \<Longrightarrow> e \<in> set (take (ou_delivered (ous k)) q) \<Longrightarrow> lowers e n (rank st n) \<Longrightarrow> rank st' n < rank st n"
begin

text \<open>A service that is still as high up after a round can be brought down from there.\<close>

lemma step_reaches:
  assumes "I k (st, q)"
    and step: "\<And>st' q'. bus_round os (ous k) (st, q) = Inr (st', q') \<Longrightarrow> I (Suc k) (st', q')
      \<Longrightarrow> config_kept st st' \<Longrightarrow> rank st' n = rank st n
      \<Longrightarrow> reaches rank I os ous (Suc k) (st', q') (\<lambda>c. rank (fst c) n < rank st' n)"
  shows "reaches rank I os ous k (st, q) (\<lambda>c. rank (fst c) n < rank st n)"
proof -
  from round [OF assms(1)] obtain st' q' where r: "bus_round os (ous k) (st, q) = Inr (st', q')"
    "I (Suc k) (st', q')" "later rank (st, q) (st', q')" by auto
  have "reaches rank I os ous (Suc k) (st', q') (\<lambda>c. rank (fst c) n < rank st n)"
  proof (cases "rank st' n < rank st n")
    case True
    with r(2) show ?thesis by (intro reaches_now) simp_all
  next
    case False
    with r(3) have "rank st' n = rank st n" "config_kept st st'" by (auto simp: later_def antisym)
    with step [OF r(1,2)] show ?thesis by simp
  qed
  with r(1,3) show ?thesis by (rule reaches_round [where os = os and ous = ous and k = k])
qed

lemma position_arrives:
  assumes "delivers ous"
  shows "\<forall>st q. I k (st, q) \<longrightarrow> i < length q \<longrightarrow> lowers (q ! i) n (rank st n)
    \<longrightarrow> reaches rank I os ous k (st, q) (\<lambda>c. rank (fst c) n < rank st n)"
  using assms
proof (induction i k rule: delivery_induct [consumes 1, case_names step])
  case (step i k)
  let ?d = "ou_delivered (ous k)"
  show ?case
  proof (intro allI impI, rule step_reaches, assumption)
    fix st q st' q'
    assume I: "I k (st, q)" and i: "i < length q" and e: "lowers (q ! i) n (rank st n)"
      and b: "bus_round os (ous k) (st, q) = Inr (st', q')" and I': "I (Suc k) (st', q')"
      and same: "rank st' n = rank st n"
    from b obtain rest where q': "q' = drop ?d q @ rest" by (auto simp: bus_round_Inr)
    have "?d \<le> i"
    proof (rule ccontr)
      assume "\<not> ?d \<le> i"
      with i have "q ! i \<in> set (take ?d q)" by (auto simp: in_set_conv_nth intro!: exI [of _ i])
      with arrival [OF I b _ e] same show False by simp
    qed
    moreover from this i have "i - ?d < length q'" "q' ! (i - ?d) = q ! i"
      by (simp_all add: q' nth_append less_diff_conv2)
    ultimately show "reaches rank I os ous (Suc k) (st', q') (\<lambda>c. rank (fst c) n < rank st' n)"
      using step I' e by (simp add: same [symmetric])
  qed
qed

text \<open>Every pending event arrives.\<close>

lemma pending_arrives:
  assumes "I k (st, q)" and "e \<in> set q" and "lowers e n (rank st n)"
  shows "reaches rank I os ous k (st, q) (\<lambda>c. rank (fst c) n < rank st n)"
proof -
  from assms(2) obtain i where "i < length q" "q ! i = e" unfolding in_set_conv_nth by blast
  with position_arrives [OF fair [OF assms(1)]] assms(1,3) show ?thesis by blast
qed

text \<open>So does an event the round itself sends.\<close>

lemma emitted_arrives:
  assumes "I k (st, q)"
    and "\<And>st' q'. bus_round os (ous k) (st, q) = Inr (st', q') \<Longrightarrow> I (Suc k) (st', q') \<Longrightarrow> config_kept st st'
      \<Longrightarrow> rank st' n = rank st n \<Longrightarrow> \<exists>e \<in> set q'. lowers e n (rank st' n)"
  shows "reaches rank I os ous k (st, q) (\<lambda>c. rank (fst c) n < rank st n)"
proof (rule step_reaches [OF assms(1)])
  fix st' q' assume r: "bus_round os (ous k) (st, q) = Inr (st', q')" "I (Suc k) (st', q')" "config_kept st st'"
    "rank st' n = rank st n"
  from assms(2) [OF this] obtain e where "e \<in> set q'" "lowers e n (rank st' n)" by blast
  then show "reaches rank I os ous (Suc k) (st', q') (\<lambda>c. rank (fst c) n < rank st' n)"
    by (rule pending_arrives [OF r(2)])
qed

text \<open>And an event another thread sends at any later time.\<close>

lemma sent_arrives:
  assumes "I k (st, q)" and "k \<le> l" and "e \<in> set (ou_sent (ous l))" and "lowers e n (rank st n)"
  shows "reaches rank I os ous k (st, q) (\<lambda>c. rank (fst c) n < rank st n)"
  using assms
proof (induction "l - k" arbitrary: k st q)
  case base: 0
  then show ?case
    by (intro emitted_arrives) (auto simp: bus_round_Inr interleave_set)
next
  case (Suc j)
  show ?case
  proof (rule step_reaches [OF Suc.prems(1)])
    fix st' q' assume "I (Suc k) (st', q')" "rank st' n = rank st n"
    with Suc.hyps(1) [of "Suc k" st' q'] Suc.hyps(2) Suc.prems(3,4)
    show "reaches rank I os ous (Suc k) (st', q') (\<lambda>c. rank (fst c) n < rank st' n)" by simp
  qed
qed

lemma total_rank_less:
  assumes "later rank c c'" and "rank (fst c') n < rank (fst c) n"
  shows "total_rank rank (fst c') < total_rank rank (fst c)"
proof -
  have "{n. svc (su_repo (fst c')) n \<noteq> None} = {n. svc (su_repo (fst c)) n \<noteq> None}"
    using later_known [OF assms(1)] by auto
  moreover have "svc (su_repo (fst c)) n \<noteq> None" using assms(2) unknown by force
  ultimately show ?thesis
    unfolding total_rank_def using assms
    by (auto intro!: sum_strict_mono_ex1 simp: finite_services [simplified] later_def)
qed

text \<open>If a service can always come down until the goal is reached, it is reached.\<close>

lemma goal_reached:
  assumes "I k c"
    and progress: "\<And>k' c'. I k' c' \<Longrightarrow> later rank c c' \<Longrightarrow> \<not> goal c'
      \<Longrightarrow> reaches rank I os ous k' c' (\<lambda>c''. goal c'' \<or> (\<exists>n. rank (fst c'') n < rank (fst c') n))"
  shows "reaches rank I os ous k c goal"
proof -
  have "reaches rank I os ous m c1 goal" if "I m c1" "later rank c c1" for m c1
    using that
  proof (induction "total_rank rank (fst c1)" arbitrary: m c1 rule: less_induct)
    case less
    show ?case
    proof (cases "goal c1")
      case True
      with less.prems(1) show ?thesis by (rule reaches_now)
    next
      case False
      from progress [OF less.prems this] show ?thesis
      proof (rule reaches_trans)
        fix m' c' assume c': "I m' c'" "later rank c1 c'"
          and d: "goal c' \<or> (\<exists>n. rank (fst c') n < rank (fst c1) n)"
        show "reaches rank I os ous m' c' goal"
        proof (cases "goal c'")
          case True
          with c'(1) show ?thesis by (rule reaches_now)
        next
          case False
          with d total_rank_less [OF c'(2)] have "total_rank rank (fst c') < total_rank rank (fst c1)" by blast
          from less.hyps [OF this c'(1) later_trans [OF less.prems(2) c'(2)]] show ?thesis .
        qed
      qed
    qed
  qed
  with assms(1) later_refl show ?thesis by blast
qed

lemma invariant_kept:
  assumes "I k c"
  shows "\<exists>c'. rounds os ous k m c = Inr c' \<and> I (k + m) c' \<and> later rank c c'"
  using assms
proof (induction m arbitrary: k c)
  case 0
  then show ?case by (simp add: later_refl)
next
  case (Suc m)
  from round [OF Suc.prems] obtain c1 where "bus_round os (ous k) c = Inr c1" "I (Suc k) c1" "later rank c c1"
    by blast
  with Suc.IH [of "Suc k" c1] show ?case by (auto intro: later_trans)
qed

end

end
