(* ===== verification/Delivery.thy ===== *)
theory Delivery
  imports Shutdown_Round Fair_Loop
begin

text \<open>
  A shutdown is a loop in which no service climbs back (theory \<open>Fair_Loop\<close>): every pending event that
  takes a service down arrives. If some event that takes a service down is always sent, the ranks go
  to zero and the loop ends.
\<close>

section \<open>The shutdown as a fair loop\<close>

text \<open>What the outside keeps to during the whole shutdown of \<open>st\<close>.\<close>

definition shutdown_env :: "shutting_down \<Rightarrow> supervisor \<Rightarrow> (nat \<Rightarrow> outside) \<Rightarrow> bool" where
  "shutdown_env sd st ous \<longleftrightarrow> reaped_once ous \<and> delivers ous \<and> (\<forall>k. calm sd st (ous k))"

lemma shutdown_env_later: "shutdown_env sd (fst c) ous \<Longrightarrow> later rank_of c c' \<Longrightarrow> shutdown_env sd (fst c') ous"
  by (auto simp: shutdown_env_def calm_def later_known)

lemma status_kept:
  assumes "status_of st n = Some s" and "srank s \<noteq> 0" and "rank_of st' n \<le> rank_of st n"
    and "\<not> rank_of st' n < srank s"
  shows "status_of st' n = Some s"
  using assms by (auto simp: rank_of_def intro!: srank_inj split: option.splits)

definition drain_ok :: "(nat \<Rightarrow> outside) \<Rightarrow> shutting_down \<Rightarrow> nat \<Rightarrow> config \<Rightarrow> bool" where
  "drain_ok ous sd k c \<longleftrightarrow> drain_inv ous sd k c \<and> shutdown_env sd (fst c) ous"

definition brings_down :: "event \<Rightarrow> service_name \<Rightarrow> nat \<Rightarrow> bool" where
  "brings_down e n r \<longleftrightarrow> (\<exists>s. takes_down e n s \<and> srank s = r \<and> r \<noteq> 0)"

lemma drain_next:
  assumes "drain_ok ous sd k (st, q)"
  obtains st' rest evs where
    "bus_round os (ous k) (st, q) = Inr (st', drop (ou_delivered (ous k)) q @ rest)"
    "drain_ok ous sd (Suc k) (st', drop (ou_delivered (ous k)) q @ rest)"
    "later rank_of (st, q) (st', drop (ou_delivered (ous k)) q @ rest)"
    "services_next (ou_clock (ous k)) st' = Inr evs" "set evs \<subseteq> set rest"
    "\<And>n. Kill n \<in> set rest \<Longrightarrow> Kill n \<in> set evs"
    "\<And>e n s. e \<in> set (take (ou_delivered (ous k)) q) \<Longrightarrow> takes_down e n s \<Longrightarrow> status_of st n = Some s
        \<Longrightarrow> rank_of st' n < srank s"
proof -
  from assms have ok: "drain_inv ous sd k (st, q)" "shutdown_env sd st ous" by (simp_all add: drain_ok_def)
  then have "calm sd st (ous k)" "reaped_once ous" by (auto simp: shutdown_env_def)
  from drain_round [OF ok(1) this, of os] obtain st' evs rest where
    r: "bus_round os (ous k) (st, q) = Inr (st', drop (ou_delivered (ous k)) q @ rest)"
    "drain_inv ous sd (Suc k) (st', drop (ou_delivered (ous k)) q @ rest)"
    "services_next (ou_clock (ous k)) st' = Inr evs" "set evs \<subseteq> set rest"
    "\<forall>n. rank_of st' n \<le> rank_of st n" "config_kept st st'" "\<forall>n. Kill n \<in> set rest \<longrightarrow> Kill n \<in> set evs"
    "\<forall>e n s. e \<in> set (take (ou_delivered (ous k)) q) \<longrightarrow> takes_down e n s \<longrightarrow> status_of st n = Some s
        \<longrightarrow> rank_of st' n < srank s"
    by blast
  then have l: "later rank_of (st, q) (st', drop (ou_delivered (ous k)) q @ rest)" by (simp add: later_def)
  from shutdown_env_later [OF _ l] ok(2) r(2) have "drain_ok ous sd (Suc k) (st', drop (ou_delivered (ous k)) q @ rest)"
    by (simp add: drain_ok_def)
  with that [OF r(1) _ l r(3,4)] r(7,8) show ?thesis by blast
qed

interpretation drain: fair_loop os ous "drain_ok ous sd" rank_of brings_down for os ous sd
proof unfold_locales
  show "delivers ous" if "drain_ok ous sd k c" for k c
    using that by (simp add: drain_ok_def shutdown_env_def)
  show "rank_of st n = 0" if "svc (su_repo st) n = None" for st n
    using that by (simp add: rank_of_def status_of_def)
  show "\<exists>c'. bus_round os (ous k) c = Inr c' \<and> drain_ok ous sd (Suc k) c' \<and> later rank_of c c'"
    if "drain_ok ous sd k c" for k c
    using drain_next [of ous sd k "fst c" "snd c" os] that by (metis prod.collapse)
  show "rank_of st' n < rank_of st n"
    if ok: "drain_ok ous sd k (st, q)" and b: "bus_round os (ous k) (st, q) = Inr (st', q')"
      and e: "e \<in> set (take (ou_delivered (ous k)) q)" "brings_down e n (rank_of st n)" for k st q st' q' e n
  proof -
    from e(2) obtain s where s: "takes_down e n s" "srank s = rank_of st n" "rank_of st n \<noteq> 0"
      by (auto simp: brings_down_def)
    then have "status_of st n = Some s" by (auto simp: rank_of_def intro!: srank_inj split: option.splits)
    with drain_next [OF ok, of os] b e(1) s show ?thesis by (metis Inr_inject prod.inject)
  qed
qed

abbreviation drains_to :: "(nat \<Rightarrow> outside) \<Rightarrow> os \<Rightarrow> shutting_down \<Rightarrow> nat \<Rightarrow> config \<Rightarrow> (config \<Rightarrow> bool) \<Rightarrow> bool" where
  "drains_to ous os sd \<equiv> reaches rank_of (drain_ok ous sd) os ous"

definition finished :: "config \<Rightarrow> bool" where
  "finished c \<longleftrightarrow> all_have_finished (su_repo (fst c))"

lemma drains_to_end:
  assumes "drains_to ous os sd k c finished"
  shows "\<exists>st'. horust_run os p ous k c = Some (Inr (st', run_end p st')) \<and> all_have_finished (su_repo st')"
  using assms horust_run_ends unfolding reaches_def finished_def by blast

end
