(* ===== verification/Lifecycle_Props.thy ===== *)
theory Lifecycle_Props
  imports Supervisor_Props
begin

text \<open>
  The properties of the event loop: which events a round sends, in which order services start and
  stop, when a shutdown makes progress and when it never ends, what SIGTERM does, and the result of
  the whole run.
\<close>

section \<open>Starting in order\<close>

text \<open>
  A round asks a service to run exactly when the system is not shutting down, the service is
  \<open>Initial\<close>, and every service it starts after is \<open>Running\<close> or has finished successfully.
\<close>

lemma run_sent_iff:
  assumes "services_next clock st = Inr evs" and "repo_wf (su_repo st)"
  shows "Run n \<in> set evs \<longleftrightarrow> su_status st = LRunning
    \<and> (\<exists>sh. svc (su_repo st) n = Some sh \<and> sh_status sh = Initial
      \<and> (\<forall>d \<in> set (sh_start_after sh). \<exists>dep. svc (su_repo st) d = Some dep
          \<and> (sh_status dep = Running \<or> sh_status dep = Finished)))"
proof (cases "su_status st")
  case LRunning
  have "Run n \<in> set evs \<longleftrightarrow> (\<exists>m sh es. svc (su_repo st) m = Some sh
      \<and> next_events (clock m) (su_repo st) sh = Inr es \<and> Run n \<in> set es)"
    unfolding services_next_mem [OF assms] by (simp add: next_evs_def LRunning)
  also have "\<dots> \<longleftrightarrow> (\<exists>sh es. svc (su_repo st) n = Some sh
      \<and> next_events (clock n) (su_repo st) sh = Inr es \<and> Run n \<in> set es)"
    using next_events_Run repo_wf_name [OF assms(2)] by metis
  also have "\<dots> \<longleftrightarrow> (\<exists>sh. svc (su_repo st) n = Some sh \<and> is_service_runnable (su_repo st) sh = Inr True)"
    using repo_wf_name [OF assms(2)]
    by (auto simp: next_events_Run)
      (auto simp: next_events_def Let_def is_service_runnable_True intro!: exI [of _ "[Run n]"])
  finally show ?thesis
    by (simp add: LRunning is_service_runnable_True)
next
  case (ShuttingDown sd)
  have "Run n \<notin> set evs"
    unfolding services_next_mem [OF assms]
    by (auto simp: next_evs_def ShuttingDown dest: next_events_shutting_down_kinds)
  then show ?thesis by (simp add: ShuttingDown)
qed

section \<open>Stopping in order\<close>

text \<open>
  During a shutdown a round asks to kill exactly the services that are \<open>Running\<close> or \<open>Started\<close>
  and, unless the shutdown is forceful, whose \<open>shutdown-after\<close> services have all stopped.
\<close>

lemma shutdown_kill_sent_iff:
  assumes "services_next clock st = Inr evs" and "repo_wf (su_repo st)"
    and "su_status st = ShuttingDown sd"
  shows "Kill n \<in> set evs \<longleftrightarrow>
    (\<exists>sh. svc (su_repo st) n = Some sh \<and> (sh_status sh = Running \<or> sh_status sh = Started)
      \<and> (sd = Forcefully
         \<or> (\<forall>d \<in> set (sh_shutdown_after sh). \<exists>dep. svc (su_repo st) d = Some dep
              \<and> (sh_status dep = Finished \<or> sh_status dep = FinishedFailed))))"
proof -
  have "Kill n \<in> set evs \<longleftrightarrow> (\<exists>m sh es. svc (su_repo st) m = Some sh
      \<and> next_events_shutting_down (clock m) sh sd (su_repo st) = Inr es \<and> Kill n \<in> set es)"
    unfolding services_next_mem [OF assms(1,2)] by (simp add: next_evs_def assms(3))
  also have "\<dots> \<longleftrightarrow> (\<exists>sh es. svc (su_repo st) n = Some sh
      \<and> next_events_shutting_down (clock n) sh sd (su_repo st) = Inr es \<and> Kill n \<in> set es)"
    using next_events_shutting_down_Kill repo_wf_name [OF assms(2)] by metis
  also have "\<dots> \<longleftrightarrow> (\<exists>sh. svc (su_repo st) n = Some sh \<and> (sh_status sh = Running \<or> sh_status sh = Started)
      \<and> (sd = Forcefully \<or> is_service_killable (su_repo st) sh = Inr True))"
    using repo_wf_name [OF assms(2)]
    by (auto simp: next_events_shutting_down_Kill)
      (auto simp: next_events_shutting_down_def Let_def
        intro!: exI [of _ "[StatusUpdate n InKilling, Kill n]"])
  finally show ?thesis
    by (simp add: is_service_killable_True)
qed

section \<open>Progress of a shutdown\<close>

text \<open>Among the elements that satisfy \<open>P\<close>, one of least rank has no predecessor that does.\<close>

lemma least_ranked:
  fixes rank :: "'a \<Rightarrow> nat"
  assumes "P m"
  obtains n where "P n" and "\<And>d. rank d < rank n \<Longrightarrow> \<not> P d"
  using assms ex_has_least_nat [of P m rank] by (metis not_less)

definition unfinished :: "repo \<Rightarrow> service_name \<Rightarrow> bool" where
  "unfinished repo n \<longleftrightarrow>
    (\<exists>sh. svc repo n = Some sh \<and> sh_status sh \<noteq> Finished \<and> sh_status sh \<noteq> FinishedFailed)"

definition shutdown_ranked :: "repo \<Rightarrow> (service_name \<Rightarrow> nat) \<Rightarrow> bool" where
  "shutdown_ranked repo rank \<longleftrightarrow>
    (\<forall>n sh. svc repo n = Some sh \<longrightarrow> (\<forall>d \<in> set (sh_shutdown_after sh). rank d < rank n))"

lemma killable_of_finished:
  assumes "deps_known repo" and "svc repo n = Some sh"
    and "\<And>d. d \<in> set (sh_shutdown_after sh) \<Longrightarrow> \<not> unfinished repo d"
  shows "is_service_killable repo sh = Inr True"
  using assms unfolding is_service_killable_True unfinished_def deps_known_def by blast

text \<open>The status a shutdown asks of a service that does not wait for its process.\<close>

definition shutdown_request :: "service_status \<Rightarrow> service_status" where
  "shutdown_request s =
    (if s = Running \<or> s = Started then InKilling else if s = Failed then FinishedFailed else Finished)"

lemma shutdown_request_accepted:
  "s \<notin> {Starting, InKilling, Finished, FinishedFailed} \<Longrightarrow> accepts s (shutdown_request s) (shutdown_request s)"
  by (cases s) (auto simp: shutdown_request_def intro: accepts.intros)

lemma shutdown_request_sent:
  assumes "is_service_killable repo sh = Inr True"
    and "sh_status sh \<notin> {Starting, InKilling, Finished, FinishedFailed}"
  shows "\<exists>es. next_events_shutting_down now sh sd repo = Inr es
    \<and> StatusUpdate (sh_name sh) (shutdown_request (sh_status sh)) \<in> set es"
  using assms
  by (cases "sh_status sh") (auto simp: next_events_shutting_down_def shutdown_request_def Let_def)

lemma shutdown_update:
  assumes "sup_wf st" and "su_status st = ShuttingDown sd" and "services_next clock st = Inr evs"
    and "svc (su_repo st) n = Some sh"
    and "next_events_shutting_down (clock n) sh sd (su_repo st) = Inr es" and "e \<in> set es"
  shows "e \<in> set evs"
  using assms services_next_mem [OF assms(3)] by (auto simp: sup_wf_def next_evs_def)

text \<open>
  No deadlock in a shutdown: if \<open>shutdown-after\<close> is acyclic (ranked) and services are left that
  have not finished, none of them waiting for its process, then the round sends some of them a status
  update that its state machine accepts.
\<close>

lemma shutdown_progress:
  assumes "sup_wf st" and "su_status st = ShuttingDown sd" and "services_next clock st = Inr evs"
    and "shutdown_ranked (su_repo st) rank"
    and "\<forall>n sh. svc (su_repo st) n = Some sh \<longrightarrow> sh_status sh \<noteq> Starting \<and> sh_status sh \<noteq> InKilling"
    and "unfinished (su_repo st) m"
  shows "\<exists>n sh r t. unfinished (su_repo st) n \<and> svc (su_repo st) n = Some sh
    \<and> StatusUpdate n r \<in> set evs \<and> accepts (sh_status sh) r t"
proof -
  from assms(6) obtain n where n: "unfinished (su_repo st) n"
    and least: "\<And>d. rank d < rank n \<Longrightarrow> \<not> unfinished (su_repo st) d"
    by (rule least_ranked [of "unfinished (su_repo st)" m rank]) blast
  from n obtain sh where sh: "svc (su_repo st) n = Some sh" "sh_status sh \<noteq> Finished"
    "sh_status sh \<noteq> FinishedFailed" by (auto simp: unfinished_def)
  have "is_service_killable (su_repo st) sh = Inr True"
    using assms(1,4) sh(1) least by (intro killable_of_finished) (auto simp: sup_wf_def shutdown_ranked_def)
  moreover have "sh_name sh = n" using assms(1) sh(1) by (auto simp: sup_wf_def intro: repo_wf_name)
  ultimately obtain es where "next_events_shutting_down (clock n) sh sd (su_repo st) = Inr es"
    "StatusUpdate n (shutdown_request (sh_status sh)) \<in> set es"
    using shutdown_request_sent [of "su_repo st" sh "clock n" sd] sh assms(5) by auto
  from shutdown_update [OF assms(1-3) sh(1) this] shutdown_request_accepted [of "sh_status sh"]
    n sh assms(5) show ?thesis by blast
qed

definition ex_stopping :: supervisor where
  "ex_stopping = ex_sup (ShuttingDown Gracefully) [ex_handler (ex_service ''a'') Finished None,
     ex_handler (ex_shutdown_after ''b'' [''a'']) Running (Some 8)]"

section \<open>A shutdown that never ends\<close>

text \<open>A round in which nothing arrives: no event, no signal, no dead process.\<close>

definition silent :: "round_input \<Rightarrow> bool" where
  "silent inp \<longleftrightarrow> ri_received inp = [] \<and> \<not> ri_signal inp \<and> ri_waitpid inp = (\<lambda>_. OtherStatus)"

lemmas run_induct = run.raw_induct [rotated 1, consumes 1, case_names step]

lemma run_stuck:
  assumes "\<And>i. \<exists>out acts. run_round os (inputs i) st = Inr (st, out, acts)"
    and "\<not> all_have_finished (su_repo st)"
  shows "run os p inputs k st = None"
proof -
  have "run os p inputs k st = Some y \<Longrightarrow>
      \<forall>i. \<exists>out acts. run_round os (inputs i) st = Inr (st, out, acts) \<Longrightarrow>
      all_have_finished (su_repo st)" for y
  proof (induction rule: run_induct)
    case (step run' os p inputs k st y)
    from step.prems obtain out acts where "run_round os (inputs k) st = Inr (st, out, acts)" by blast
    with step show ?case by (auto split: if_splits)
  qed
  with assms show ?thesis by (cases "run os p inputs k st") auto
qed

text \<open>A state in which no service has an event to send stays as it is while nothing arrives.\<close>

lemma quiet_forever:
  assumes "sup_wf st" and "sigterm_events st = []" and "unfinished (su_repo st) m"
    and none: "\<And>n sh now. svc (su_repo st) n = Some sh \<Longrightarrow> next_evs now sh (su_repo st) (su_status st) = Inr []"
    and "\<forall>i. silent (inputs i)"
  shows "run_round os (inputs i) st = Inr (st, [], []) \<and> run os p inputs k st = None"
proof -
  have "services_next clock st = Inr []" for clock
  proof -
    obtain evs where evs: "services_next clock st = Inr evs"
      using services_next_total [OF assms(1)] by blast
    have "e \<notin> set evs" for e
      using services_next_mem [OF evs] assms(1) none by (auto simp: sup_wf_def)
    then have "evs = []" by (cases evs) auto
    with evs show ?thesis by simp
  qed
  then have round: "run_round os (inputs j) st = Inr (st, [], [])" for j
    using assms(2,5) by (simp add: run_round_def silent_def handle_all_def)
  moreover have "\<not> all_have_finished (su_repo st)"
    using assms(1,3) by (auto simp: sup_wf_def all_have_finished_iff unfinished_def)
  ultimately show ?thesis by (simp add: run_stuck)
qed

lemma finished_quiet:
  "\<not> unfinished (su_repo st) n \<Longrightarrow> svc (su_repo st) n = Some sh \<Longrightarrow>
    next_evs now sh (su_repo st) (ShuttingDown sd) = Inr []"
  by (auto simp: unfinished_def next_evs_def next_events_shutting_down_def Let_def)

lemma no_sigterm_events: "\<not> su_sigterm st \<Longrightarrow> sigterm_events st = []"
  by (simp add: sigterm_events_def split: lifecycle_status.split shutting_down.split)



text \<open>
  C29. A start that is never reported blocks every shutdown: when all services left are \<open>Starting\<close> and
  their spawner threads are gone without an event, neither a graceful nor a forceful shutdown sends
  anything, and the supervisor's loop never returns.
\<close>

theorem lost_start_blocks_shutdown:
  assumes "sup_wf st" and "su_status st = ShuttingDown sd" and "\<not> su_sigterm st"
    and "unfinished (su_repo st) m"
    and "\<forall>n sh. svc (su_repo st) n = Some sh \<longrightarrow> unfinished (su_repo st) n \<longrightarrow> sh_status sh = Starting"
    and "\<forall>i. silent (inputs i)"
  shows "run_round os (inputs i) st = Inr (st, [], []) \<and> run os p inputs k st = None"
proof (rule quiet_forever [OF assms(1) no_sigterm_events [OF assms(3)] assms(4) _ assms(6)])
  fix n sh now
  assume sh: "svc (su_repo st) n = Some sh"
  show "next_evs now sh (su_repo st) (su_status st) = Inr []"
  proof (cases "unfinished (su_repo st) n")
    case True
    with assms(5) sh have "sh_status sh = Starting" by blast
    then show ?thesis by (simp add: next_evs_def assms(2) next_events_shutting_down_def)
  next
    case False
    with sh show ?thesis by (simp add: assms(2) finished_quiet)
  qed
qed

theorem lost_start_blocks_shutdown_witness:
  "run ex_os 5 (\<lambda>_. ex_input []) 0
      (ex_sup (ShuttingDown Forcefully) [ex_handler (ex_service ''a'') Starting None]) = None"
  by (intro lost_start_blocks_shutdown [THEN conjunct2, of _ Forcefully "''a''"] ex_a_sup_wf)
    (auto simp: silent_def unfinished_def)

section \<open>The result of a run\<close>

lemma run_ends:
  assumes "run os p inputs k st = Some (Inr (st', res))" and "sup_wf st"
  shows "sup_wf st' \<and> config_kept st st' \<and> all_have_finished (su_repo st') \<and> res = run_end p st'"
proof -
  have "run os p inputs k st = Some y \<Longrightarrow> y = Inr (st', res) \<Longrightarrow> sup_wf st \<Longrightarrow>
      sup_wf st' \<and> config_kept st st' \<and> all_have_finished (su_repo st') \<and> res = run_end p st'" for y
  proof (induction rule: run_induct)
    case (step run' os p inputs k st y)
    show ?case
    proof (cases "all_have_finished (su_repo st)")
      case True
      with step show ?thesis by (auto simp: config_kept_def)
    next
      case False
      with step.hyps step.prems obtain st1 sent acts1
        where r: "run_round os (inputs k) st = Inr (st1, sent, acts1)"
          and c: "run' os p inputs (Suc k) st1 = Some y" by (auto split: sum.splits)
      from step.IH [OF c step.prems(1) run_round_wf [OF r step.prems(2)]] run_round_config [OF r]
      show ?thesis by (auto simp: config_kept_def)
    qed
  qed
  from this [OF assms(1) _ assms(2)] show ?thesis by simp
qed

lemma run_end_status:
  assumes "sup_wf st" and "(code, evs, acts) = run_end p st"
  shows "code = SomeServiceFailed \<longleftrightarrow> (\<exists>n sh. svc (su_repo st) n = Some sh \<and> sh_status sh = FinishedFailed)"
  using assms by (simp add: run_end_def exit_status_of_def sup_wf_def any_finished_failed_iff)

text \<open>
  When the supervisor's loop returns, every service is \<open>Finished\<close> or \<open>FinishedFailed\<close> and keeps
  its configuration, the exit status reports a failure exactly when some service is
  \<open>FinishedFailed\<close>, the end is announced on the bus, and remaining processes are signalled only by
  process 1.
\<close>

lemma run_result:
  assumes "run os p inputs k st = Some (Inr (st', code, evs, acts))" and "sup_wf st"
  shows "(\<forall>n. \<not> unfinished (su_repo st') n) \<and> config_kept st st'
    \<and> (code = SomeServiceFailed
         \<longleftrightarrow> (\<exists>n sh. svc (su_repo st') n = Some sh \<and> sh_status sh = FinishedFailed))
    \<and> evs = [ShuttingDownInitiated Gracefully]
    \<and> acts = (if p = 1 then [SendSignal (- 1) SIGTERM, SendSignal (- 1) SIGKILL] else [])"
proof -
  from run_ends [OF assms] have wf: "sup_wf st'" and config: "config_kept st st'"
    and fin: "all_have_finished (su_repo st')" and res: "(code, evs, acts) = run_end p st'"
    by auto
  from wf fin have "\<forall>n. \<not> unfinished (su_repo st') n"
    by (auto simp: sup_wf_def all_have_finished_iff unfinished_def)
  with config run_end_status [OF wf res] res show ?thesis
    by (simp add: run_end_def init_pid_def)
qed

section \<open>Signals to the supervisor\<close>

text \<open>A SIGTERM whose event comes back from the bus and is handled.\<close>

definition sigterm_delivered :: "os \<Rightarrow> instant \<Rightarrow> supervisor \<Rightarrow> handled" where
  "sigterm_delivered os now st =
    handle_all os (handle_sigterm st) (map (Pair now) (sigterm_events (handle_sigterm st)))"

text \<open>
  The first SIGTERM starts a graceful shutdown, the second a forceful one, and later ones change
  nothing but leave the flag set.
\<close>

lemma sigterm_escalation:
  "sigterm_delivered os now st = Inr (case su_status st of
      LRunning \<Rightarrow> st\<lparr>su_status := ShuttingDown Gracefully, su_sigterm := False\<rparr>
    | ShuttingDown Gracefully \<Rightarrow> st\<lparr>su_status := ShuttingDown Forcefully, su_sigterm := False\<rparr>
    | ShuttingDown Forcefully \<Rightarrow> st\<lparr>su_sigterm := True\<rparr>, [], [])"
  by (auto simp: sigterm_delivered_def sigterm_events_def handle_sigterm_def handle_all_def timed_step_def
      on_shutting_down_initiated_def clear_sigterm_def split: lifecycle_status.split shutting_down.split)

text \<open>
  The shutdown event is not monotone: handling a graceful request after a forceful one makes the
  shutdown graceful again, so services are once more given their time to stop.
\<close>

lemma forceful_shutdown_downgraded:
  "handle_all os st [(t, ShuttingDownInitiated Forcefully), (u, ShuttingDownInitiated Gracefully)]
    = Inr (st\<lparr>su_status := ShuttingDown Gracefully, su_sigterm := False\<rparr>, [], [])"
  by (simp add: handle_all_def timed_step_def on_shutting_down_initiated_def clear_sigterm_def)

section \<open>Dead processes\<close>

text \<open>
  The reaper reports an exit exactly when one of its first \<open>limit\<close> calls to \<open>waitpid\<close> names a process
  the pid table holds, with the exit code, or -137 for a process killed by a signal; it reports at
  most \<open>limit\<close> exits.
\<close>

lemma reaper_reports:
  "(ServiceExited n c \<in> set (reaper_run waitpid repo limit) \<longleftrightarrow>
      (\<exists>i<limit. \<exists>p. get_service_by_pid repo p = Some n
        \<and> (waitpid i = Exited p c \<or> waitpid i = Signaled p \<and> c = -137)))
    \<and> length (reaper_run waitpid repo limit) \<le> limit"
  by (auto simp: reaper_run_mem signaled_code_def reaper_run_length)

section \<open>Who is killed while the system runs\<close>

lemma handle_failed_service_Kill:
  "Kill n \<in> set (handle_failed_service deps s) \<longleftrightarrow> fl_strategy (sv_failure s) = KillDependents \<and> n \<in> set deps"
  by (auto simp: handle_failed_service_def split: failure_strategy.splits)

lemma next_events_Kill:
  "next_events now repo sh = Inr evs \<Longrightarrow> Kill n \<in> set evs \<longleftrightarrow>
    sh_status sh = Running \<and> n = sh_name sh \<and> (\<exists>c. sh_healthiness_checks_failed sh = Some c
        \<and> sint (hl_max_failed (sv_healthiness (sh_service sh))) < sint c)
    \<or> sh_status sh = Running \<and> n = sh_name sh \<and> sh_healthiness_checks_failed sh = None
        \<and> sint (hl_max_failed (sv_healthiness (sh_service sh))) < - 1
    \<or> sh_status sh = Failed \<and> (fl_strategy (sv_failure (sh_service sh)) = KillDependents
        \<and> n \<in> set (get_dependents repo (sh_name sh)) \<or> n \<in> set (get_die_if_failed repo (sh_name sh)))"
  by (cases "sh_status sh")
    (auto simp: next_events_def Let_def handle_failed_service_Kill handle_restart_strategy_def
      i32_gt_def split: option.splits if_splits)

text \<open>
  C17. While the system is not shutting down, a round asks to kill exactly: a \<open>Running\<close> service whose
  failed checks exceed \<open>max-failed\<close> (a service without a report counts as -1); every service that
  starts after a \<open>Failed\<close> service with strategy \<open>kill-dependents\<close>; and every service that lists a
  \<open>Failed\<close> service in \<open>die-if-failed\<close>.
\<close>

theorem kill_sent_iff:
  assumes "services_next clock st = Inr evs" and "repo_wf (su_repo st)" and "su_status st = LRunning"
  shows "Kill n \<in> set evs \<longleftrightarrow>
    (\<exists>sh. svc (su_repo st) n = Some sh
      \<and> (sh_status sh = Running \<and> sint (hl_max_failed (sv_healthiness (sh_service sh)))
            < (case sh_healthiness_checks_failed sh of None \<Rightarrow> - 1 | Some c \<Rightarrow> sint c)
         \<or> (\<exists>m failed. svc (su_repo st) m = Some failed \<and> sh_status failed = Failed
              \<and> (m \<in> set (sh_start_after sh) \<and> fl_strategy (sv_failure (sh_service failed)) = KillDependents
                 \<or> m \<in> set (tm_die_if_failed (sv_termination (sh_service sh)))))))"
proof -
  have "Kill n \<in> set evs \<longleftrightarrow> (\<exists>m sh es. svc (su_repo st) m = Some sh
      \<and> next_events (clock m) (su_repo st) sh = Inr es \<and> Kill n \<in> set es)"
    unfolding services_next_mem [OF assms(1,2)] by (simp add: next_evs_def assms(3))
  also have "\<dots> \<longleftrightarrow> (\<exists>m sh. svc (su_repo st) m = Some sh \<and>
      (sh_status sh = Running \<and> n = m \<and> sint (hl_max_failed (sv_healthiness (sh_service sh)))
            < (case sh_healthiness_checks_failed sh of None \<Rightarrow> - 1 | Some c \<Rightarrow> sint c)
        \<or> sh_status sh = Failed \<and> (fl_strategy (sv_failure (sh_service sh)) = KillDependents
          \<and> n \<in> set (get_dependents (su_repo st) m) \<or> n \<in> set (get_die_if_failed (su_repo st) m))))"
    (is "?L \<longleftrightarrow> (\<exists>m sh. svc (su_repo st) m = Some sh \<and> ?R m sh)")
  proof -
    have one: "(\<exists>es. next_events (clock m) (su_repo st) sh = Inr es \<and> Kill n \<in> set es) \<longleftrightarrow> ?R m sh"
      if "svc (su_repo st) m = Some sh" for m sh
    proof -
      have "sh_name sh = m" using repo_wf_name [OF assms(2) that] .
      moreover have "\<exists>es. next_events (clock m) (su_repo st) sh = Inr es"
        if "sh_status sh = Running \<or> sh_status sh = Failed"
        using that by (auto simp: next_events_def Let_def)
      ultimately show ?thesis
        using next_events_Kill [of "clock m" "su_repo st" sh _ n]
        by (auto split: option.splits)
    qed
    then show ?thesis by blast
  qed
  finally show ?thesis
    by (auto simp: get_dependents_iff [OF assms(2)] get_die_if_failed_iff [OF assms(2)])
qed

lemma ex_kill_next:
  "services_next (\<lambda>_. 0) (ex_sup LRunning [ex_handler (ex_die_if_failed ''a'' [''b'']) Running (Some 7),
      ex_handler (ex_service ''b'') Failed None])
    = Inr [StatusUpdate ''b'' FinishedFailed, StatusUpdate ''a'' InKilling, Kill ''a'']"
  by (simp add: services_next_def ex_hm_entries next_evs_def next_events_def Let_def i32_gt_def
      default_healthiness_def handle_failed_service_def get_die_if_failed_def
      handle_restart_strategy_def restart_attempts_are_over_def)

theorem kill_sent_iff_witness:
  "\<exists>sh m. svc (su_repo (ex_sup LRunning [ex_handler (ex_die_if_failed ''a'' [''b'']) Running (Some 7),
      ex_handler (ex_service ''b'') Failed None])) ''a'' = Some sh
    \<and> m \<in> set (tm_die_if_failed (sv_termination (sh_service sh)))"
  using kill_sent_iff [OF ex_kill_next ex_two_wf, of "''a''"]
  by (auto simp: svc_ex_sup split: if_splits)

section \<open>Forced kills\<close>

lemma should_force_kill_iff:
  "should_force_kill now sh sd \<longleftrightarrow> sh_pid sh \<noteq> None \<and> (sd = Some Forcefully
    \<or> (\<exists>start. sh_shutting_down_start sh = Some start
        \<and> as_secs (tm_wait (sv_termination (sh_service sh))) < as_secs (elapsed now start)))"
  by (auto simp: should_force_kill_def split: option.splits)

lemma next_events_ForceKill:
  "next_events now repo sh = Inr es \<Longrightarrow> ForceKill n \<in> set es
    \<longleftrightarrow> sh_status sh = InKilling \<and> n = sh_name sh \<and> should_force_kill now sh None"
  by (cases "sh_status sh")
    (auto simp: next_events_def Let_def handle_restart_strategy_def
      dest: handle_failed_service_events split: if_splits)

lemma next_events_shutting_down_ForceKill:
  "next_events_shutting_down now sh sd repo = Inr es \<Longrightarrow> ForceKill n \<in> set es
    \<longleftrightarrow> sh_status sh = InKilling \<and> n = sh_name sh \<and> should_force_kill now sh (Some sd)"
  by (cases "sh_status sh")
    (auto simp: next_events_shutting_down_def Let_def split: if_splits)

text \<open>
  C18. A round asks to force-kill exactly the services in \<open>InKilling\<close> with a process, once the whole
  seconds since the stop signal exceed those of \<open>wait\<close>, or at once in a forceful shutdown.
\<close>

theorem force_kill_sent_iff:
  assumes "services_next clock st = Inr evs" and "repo_wf (su_repo st)"
  shows "ForceKill n \<in> set evs \<longleftrightarrow>
    (\<exists>sh. svc (su_repo st) n = Some sh \<and> sh_status sh = InKilling \<and> sh_pid sh \<noteq> None
      \<and> (su_status st = ShuttingDown Forcefully
         \<or> (\<exists>start. sh_shutting_down_start sh = Some start
              \<and> as_secs (tm_wait (sv_termination (sh_service sh))) < as_secs (elapsed (clock n) start))))"
proof -
  let ?sd = "case su_status st of LRunning \<Rightarrow> None | ShuttingDown sd \<Rightarrow> Some sd"
  have one: "ForceKill n \<in> set es
      \<longleftrightarrow> sh_status sh = InKilling \<and> n = sh_name sh \<and> should_force_kill now sh ?sd"
    if "next_evs now sh (su_repo st) (su_status st) = Inr es" for now sh es
    using that by (simp add: next_evs_def next_events_ForceKill next_events_shutting_down_ForceKill
        split: lifecycle_status.splits)
  have ok: "\<exists>es. next_evs now sh (su_repo st) (su_status st) = Inr es" if "sh_status sh = InKilling" for now sh
    using that by (auto simp: next_evs_def next_events_def next_events_shutting_down_def Let_def
        split: lifecycle_status.split)
  have "ForceKill n \<in> set evs \<longleftrightarrow> (\<exists>m sh. svc (su_repo st) m = Some sh
      \<and> sh_status sh = InKilling \<and> n = sh_name sh \<and> should_force_kill (clock m) sh ?sd)"
    unfolding services_next_mem [OF assms] using one ok by blast
  also have "\<dots> \<longleftrightarrow> (\<exists>sh. svc (su_repo st) n = Some sh
      \<and> sh_status sh = InKilling \<and> should_force_kill (clock n) sh ?sd)"
    using repo_wf_name [OF assms(2)] by metis
  also have "?sd = Some Forcefully \<longleftrightarrow> su_status st = ShuttingDown Forcefully"
    by (simp split: lifecycle_status.split)
  ultimately show ?thesis
    by (simp add: should_force_kill_iff)
qed

lemma ex_force_next:
  "services_next (\<lambda>_. from_secs 6) (ex_sup LRunning [(ex_handler (ex_service ''a'') InKilling (Some 7))
      \<lparr>sh_shutting_down_start := Some 0\<rparr>]) = Inr [ForceKill ''a'', StatusChanged ''a'' Failed]"
  by (simp add: services_next_def ex_hm_entries next_evs_def next_events_def should_force_kill_def
      elapsed_def sh_name_def default_termination_def default_wait_def Let_def)

theorem force_kill_sent_iff_witness:
  "\<exists>sh. svc (su_repo (ex_sup LRunning [(ex_handler (ex_service ''a'') InKilling (Some 7))
      \<lparr>sh_shutting_down_start := Some 0\<rparr>])) ''a'' = Some sh \<and> sh_status sh = InKilling"
proof -
  have "repo_wf (su_repo (ex_sup LRunning [(ex_handler (ex_service ''a'') InKilling (Some 7))
      \<lparr>sh_shutting_down_start := Some 0\<rparr>]))"
    using ex_a_wf [of LRunning InKilling "Some 7"]
    by (auto simp: repo_wf_def hm_wf_def svc_def hm_get_def ex_sup_def List.map_filter_def sh_name_def split: if_splits)
  from force_kill_sent_iff [OF ex_force_next this, of "''a''"] show ?thesis by auto
qed

end
