(* ===== verification/Shutdown_End.thy ===== *)
theory Shutdown_End
  imports Delivery Lifecycle_Props
begin

text \<open>
  The end of a shutdown: in each round some unfinished service is sent an event that takes it down, at
  once in a forceful shutdown, and in a graceful one after the wait for a process that does not stop.
  So the loop returns.
\<close>

section \<open>A forceful shutdown\<close>

lemma not_finished:
  assumes "draining sd st" and "\<not> all_have_finished (su_repo st)"
  obtains n sh where "svc (su_repo st) n = Some sh" "sh_status sh \<noteq> Finished" "sh_status sh \<noteq> FinishedFailed"
  using assms by (auto simp: draining_def sup_wf_def all_have_finished_iff)

lemma forceful_event:
  assumes "draining Forcefully st" and "svc (su_repo st) n = Some sh"
    and "sh_status sh \<noteq> Finished" and "sh_status sh \<noteq> FinishedFailed"
  shows "\<exists>e es. next_evs now sh (su_repo st) (su_status st) = Inr es \<and> e \<in> set es \<and> takes_down e n (sh_status sh)"
proof -
  from assms(1,2) have "sh_name sh = n" "sh_status sh \<noteq> Starting" "sh_status sh = InKilling \<longrightarrow> sh_pid sh \<noteq> None"
    "su_status st = ShuttingDown Forcefully"
    by (auto simp: draining_def sup_wf_def settled_def repo_wf_name)
  with assms(3,4) show ?thesis
    by (cases "sh_status sh")
      (auto simp: next_evs_def next_events_shutting_down_def Let_def takes_down_def should_force_kill_def
        intro: accepts.intros)
qed

lemma sent_takes_down:
  assumes ok: "drain_ok ous sd k (st, q)"
    and evs: "services_next clock st = Inr evs" "set evs \<subseteq> set q"
    and n: "svc (su_repo st) n = Some sh" "next_evs (clock n) sh (su_repo st) (su_status st) = Inr es"
      "e \<in> set es" "takes_down e n (sh_status sh)"
  shows "drains_to ous os sd k (st, q) (\<lambda>c. rank_of (fst c) n < rank_of st n)"
proof -
  have d: "draining sd st" "drainable sd st q" using ok by (simp_all add: drain_ok_def drain_inv_def)
  then have "repo_wf (su_repo st)" by (simp add: draining_def sup_wf_def)
  with services_next_mem [OF evs(1)] n evs(2) have e: "e \<in> set q" by blast
  with d(2) have "drains sd e" by (auto simp: drainable_def)
  with takes_down_ranked [OF n(4)] n(1,4) have "brings_down e n (rank_of st n)"
    by (auto simp: brings_down_def rank_of_def status_of_def)
  with e show ?thesis by (rule drain.pending_arrives [OF ok])
qed

text \<open>A round later, some service is on its way down.\<close>

lemma drain_progress:
  assumes "drain_ok ous sd k c"
    and down: "\<And>st' q' evs. drain_ok ous sd (Suc k) (st', q') \<Longrightarrow> services_next (ou_clock (ous k)) st' = Inr evs
      \<Longrightarrow> set evs \<subseteq> set q' \<Longrightarrow> config_kept (fst c) st' \<Longrightarrow> \<not> all_have_finished (su_repo st')
      \<Longrightarrow> \<exists>n. drains_to ous os sd (Suc k) (st', q') (\<lambda>c. rank_of (fst c) n < rank_of st' n)"
  shows "drains_to ous os sd k c (\<lambda>c'. finished c' \<or> (\<exists>n. rank_of (fst c') n < rank_of (fst c) n))"
proof -
  obtain st q where c: "c = (st, q)" by fastforce
  let ?goal = "\<lambda>c'. finished c' \<or> (\<exists>n. rank_of (fst c') n < rank_of st n)"
  from drain_next [OF assms(1) [unfolded c], of os] obtain st' rest evs where
    b: "bus_round os (ous k) (st, q) = Inr (st', drop (ou_delivered (ous k)) q @ rest)"
    and ok: "drain_ok ous sd (Suc k) (st', drop (ou_delivered (ous k)) q @ rest)"
    and l: "later rank_of (st, q) (st', drop (ou_delivered (ous k)) q @ rest)"
    and evs: "services_next (ou_clock (ous k)) st' = Inr evs" "set evs \<subseteq> set rest"
    by metis
  have "drains_to ous os sd (Suc k) (st', drop (ou_delivered (ous k)) q @ rest) ?goal"
  proof (cases "all_have_finished (su_repo st')")
    case True
    with ok show ?thesis by (intro reaches_now) (simp_all add: finished_def)
  next
    case False
    from down [OF ok evs(1) _ _ False] evs(2) l obtain n where
      "drains_to ous os sd (Suc k) (st', drop (ou_delivered (ous k)) q @ rest) (\<lambda>c. rank_of (fst c) n < rank_of st' n)"
      by (auto simp: c later_def)
    with l show ?thesis by (elim reaches_weaken) (simp add: later_def, blast intro: less_le_trans)
  qed
  with b l show ?thesis
    unfolding c fst_conv by (rule reaches_round [where os = os and ous = ous and k = k])
qed

lemma forceful_progress:
  assumes "drain_ok ous Forcefully k c"
  shows "drains_to ous os Forcefully k c (\<lambda>c'. finished c' \<or> (\<exists>n. rank_of (fst c') n < rank_of (fst c) n))"
proof (rule drain_progress [OF assms])
  fix st' q' evs
  assume ok: "drain_ok ous Forcefully (Suc k) (st', q')" and evs: "services_next (ou_clock (ous k)) st' = Inr evs"
    "set evs \<subseteq> set q'" and unfinished: "\<not> all_have_finished (su_repo st')"
  have st': "draining Forcefully st'" using ok by (simp add: drain_ok_def drain_inv_def)
  from not_finished [OF this unfinished] obtain n sh where n: "svc (su_repo st') n = Some sh"
    "sh_status sh \<noteq> Finished" "sh_status sh \<noteq> FinishedFailed" .
  from forceful_event [OF st' n, of "ou_clock (ous k) n"] sent_takes_down [OF ok evs n(1)]
  show "\<exists>n. drains_to ous os Forcefully (Suc k) (st', q') (\<lambda>c. rank_of (fst c) n < rank_of st' n)" by blast
qed

section \<open>A graceful shutdown\<close>

text \<open>The clock of the supervisor goes on, and it bounds the wait for a process that was told to stop.\<close>

definition time_passes :: "(nat \<Rightarrow> outside) \<Rightarrow> bool" where
  "time_passes ous \<longleftrightarrow> (\<forall>n t. \<exists>k. \<forall>l\<ge>k. t \<le> ou_clock (ous l) n)"

lemma in_killing_sends_no_kill:
  assumes "draining sd st" and "services_next clock st = Inr evs" and "status_of st n = Some InKilling"
  shows "Kill n \<notin> set evs"
proof
  assume k: "Kill n \<in> set evs"
  from assms(1) have wf: "repo_wf (su_repo st)" by (simp add: draining_def sup_wf_def)
  from services_next_mem [OF assms(2) wf, of "Kill n"] k assms(1) obtain m sh es where
    m: "svc (su_repo st) m = Some sh" "next_events_shutting_down (clock m) sh sd (su_repo st) = Inr es" "Kill n \<in> set es"
    by (auto simp: next_evs_def draining_def)
  with next_events_shutting_down_Kill [OF m(2)] repo_wf_name [OF wf m(1)] assms(3)
  show False by (auto simp: status_of_def)
qed

lemma kills_arrive:
  assumes "drain_ok ous sd k (st, q)" and "status_of st n = Some InKilling"
  shows "drains_to ous os sd k (st, q) (\<lambda>c. rank_of (fst c) n < srank InKilling
    \<or> status_of (fst c) n = Some InKilling \<and> Kill n \<notin> set (snd c))"
proof -
  let ?Q = "\<lambda>c. rank_of (fst c) n < srank InKilling \<or> status_of (fst c) n = Some InKilling \<and> Kill n \<notin> set (snd c)"
  let ?P = "\<lambda>i k. \<forall>st q. drain_ok ous sd k (st, q) \<longrightarrow> status_of st n = Some InKilling
      \<longrightarrow> Kill n \<notin> set (drop i q) \<longrightarrow> drains_to ous os sd k (st, q) ?Q"
  from assms(1) have "delivers ous" by (rule drain.fair)
  then have all: "?P i k" for i k
  proof (induction i k rule: delivery_induct [consumes 1, case_names step])
    case (step i k)
    show ?case
    proof (intro allI impI)
      fix st q assume a: "drain_ok ous sd k (st, q)" "status_of st n = Some InKilling"
        "Kill n \<notin> set (drop i q)"
      let ?d = "ou_delivered (ous k)"
      from drain_next [OF a(1), of os] obtain st' rest evs where
        r: "bus_round os (ous k) (st, q) = Inr (st', drop ?d q @ rest)"
        "drain_ok ous sd (Suc k) (st', drop ?d q @ rest)" "later rank_of (st, q) (st', drop ?d q @ rest)"
        "services_next (ou_clock (ous k)) st' = Inr evs"
        "\<And>n. Kill n \<in> set rest \<Longrightarrow> Kill n \<in> set evs" by metis
      show "drains_to ous os sd k (st, q) ?Q"
      proof (rule reaches_round [where os = os and ous = ous and k = k, OF r(1,3)], cases "rank_of st' n < srank InKilling")
        case True
        with r(2) show "drains_to ous os sd (Suc k) (st', drop ?d q @ rest) ?Q" by (intro reaches_now) simp_all
      next
        case False
        with status_kept [OF a(2)] r(3) have killing: "status_of st' n = Some InKilling" by (simp add: later_def)
        have "Kill n \<notin> set rest"
          using in_killing_sends_no_kill [OF _ r(4) killing] r(2,5) by (auto simp: drain_ok_def drain_inv_def)
        show "drains_to ous os sd (Suc k) (st', drop ?d q @ rest) ?Q"
        proof (cases "?d \<le> i")
          case True
          then have "Kill n \<notin> set (drop (i - ?d) (drop ?d q @ rest))"
            using a(3) \<open>Kill n \<notin> set rest\<close> by (auto dest: in_set_dropD)
          with step [OF True] r(2) killing show ?thesis by blast
        next
          case False
          then have "Kill n \<notin> set (drop ?d q)" using a(3) set_drop_subset_set_drop [of i ?d q] by auto
          with killing \<open>Kill n \<notin> set rest\<close> r(2) show ?thesis by (intro reaches_now) simp_all
        qed
      qed
    qed
  qed
  from all [of k "length q"] assms show ?thesis by simp
qed

lemma srank_in_killing: "srank s = 4 \<longleftrightarrow> s = InKilling"
  by (cases s) simp_all

lemma start_kept_event:
  assumes "handle_event os now st e = Inr (st', out, acts)" and "drains sd e" and "e \<noteq> Kill n"
    and "svc (su_repo st) n = Some sh" and "sh_status sh = InKilling"
    and "svc (su_repo st') n = Some sh'" and "sh_status sh' = InKilling"
  shows "sh_shutting_down_start sh' = sh_shutting_down_start sh"
proof (cases "e = StatusUpdate n InKilling")
  case True
  with assms have "st' = st"
    by (auto elim!: on_status_update_cases simp: change_status_def handle_status_change_eq Let_def)
  with assms show ?thesis by simp
next
  case False
  show ?thesis using assms(1,2,6,7)
    by (cases rule: drained_killing) (use False assms in auto)
qed

lemma start_kept_all:
  assumes "handle_all os st tes = Inr (st', out, acts)" and "\<forall>e \<in> set (map snd tes). drains sd e \<and> e \<noteq> Kill n"
    and "svc (su_repo st) n = Some sh" and "sh_status sh = InKilling"
    and "svc (su_repo st') n = Some sh'" and "sh_status sh' = InKilling"
  shows "sh_shutting_down_start sh' = sh_shutting_down_start sh"
  using assms
proof (induction tes arbitrary: st sh out acts)
  case Nil
  then show ?case by (simp add: handle_all_Nil)
next
  case (Cons te tes)
  from Cons.prems(1) obtain st1 out1 acts1 out2 acts2
    where h: "handle_event os (fst te) st (snd te) = Inr (st1, out1, acts1)"
      and r: "handle_all os st1 tes = Inr (st', out2, acts2)" by (auto simp: handle_all_Cons)
  have d: "drains sd (snd te)" "snd te \<noteq> Kill n" "\<forall>e \<in> set (map snd tes). drains sd e" using Cons.prems(2) by auto
  have "rank_of st n = 4" "rank_of st' n = 4"
    using Cons.prems(3-6) by (simp_all add: rank_of_def status_of_def)
  with rank_of_event [OF h d(1), of n] rank_of_all [OF r d(3), of n] have "rank_of st1 n = srank InKilling" by simp
  then obtain sh1 where sh1: "svc (su_repo st1) n = Some sh1" "sh_status sh1 = InKilling"
    by (auto simp: rank_of_def status_of_def srank_in_killing split: option.splits) 
  from start_kept_event [OF h d(1,2) Cons.prems(3,4) sh1] Cons.IH [OF r _ sh1 Cons.prems(5,6)] Cons.prems(2)
  show ?case by simp
qed

lemma start_kept_round:
  assumes inv: "drain_inv ous sd k (st, q)" and b: "bus_round os (ous k) (st, q) = Inr (st', q')"
    and "Kill n \<notin> set q" and "svc (su_repo st) n = Some sh" and "sh_status sh = InKilling"
    and "svc (su_repo st') n = Some sh'" and "sh_status sh' = InKilling"
  shows "sh_shutting_down_start sh' = sh_shutting_down_start sh"
proof -
  let ?in = "round_input_of (ous k) q"
  from b obtain sent acts where "run_round os ?in st = Inr (st', sent, acts)" by (auto simp: bus_round_Inr)
  then obtain out where h: "handle_all os (round_start ?in st) (ri_received ?in) = Inr (st', out, acts)"
    by (auto elim: run_round_cases)
  have "\<forall>e \<in> set (map snd (ri_received ?in)). drains sd e \<and> e \<noteq> Kill n"
    using inv assms(3) set_take_subset [of "ou_delivered (ous k)" q]
    unfolding received_events drain_inv_def drainable_def by auto
  moreover have "svc (su_repo (round_start ?in st)) n = Some sh" using assms(4) by simp
  ultimately show ?thesis by (rule start_kept_all [OF h]) (rule assms(5-7))+
qed

lemma wait_over:
  assumes "start + (as_secs wait + 1) * nanos_per_sec \<le> now"
  shows "as_secs wait < as_secs (elapsed now start)"
proof -
  have "(as_secs wait + 1) * nanos_per_sec \<le> elapsed now start" using assms by (simp add: elapsed_def)
  then have "as_secs wait + 1 \<le> as_secs (elapsed now start)"
    using less_eq_div_iff_mult_less_eq [of nanos_per_sec] by (simp add: as_secs_def nanos_per_sec_def)
  then show ?thesis by simp
qed

lemma killing_ends:
  assumes ok: "drain_ok ous sd k (st, q)" and time: "time_passes ous"
    and sd: "sd = Gracefully" and "status_of st n = Some InKilling" and "Kill n \<notin> set q"
  shows "drains_to ous os sd k (st, q) (\<lambda>c. rank_of (fst c) n < srank InKilling)"
proof -
  from assms(4) obtain sh where sh: "svc (su_repo st) n = Some sh" "sh_status sh = InKilling"
    by (auto simp: status_of_def)
  with ok sd assms(5) obtain start where start: "sh_shutting_down_start sh = Some start"
    by (auto simp: drain_ok_def drain_inv_def stop_noted_def)
  define wait where "wait = tm_wait (sv_termination (sh_service sh))"
  from time obtain l where l: "\<And>m. l \<le> m \<Longrightarrow> start + (as_secs wait + 1) * nanos_per_sec \<le> ou_clock (ous m) n"
    unfolding time_passes_def by blast
  have "drains_to ous os sd k (st, q) (\<lambda>c. rank_of (fst c) n < srank InKilling)"
    if "drain_ok ous sd k (st, q)" "svc (su_repo st) n = Some sh" "sh_status sh = InKilling"
      "Kill n \<notin> set q" "sh_shutting_down_start sh = Some start" "wait = tm_wait (sv_termination (sh_service sh))"
    for k st q sh
    using that
  proof (induction "l - k" arbitrary: k st q sh rule: less_induct)
    case less
    let ?d = "ou_delivered (ous k)"
    from drain_next [OF less.prems(1), of os] obtain st' rest evs where
      b: "bus_round os (ous k) (st, q) = Inr (st', drop ?d q @ rest)"
      and r: "drain_ok ous sd (Suc k) (st', drop ?d q @ rest)" "later rank_of (st, q) (st', drop ?d q @ rest)"
        "services_next (ou_clock (ous k)) st' = Inr evs" "set evs \<subseteq> set rest"
        "\<And>n. Kill n \<in> set rest \<Longrightarrow> Kill n \<in> set evs" by metis
    show ?case
    proof (rule reaches_round [where os = os and ous = ous and k = k, OF b r(2)], cases "rank_of st' n < srank InKilling")
      case True
      with r(1) show "drains_to ous os sd (Suc k) (st', drop ?d q @ rest) (\<lambda>c. rank_of (fst c) n < srank InKilling)"
        by (intro reaches_now) simp_all
    next
      case False
      with status_kept [of st n InKilling st'] less.prems(2,3) r(2) have killing: "status_of st' n = Some InKilling"
        by (simp add: later_def status_of_def)
      then obtain sh' where sh': "svc (su_repo st') n = Some sh'" "sh_status sh' = InKilling"
        by (auto simp: status_of_def)
      have inv: "drain_inv ous sd k (st, q)" using less.prems(1) by (simp add: drain_ok_def)
      have st': "draining sd st'" using r(1) by (simp add: drain_ok_def drain_inv_def)
      have start': "sh_shutting_down_start sh' = Some start"
        using start_kept_round [OF inv b less.prems(4,2,3) sh'] less.prems(5) by simp
      have wait': "wait = tm_wait (sv_termination (sh_service sh'))"
        using r(2) less.prems(2,6) sh'(1) unfolding later_def config_kept_def
        by (metis fst_conv option.inject option.map(2))
      have "Kill n \<notin> set (drop ?d q @ rest)"
        using in_killing_sends_no_kill [OF st' r(3) killing] r(5) less.prems(4) by (auto dest: in_set_dropD)
      note IH = less.hyps [OF _ r(1) sh' this start' wait']
      show "drains_to ous os sd (Suc k) (st', drop ?d q @ rest) (\<lambda>c. rank_of (fst c) n < srank InKilling)"
      proof (cases "k < l")
        case True
        then show ?thesis by (intro IH) simp
      next
        case False
        have pid: "sh_pid sh' \<noteq> None" using st' sh' by (auto simp: draining_def settled_def)
        have name: "sh_name sh' = n" using st' sh'(1) by (auto simp: draining_def sup_wf_def repo_wf_name)
        have "next_evs (ou_clock (ous k) n) sh' (su_repo st') (su_status st') = Inr [ForceKill n]"
          using wait_over [OF l [of k]] False st' pid sh'(2) start' wait' name
          by (simp add: next_evs_def draining_def next_events_shutting_down_def Let_def should_force_kill_def)
        from sent_takes_down [OF r(1,3) _ sh'(1) this, of "ForceKill n" os] r(4) sh'
        show ?thesis by (simp add: takes_down_def rank_of_def status_of_def le_supI2)
      qed
    qed
  qed
  from this [OF ok sh assms(5) start wait_def] show ?thesis .
qed

lemma in_killing_progress:
  assumes "drain_ok ous Gracefully k (st, q)" and "time_passes ous" and "status_of st n = Some InKilling"
  shows "drains_to ous os Gracefully k (st, q) (\<lambda>c. rank_of (fst c) n < srank InKilling)"
  using kills_arrive [OF assms(1,3)]
proof (rule reaches_trans)
  fix m c' assume c': "drain_ok ous Gracefully m c'"
    and d: "rank_of (fst c') n < srank InKilling \<or> status_of (fst c') n = Some InKilling \<and> Kill n \<notin> set (snd c')"
  show "drains_to ous os Gracefully m c' (\<lambda>c. rank_of (fst c) n < srank InKilling)"
  proof (cases "rank_of (fst c') n < srank InKilling")
    case True
    with c' show ?thesis by (rule reaches_now)
  next
    case False
    with d c' killing_ends [of ous Gracefully m "fst c'" "snd c'" n os] assms(2) show ?thesis by auto
  qed
qed

lemma graceful_event:
  assumes "draining Gracefully st" and "shutdown_ranked (su_repo st) rank" and "\<not> all_have_finished (su_repo st)"
  obtains n sh where "svc (su_repo st) n = Some sh" "sh_status sh = InKilling"
  | n sh es r t where "svc (su_repo st) n = Some sh" "next_evs (clock n) sh (su_repo st) (su_status st) = Inr es"
      "StatusUpdate n r \<in> set es" "accepts (sh_status sh) r t"
proof -
  from not_finished [OF assms(1,3)] have "\<exists>m. unfinished (su_repo st) m" unfolding unfinished_def by metis
  then obtain n where n: "unfinished (su_repo st) n" "\<And>d. rank d < rank n \<Longrightarrow> \<not> unfinished (su_repo st) d"
    using least_ranked [of "unfinished (su_repo st)" _ rank] by metis
  then obtain sh where sh: "svc (su_repo st) n = Some sh" "sh_status sh \<noteq> Finished" "sh_status sh \<noteq> FinishedFailed"
    by (auto simp: unfinished_def)
  show ?thesis
  proof (cases "sh_status sh = InKilling")
    case True
    with sh(1) show ?thesis by (rule that(1))
  next
    case False
    have k: "is_service_killable (su_repo st) sh = Inr True"
      using assms(1,2) n(2) sh(1) by (intro killable_of_finished) (auto simp: draining_def sup_wf_def shutdown_ranked_def)
    have s: "sh_status sh \<notin> {Starting, InKilling, Finished, FinishedFailed}"
      using assms(1) sh False by (auto simp: draining_def settled_def)
    have "sh_name sh = n" using assms(1) sh(1) by (auto simp: draining_def sup_wf_def repo_wf_name)
    with shutdown_request_sent [OF k s, of "clock n" Gracefully] assms(1) that(2) [OF sh(1)] shutdown_request_accepted [OF s]
    show ?thesis by (auto simp: next_evs_def draining_def)
  qed
qed

lemma shutdown_ranked_kept:
  assumes "shutdown_ranked (su_repo st) rank" and "config_kept st st'"
  shows "shutdown_ranked (su_repo st') rank"
  unfolding shutdown_ranked_def
proof (intro allI impI)
  fix n sh' assume "svc (su_repo st') n = Some sh'"
  with assms(2) obtain sh where "svc (su_repo st) n = Some sh" "sh_service sh = sh_service sh'"
    by (rule config_kept_svc)
  with assms(1) show "\<forall>d \<in> set (sh_shutdown_after sh'). rank d < rank n"
    unfolding shutdown_ranked_def sh_shutdown_after_def by metis
qed

lemma graceful_progress:
  assumes "drain_ok ous Gracefully k c" and "shutdown_ranked (su_repo (fst c)) rank" and time: "time_passes ous"
  shows "drains_to ous os Gracefully k c (\<lambda>c'. finished c' \<or> (\<exists>n. rank_of (fst c') n < rank_of (fst c) n))"
proof (rule drain_progress [OF assms(1)])
  fix st' q' evs
  assume ok: "drain_ok ous Gracefully (Suc k) (st', q')" and evs: "services_next (ou_clock (ous k)) st' = Inr evs"
    "set evs \<subseteq> set q'" and kept: "config_kept (fst c) st'" and unfinished: "\<not> all_have_finished (su_repo st')"
  have "draining Gracefully st'" using ok by (simp add: drain_ok_def drain_inv_def)
  then show "\<exists>n. drains_to ous os Gracefully (Suc k) (st', q') (\<lambda>c. rank_of (fst c) n < rank_of st' n)"
    using shutdown_ranked_kept [OF assms(2) kept] unfinished
  proof (cases rule: graceful_event [where clock = "ou_clock (ous k)", consumes 3, case_names killing asked])
    case (killing n sh)
    then have "status_of st' n = Some InKilling" "rank_of st' n = srank InKilling"
      by (simp_all add: status_of_def rank_of_def)
    with in_killing_progress [OF ok time, of n os] show ?thesis by metis
  next
    case (asked n sh es r t)
    with sent_takes_down [OF ok evs, of n sh es _ os] show ?thesis by (auto simp: takes_down_def)
  qed
qed

section \<open>Properties\<close>

text \<open>
  C11. A forceful shutdown ends: if no service waits for the report of its process, then, however late
  the bus delivers and whatever the processes do, the supervisor's loop returns with every service
  finished. The bus delivers every event in the end, the other threads send nothing but health
  reports, and the operating system reports the end of a process once.
\<close>

theorem forceful_shutdown_ends:
  assumes "draining Forcefully st" and "drainable Forcefully st pending" and "exits_fresh ous k (st, pending)"
    and "shutdown_env Forcefully st ous"
  shows "\<exists>st'. horust_run os p ous k (st, pending) = Some (Inr (st', run_end p st'))
    \<and> all_have_finished (su_repo st')"
proof -
  have "drain_ok ous Forcefully k (st, pending)" using assms by (simp add: drain_ok_def drain_inv_def)
  then have "drains_to ous os Forcefully k (st, pending) finished"
    by (rule drain.goal_reached) (rule forceful_progress)
  then show ?thesis by (rule drains_to_end)
qed

text \<open>
  C12. A graceful shutdown ends: if \<open>shutdown-after\<close> is acyclic (ranked), no service waits for the
  report of its process, and each one being killed has its stop time noted or its signal pending,
  then, however late the bus delivers and even if no process ever exits, the supervisor's loop
  returns with every service finished, as long as time passes.
\<close>

theorem graceful_shutdown_ends:
  assumes "draining Gracefully st" and "drainable Gracefully st pending" and "exits_fresh ous k (st, pending)"
    and "stop_noted st pending" and "shutdown_ranked (su_repo st) rank"
    and "shutdown_env Gracefully st ous" and "time_passes ous"
  shows "\<exists>st'. horust_run os p ous k (st, pending) = Some (Inr (st', run_end p st'))
    \<and> all_have_finished (su_repo st')"
proof -
  have "drain_ok ous Gracefully k (st, pending)" using assms(1-4,6) by (simp add: drain_ok_def drain_inv_def)
  then have "drains_to ous os Gracefully k (st, pending) finished"
    by (rule drain.goal_reached)
      (rule graceful_progress, use assms(5,7) shutdown_ranked_kept in \<open>auto simp: later_def\<close>)
  then show ?thesis by (rule drains_to_end)
qed

text \<open>One running service, a bus that delivers everything at once, and a process that never exits.\<close>

definition ex_outside :: "nat \<Rightarrow> outside" where
  "ex_outside k = \<lparr>ou_delivered = 10, ou_times = (\<lambda>_. 0), ou_signal = False, ou_clock = (\<lambda>_. k),
     ou_waitpid = (\<lambda>_. OtherStatus), ou_sent = [], ou_schedule = []\<rparr>"

lemma ex_outside_env: "shutdown_env sd st ex_outside" "time_passes ex_outside" "exits_fresh ex_outside k c"
  by (auto simp: shutdown_env_def reaped_once_def delivers_def calm_def time_passes_def exits_fresh_def
      ex_outside_def reports_def)

lemma ex_draining: "draining sd (ex_sup (ShuttingDown sd) [ex_handler (ex_service ''a'') Running (Some 7)])"
proof -
  have "deps_known (su_repo (ex_sup (ShuttingDown sd) [ex_handler (ex_service ''a'') Running (Some 7)]))"
    by (rule deps_known_ex_sup) (simp add: sh_start_after_def sh_shutdown_after_def)
  moreover have "pids_agree (su_repo (ex_sup (ShuttingDown sd) [ex_handler (ex_service ''a'') Running (Some 7)]))"
    by (auto simp: pids_agree_def get_service_by_pid_def ex_sup_def svc_def hm_get_def List.map_filter_def)
  ultimately show ?thesis by (simp add: draining_def sup_wf_def settled_def)
qed

theorem forceful_shutdown_ends_witness:
  "\<exists>st'. horust_run ex_os 1 ex_outside 0 (ex_sup (ShuttingDown Forcefully) [ex_handler (ex_service ''a'') Running (Some 7)], [])
    = Some (Inr (st', run_end 1 st'))"
  using forceful_shutdown_ends [OF ex_draining _ ex_outside_env(3,1), of "[]" ex_os 1 0]
  by (auto simp: drainable_def)

lemma ex_stop_noted:
  "stop_noted (ex_sup (ShuttingDown sd) [ex_handler (ex_service ''a'') Running (Some 7)]) []"
  "shutdown_ranked (su_repo (ex_sup (ShuttingDown sd) [ex_handler (ex_service ''a'') Running (Some 7)])) (\<lambda>_. 0)"
  by (auto simp: stop_noted_def shutdown_ranked_def sh_shutdown_after_def split: if_splits)

theorem graceful_shutdown_ends_witness:
  "\<exists>st'. horust_run ex_os 1 ex_outside 0 (ex_sup (ShuttingDown Gracefully) [ex_handler (ex_service ''a'') Running (Some 7)], [])
    = Some (Inr (st', run_end 1 st'))"
  using graceful_shutdown_ends [OF ex_draining _ ex_outside_env(3) ex_stop_noted ex_outside_env(1,2), of ex_os 1 0]
  by (auto simp: drainable_def)

end
