(* ===== verification/Validation.thy ===== *)
theory Validation
  imports Repo
begin

text \<open>
  \<open>validate\<close> of \<open>formats/service.rs\<close> with its errors (\<open>error.rs\<close>), and \<open>ResourceLimit::apply\<close>: the checks
  a set of services passes before it reaches the supervisor, and the limits handed to the control
  group library.
\<close>

section \<open>Validation errors (error.rs)\<close>

datatype validation_error =
  MissingDependency string string          \<comment> \<open>\<open>before\<close>, \<open>after\<close>\<close>
| MissingShutdownDependency string string  \<comment> \<open>\<open>before\<close>, \<open>after\<close>\<close>
| CommandEmpty string

fun show_validation_error :: "validation_error \<Rightarrow> string" where
  "show_validation_error (MissingDependency before after) =
    ''Service '' @ [CHR 39] @ before @ [CHR 39] @ '', should start after '' @ [CHR 39] @ after @ [CHR 39]
      @ '', but there is no service with such name.''"
| "show_validation_error (MissingShutdownDependency before after) =
    ''Service '' @ [CHR 39] @ after @ [CHR 39] @ '' has shutdown-after = ['' @ [CHR 39] @ before @ [CHR 39]
      @ ''], but there is no service with such name.''"
| "show_validation_error (CommandEmpty service) =
    ''Command is defined, but it is empty for service: '' @ service"

fun join_strings :: "string \<Rightarrow> string list \<Rightarrow> string" where
  "join_strings sep [] = []"
| "join_strings sep [s] = s"
| "join_strings sep (s # t # ss) = s @ sep @ join_strings sep (t # ss)"

definition validation_errors :: "validation_error list \<Rightarrow> string" where
  "validation_errors errors =
    join_strings [CHR 10] (map (\<lambda>s. ''* '' @ show_validation_error s) errors)"

section \<open>Validation\<close>

definition has_service :: "service list \<Rightarrow> service_name \<Rightarrow> bool" where
  "has_service services n \<longleftrightarrow> list_ex (\<lambda>s. sv_name s = n) services"

definition validate_one :: "service list \<Rightarrow> service \<Rightarrow> validation_error list" where
  "validate_one services service =
    (if sv_command service = [] then [CommandEmpty (sv_name service)] else [])
    @ concat (map (\<lambda>n. if has_service services n then [] else [MissingDependency n (sv_name service)])
        (sv_start_after service))
    @ concat (map (\<lambda>n. if has_service services n then []
          else [MissingShutdownDependency n (sv_name service)])
        (sv_shutdown_after service))"

definition validate :: "service list \<Rightarrow> validation_error list + service list" where
  "validate services =
    (let errors = concat (map (validate_one services) services)
     in if errors = [] then Inr services else Inl errors)"

section \<open>Resource limits\<close>

text \<open>
  What the control group library is told; \<open>f64\<close> arithmetic and the library calls are arguments.
  \<open>as i64\<close> keeps the low 64 bits and reads them as signed.
\<close>

record cgroup_resources =
  cg_cpu_quota :: "int option"
  cg_memory_limit :: "int option"
  cg_pids_limit :: "int option"

datatype cgroup_call =
  CreateManager string string          \<comment> \<open>path, container name\<close>
| AddTask pid
| ApplyResources cgroup_resources

definition as_i64 :: "nat \<Rightarrow> int" where
  "as_i64 n = sint (of_nat n :: 64 word)"

definition cgroup_resources_of :: "(f64 \<Rightarrow> int) \<Rightarrow> resource_limit \<Rightarrow> cgroup_resources" where
  "cgroup_resources_of quota r =
    \<lparr>cg_cpu_quota = map_option quota (rl_cpu r), cg_memory_limit = map_option as_i64 (rl_memory r),
     cg_pids_limit = map_option as_i64 (rl_pids_max r)\<rparr>"

text \<open>The calls made in order, up to and including the first one that fails, and whether all
  succeeded.\<close>

fun until_failure :: "('c \<Rightarrow> bool) \<Rightarrow> 'c list \<Rightarrow> bool \<times> 'c list" where
  "until_failure succeeds [] = (True, [])"
| "until_failure succeeds (c # cs) =
    (if succeeds c then (let (ok, done) = until_failure succeeds cs in (ok, c # done)) else (False, [c]))"

definition resource_limit_apply ::
  "string \<Rightarrow> (f64 \<Rightarrow> int) \<Rightarrow> (cgroup_call \<Rightarrow> bool) \<Rightarrow> resource_limit \<Rightarrow> string \<Rightarrow> pid
    \<Rightarrow> bool \<times> cgroup_call list" where
  "resource_limit_apply cgroup_root quota succeeds r n p =
    (if has_no_limit r then (True, [])
     else until_failure succeeds
       [CreateManager (cgroup_root @ ''/horust_'' @ n) n, AddTask p,
        ApplyResources (cgroup_resources_of quota r)])"

section \<open>Lemmas\<close>

lemma has_service_iff [simp]: "has_service services n \<longleftrightarrow> n \<in> sv_name ` set services"
  by (auto simp: has_service_def list_ex_iff)

lemma validate_one_set:
  "set (validate_one services s) =
    {e. e = CommandEmpty (sv_name s) \<and> sv_command s = []}
    \<union> (\<lambda>n. MissingDependency n (sv_name s)) ` (set (sv_start_after s) - sv_name ` set services)
    \<union> (\<lambda>n. MissingShutdownDependency n (sv_name s)) ` (set (sv_shutdown_after s) - sv_name ` set services)"
  by (auto simp: validate_one_def split: if_splits)

definition services_ok :: "service list \<Rightarrow> bool" where
  "services_ok services \<longleftrightarrow> (\<forall>s \<in> set services. sv_command s \<noteq> []
    \<and> set (sv_start_after s) \<union> set (sv_shutdown_after s) \<subseteq> sv_name ` set services)"

lemma validate_one_nil:
  "validate_one services s = [] \<longleftrightarrow> sv_command s \<noteq> []
    \<and> set (sv_start_after s) \<union> set (sv_shutdown_after s) \<subseteq> sv_name ` set services"
  unfolding set_empty [symmetric] validate_one_set by auto

lemma validate_Inr: "validate services = Inr r \<longleftrightarrow> r = services \<and> services_ok services"
  by (auto simp: validate_def services_ok_def validate_one_nil)

lemma services_ok_deps_known:
  assumes "services_ok services"
  shows "deps_known (repo_new services)"
  unfolding deps_known_def svc_repo_new
proof (intro allI impI ballI)
  fix n sh d
  assume "map_option handler_of (find (\<lambda>s. sv_name s = n) (rev services)) = Some sh"
  then obtain s where f: "find (\<lambda>s. sv_name s = n) (rev services) = Some s" and sh: "sh = handler_of s"
    by auto
  from f obtain i where "i < length (rev services)" "s = rev services ! i" by (auto simp: find_Some_iff)
  then have "s \<in> set (rev services)" by (simp only: nth_mem)
  then have s: "s \<in> set services" by simp
  assume "d \<in> set (sh_start_after sh) \<union> set (sh_shutdown_after sh)"
  then have "d \<in> set (sv_start_after s) \<union> set (sv_shutdown_after s)"
    by (simp add: sh sh_start_after_def sh_shutdown_after_def handler_of_def)
  with s assms have "d \<in> sv_name ` set services"
    unfolding services_ok_def by blast
  then obtain t where "t \<in> set services" "sv_name t = d" by blast
  then have "find (\<lambda>s. sv_name s = d) (rev services) \<noteq> None"
    unfolding find_None_iff by auto
  then show "map_option handler_of (find (\<lambda>s. sv_name s = d) (rev services)) \<noteq> None"
    by simp
qed

section \<open>Properties\<close>

text \<open>
  C30. Validation is exact: the services are accepted, unchanged, if and only if every command is
  non-empty and every \<open>start-after\<close> and \<open>shutdown-after\<close> entry names one of them; otherwise every
  defect, and nothing else, is in the list of errors.
\<close>

theorem validate_exact:
  "(validate services = Inr accepted \<longleftrightarrow> accepted = services \<and>
      (\<forall>s \<in> set services. sv_command s \<noteq> []
        \<and> set (sv_start_after s) \<union> set (sv_shutdown_after s) \<subseteq> sv_name ` set services))
    \<and> (validate services = Inl errors \<longrightarrow>
        set errors = {CommandEmpty (sv_name s) | s. s \<in> set services \<and> sv_command s = []}
          \<union> {MissingDependency n (sv_name s) | n s. s \<in> set services \<and> n \<in> set (sv_start_after s)
               \<and> n \<notin> sv_name ` set services}
          \<union> {MissingShutdownDependency n (sv_name s) | n s. s \<in> set services
               \<and> n \<in> set (sv_shutdown_after s) \<and> n \<notin> sv_name ` set services})"
proof
  show "validate services = Inr accepted \<longleftrightarrow> accepted = services \<and>
      (\<forall>s \<in> set services. sv_command s \<noteq> []
        \<and> set (sv_start_after s) \<union> set (sv_shutdown_after s) \<subseteq> sv_name ` set services)"
    unfolding validate_Inr services_ok_def ..
  have mem: "e \<in> set errors \<longleftrightarrow> (\<exists>s \<in> set services. e \<in> set (validate_one services s))"
    if "validate services = Inl errors" for e
    using that by (auto simp: validate_def Let_def split: if_splits)
  show "validate services = Inl errors \<longrightarrow>
        set errors = {CommandEmpty (sv_name s) | s. s \<in> set services \<and> sv_command s = []}
          \<union> {MissingDependency n (sv_name s) | n s. s \<in> set services \<and> n \<in> set (sv_start_after s)
               \<and> n \<notin> sv_name ` set services}
          \<union> {MissingShutdownDependency n (sv_name s) | n s. s \<in> set services
               \<and> n \<in> set (sv_shutdown_after s) \<and> n \<notin> sv_name ` set services}" (is "_ \<longrightarrow> _ = ?E")
  proof (intro impI set_eqI)
    fix e
    assume "validate services = Inl errors"
    from mem [OF this, of e] show "e \<in> set errors \<longleftrightarrow> e \<in> ?E"
      unfolding validate_one_set by (cases e) fastforce+
  qed
qed

definition ex_broken :: service where
  "ex_broken = (from_command ''/'' 0 [])\<lparr>sv_name := ''web'', sv_start_after := [''db'']\<rparr>"

theorem validate_exact_witness:
  "set [CommandEmpty ''web'', MissingDependency ''db'' ''web'']
    = {CommandEmpty ''web'', MissingDependency ''db'' ''web''}
    \<and> validate [ex_broken] = Inl [CommandEmpty ''web'', MissingDependency ''db'' ''web'']"
proof -
  have v: "validate [ex_broken] = Inl [CommandEmpty ''web'', MissingDependency ''db'' ''web'']"
    by (simp add: validate_def validate_one_def ex_broken_def from_command_def default_service_def)
  from validate_exact [of "[ex_broken]" "[]" "[CommandEmpty ''web'', MissingDependency ''db'' ''web'']"] v
  show ?thesis by simp
qed

text \<open>
  The message for a missing \<open>start-after\<close> entry has the two names the wrong way round: it says
  that the missing service should start after the one that is there.
\<close>

lemma missing_dependency_message:
  "validate [(from_command dir uid (c # cmd))\<lparr>sv_name := n, sv_start_after := [d]\<rparr>] =
    (if d = n then Inr [(from_command dir uid (c # cmd))\<lparr>sv_name := n, sv_start_after := [d]\<rparr>]
     else Inl [MissingDependency d n])
    \<and> show_validation_error (MissingDependency d n) =
      ''Service '' @ [CHR 39] @ d @ [CHR 39] @ '', should start after '' @ [CHR 39] @ n @ [CHR 39]
        @ '', but there is no service with such name.''"
  by (simp add: validate_def validate_one_def from_command_def default_service_def)

lemma as_i64_id_iff: "n < 2 ^ 64 \<Longrightarrow> as_i64 n = int n \<longleftrightarrow> n < 2 ^ 63"
proof -
  assume n: "n < 2 ^ 64"
  show ?thesis
  proof (cases "n < 2 ^ 63")
    case True
    then have "int n < 2 ^ 63" by (metis of_nat_less_iff of_nat_numeral of_nat_power)
    then have "signed_take_bit 63 (int n) = int n"
      by (intro signed_take_bit_int_eq_self) auto
    with True show ?thesis by (simp add: as_i64_def signed_of_nat)
  next
    case False
    have "sint (of_nat n :: 64 word) < 2 ^ 63"
      using sint_lt [of "of_nat n :: 64 word"] by simp
    moreover from False have "2 ^ 63 \<le> int n" by (metis not_less of_nat_le_iff of_nat_numeral of_nat_power)
    ultimately show ?thesis using False by (auto simp: as_i64_def)
  qed
qed

text \<open>
  Limits: without a limit no control group is made; with one, the process is added to the group
  before the limits are applied, nothing follows a failed call, and a memory or process limit arrives
  as configured exactly when it is below \<open>2 ^ 63\<close>: a larger \<open>u64\<close> turns negative.
\<close>

lemma limits_applied:
  "resource_limit_apply root quota succeeds r n p =
    (if rl_cpu r = None \<and> rl_memory r = None \<and> rl_pids_max r = None then (True, [])
     else let create = CreateManager (root @ ''/horust_'' @ n) n;
              apply_call = ApplyResources (cgroup_resources_of quota r)
          in if \<not> succeeds create then (False, [create])
             else if \<not> succeeds (AddTask p) then (False, [create, AddTask p])
             else (succeeds apply_call, [create, AddTask p, apply_call]))
    \<and> (\<forall>m < 2 ^ 64. rl_memory r = Some m \<longrightarrow>
        (cg_memory_limit (cgroup_resources_of quota r) = Some (int m) \<longleftrightarrow> m < 2 ^ 63))
    \<and> (\<forall>m < 2 ^ 64. rl_pids_max r = Some m \<longrightarrow>
        (cg_pids_limit (cgroup_resources_of quota r) = Some (int m) \<longleftrightarrow> m < 2 ^ 63))"
  by (auto simp: resource_limit_apply_def has_no_limit_def Let_def cgroup_resources_of_def as_i64_id_iff)

end
