(* ===== verification/Loop_Safe.thy ===== *)
theory Loop_Safe
  imports System_Props Shutdown_End Validation
begin

text \<open>
  The supervisor's loop on the bus does not panic: the three panics of an event (theory
  \<open>Supervisor_Props\<close>) need an unknown service, an exit without a process or a backoff that overflows,
  and the loop only receives what it, the spawner threads and the health workers send.
\<close>

section \<open>What the operating system keeps to in a round\<close>

text \<open>Each process id reported by a spawner thread is fresh when it is handled.\<close>

fun fresh_reports :: "os \<Rightarrow> supervisor \<Rightarrow> (instant \<times> event) list \<Rightarrow> bool" where
  "fresh_reports os st [] \<longleftrightarrow> True"
| "fresh_reports os st (te # tes) \<longleftrightarrow> fresh_pid st (snd te)
    \<and> (\<forall>r. handle_event os (fst te) st (snd te) = Inr r \<longrightarrow> fresh_reports os (fst r) tes)"

text \<open>\<open>waitpid\<close> reports the end of a process once, and none whose exit is still to be handled.\<close>

definition sane_round :: "os \<Rightarrow> service_name set \<Rightarrow> outside \<Rightarrow> config \<Rightarrow> bool" where
  "sane_round os names ou c \<longleftrightarrow>
    list_all (thread_event names) (ou_sent ou)
    \<and> fresh_reports os (round_start (round_input_of ou (snd c)) (fst c)) (ri_received (round_input_of ou (snd c)))
    \<and> (\<forall>i j p. reports (ou_waitpid ou i) p \<longrightarrow> reports (ou_waitpid ou j) p \<longrightarrow> i = j)
    \<and> (\<forall>n \<in> set (exits (snd c)). \<forall>p i. pid_of (su_repo (fst c)) n = Some p
        \<longrightarrow> \<not> reports (ou_waitpid ou i) p)"

text \<open>The configurations of the loop.\<close>

inductive loop_reaches :: "os \<Rightarrow> world \<Rightarrow> service list \<Rightarrow> config \<Rightarrow> bool"
  for os w services
where
  start: "loop_reaches os w services (supervisor_new w services, [])"
| round: "loop_reaches os w services c \<Longrightarrow> sane_round os (names_of services) ou c
    \<Longrightarrow> bus_round os ou c = Inr c' \<Longrightarrow> loop_reaches os w services c'"

section \<open>The invariant\<close>

definition backoffs_fit :: "supervisor \<Rightarrow> bool" where
  "backoffs_fit st \<longleftrightarrow> (\<forall>n sh. svc (su_repo st) n = Some sh
    \<longrightarrow> rs_backoff (sv_restart (sh_service sh)) \<le> from_secs (2 ^ 32))"

lemma backoffs_fit_config:
  assumes "config_kept st st'" and "backoffs_fit st"
  shows "backoffs_fit st'"
  unfolding backoffs_fit_def
proof (intro allI impI)
  fix n sh' assume "svc (su_repo st') n = Some sh'"
  with assms(1) obtain sh where "svc (su_repo st) n = Some sh" "sh_service sh = sh_service sh'"
    by (rule config_kept_svc)
  with assms(2) show "rs_backoff (sv_restart (sh_service sh')) \<le> from_secs (2 ^ 32)"
    unfolding backoffs_fit_def by metis
qed

lemma backoff_in_range:
  assumes "d \<le> from_secs (2 ^ 32)"
  shows "d * unat (k :: u32) < duration_limit"
proof -
  have "unat k < 2 ^ 32" using unsigned_less [of k] by simp
  then have "d * unat k \<le> from_secs (2 ^ 32) * (2 ^ 32 - 1)"
    using assms by (intro mult_le_mono) auto
  also have "\<dots> < duration_limit"
    by (simp add: from_secs_def duration_limit_def nanos_per_sec_def)
  finally show ?thesis .
qed

definition queue_ok :: "service_name set \<Rightarrow> supervisor \<Rightarrow> event list \<Rightarrow> bool" where
  "queue_ok names st q \<longleftrightarrow> names_kept names st \<and> pids_agree (su_repo st) \<and> backoffs_fit st
    \<and> set q \<subseteq> known_targets names
    \<and> distinct (exits q) \<and> (\<forall>n \<in> set (exits q). pid_of (su_repo st) n \<noteq> None)"

lemma handle_event_pid_kept:
  assumes "handle_event os now st ev = Inr (st', out, acts)" and "fresh_pid st ev"
    and "pid_of (su_repo st) n \<noteq> None" and "\<nexists>c. ev = ServiceExited n c"
  shows "pid_of (su_repo st') n = pid_of (su_repo st) n"
  using assms(1)
proof (cases rule: handle_event_shapes)
  case (handler m sh sh')
  then show ?thesis by (auto simp: pid_of_def)
next
  case (exited m c sh sh' p)
  with assms(4) show ?thesis by (auto simp: pid_of_def)
next
  case (pid m p sh sh')
  with assms(2,3) show ?thesis by auto
qed simp

lemma queue_ok_event:
  assumes ok: "queue_ok names st (e # q)" and fresh: "fresh_pid st e"
  obtains st' out acts where "handle_event os now st e = Inr (st', out, acts)" and "queue_ok names st' q"
proof -
  have target: "svc (su_repo st) n \<noteq> None" if "event_target e = Some n" for n
    using ok that by (auto simp: queue_ok_def names_kept_def known_targets_iff)
  have pid: "pid_of (su_repo st) n \<noteq> None" if "e = ServiceExited n c" for n c
    using ok that by (auto simp: queue_ok_def)
  have fits: "rs_backoff (sv_restart (sh_service sh)) * unat (sh_restart_attempts sh) < duration_limit"
    if "svc (su_repo st) n = Some sh" for n sh
    using ok that backoff_in_range by (auto simp: queue_ok_def backoffs_fit_def)
  have "event_ok os st e" using target pid fits by (cases e) (auto split: option.splits)
  then have "\<not> isl (handle_event os now st e)" by (simp add: handle_event_panics)
  then obtain st' out acts where h: "handle_event os now st e = Inr (st', out, acts)"
    by (cases "handle_event os now st e") auto
  have "pid_of (su_repo st') n \<noteq> None" if "n \<in> set (exits q)" for n
  proof -
    from ok that have "pid_of (su_repo st) n \<noteq> None" "n \<notin> set (exit_of e)" by (auto simp: queue_ok_def)
    with handle_event_pid_kept [OF h fresh, of n] show ?thesis by (simp add: exit_of_mem)
  qed
  with ok have "queue_ok names st' q"
    using names_kept_event [OF h] handle_event_pids [OF h _ fresh] backoffs_fit_config [OF handle_event_config [OF h]]
    by (auto simp: queue_ok_def)
  with h show ?thesis by (rule that)
qed

lemma queue_ok_all:
  assumes "queue_ok names st (map snd tes @ q)" and "fresh_reports os st tes"
  shows "\<exists>st' out acts. handle_all os st tes = Inr (st', out, acts) \<and> queue_ok names st' q
    \<and> (\<forall>n. pid_of (su_repo st) n \<noteq> None \<longrightarrow> n \<notin> set (exits (map snd tes))
        \<longrightarrow> pid_of (su_repo st') n = pid_of (su_repo st) n)"
  using assms
proof (induction tes arbitrary: st)
  case Nil
  then show ?case by (simp add: handle_all_Nil)
next
  case (Cons te tes)
  from Cons.prems have fresh: "fresh_pid st (snd te)" by simp
  from Cons.prems(1) fresh obtain st1 out1 acts1
    where h: "handle_event os (fst te) st (snd te) = Inr (st1, out1, acts1)"
      and ok: "queue_ok names st1 (map snd tes @ q)"
    by (auto elim: queue_ok_event [where e = "snd te" and os = os and now = "fst te"])
  from Cons.IH [OF ok] Cons.prems(2) h obtain st' out2 acts2
    where r: "handle_all os st1 tes = Inr (st', out2, acts2)" "queue_ok names st' q"
      "\<forall>n. pid_of (su_repo st1) n \<noteq> None \<longrightarrow> n \<notin> set (exits (map snd tes))
        \<longrightarrow> pid_of (su_repo st') n = pid_of (su_repo st1) n"
    by auto
  have "handle_all os st (te # tes) = Inr (st', out1 @ out2, acts1 @ acts2)"
    using h r(1) by (auto simp: handle_all_Cons)
  moreover have "pid_of (su_repo st') n = pid_of (su_repo st) n"
    if "pid_of (su_repo st) n \<noteq> None" "n \<notin> set (exits (map snd (te # tes)))" for n
  proof -
    have "pid_of (su_repo st1) n = pid_of (su_repo st) n"
      using handle_event_pid_kept [OF h fresh that(1)] that(2) by (auto simp: exit_of_mem)
    with that r(3) show ?thesis by simp
  qed
  ultimately show ?case using r(2) by blast
qed

section \<open>A round\<close>

lemma handle_event_no_exit:
  "handle_event os now st ev = Inr (st', out, acts) \<Longrightarrow> ServiceExited n c \<notin> set out"
  by (elim handle_eventE; (elim handler_elims)?; auto)

interpretation every: step_invariant "timed_step os" "\<lambda>_. True" for os
  by unfold_locales simp

lemma handle_all_no_exit:
  assumes "handle_all os st evs = Inr (st', out, acts)"
  shows "exits out = []"
proof -
  have "set out \<subseteq> {e. \<forall>n c. e \<noteq> ServiceExited n c}"
    using every.run_produces [OF _ _ assms [unfolded handle_all_def], of "{e. \<forall>n c. e \<noteq> ServiceExited n c}" UNIV]
    by (auto simp: timed_step_def dest: handle_event_no_exit)
  then show ?thesis by (auto intro!: exits_none)
qed

lemma next_evs_no_exit:
  assumes "next_evs now sh repo lc = Inr evs"
  shows "ServiceExited n c \<notin> set evs"
proof (cases lc)
  case LRunning
  with assms show ?thesis
    by (cases "sh_status sh")
      (auto simp: next_evs_def next_events_def Let_def handle_restart_strategy_def
        dest: handle_failed_service_events split: if_splits)
next
  case (ShuttingDown sd)
  with assms show ?thesis by (auto simp: next_evs_def dest: next_events_shutting_down_kinds)
qed

lemma services_next_no_exit:
  assumes "services_next clock st = Inr evs" and "repo_wf (su_repo st)"
  shows "exits evs = []"
  by (rule exits_none) (use services_next_mem [OF assms] next_evs_no_exit in blast)

lemma sigterm_no_exit: "exits (sigterm_events st) = []"
  by (auto simp: sigterm_events_def split: lifecycle_status.splits shutting_down.splits bool.splits)

lemma thread_events_no_exit: "list_all (thread_event names) evs \<Longrightarrow> \<forall>y \<in> set evs. exit_of y = []"
proof -
  have "thread_event names y \<Longrightarrow> exit_of y = []" for y by (cases y) auto
  then show "list_all (thread_event names) evs \<Longrightarrow> ?thesis" by (simp add: list_all_iff)
qed

lemma queue_ok_round:
  assumes ok: "queue_ok names st q" and deps: "deps_known (su_repo st)" and sane: "sane_round os names ou (st, q)"
  shows "\<exists>st' q'. bus_round os ou (st, q) = Inr (st', q') \<and> queue_ok names st' q' \<and> deps_known (su_repo st')"
proof -
  let ?d = "ou_delivered ou" and ?in = "round_input_of ou q"
  let ?st = "round_start ?in st"
  have same: "queue_ok names ?st q = queue_ok names st q" for q by (simp add: queue_ok_def names_kept_def backoffs_fit_def)
  have "queue_ok names ?st (map snd (ri_received ?in) @ drop ?d q)"
    using ok by (simp add: same received_events)
  from queue_ok_all [OF this, of os] sane
  have "\<exists>st' out acts. handle_all os ?st (ri_received ?in) = Inr (st', out, acts) \<and> queue_ok names st' (drop ?d q)
    \<and> (\<forall>n. pid_of (su_repo st) n \<noteq> None \<longrightarrow> n \<notin> set (exits (take ?d q))
        \<longrightarrow> pid_of (su_repo st') n = pid_of (su_repo st) n)"
    by (simp add: sane_round_def received_events)
  then obtain st' out acts where
    h: "handle_all os ?st (ri_received ?in) = Inr (st', out, acts)" and st': "queue_ok names st' (drop ?d q)"
    and pid: "\<forall>n. pid_of (su_repo st) n \<noteq> None \<longrightarrow> n \<notin> set (exits (take ?d q))
        \<longrightarrow> pid_of (su_repo st') n = pid_of (su_repo st) n"
    by blast
  have wf: "sup_wf st'"
    using wf.inv_run [OF _ h [unfolded handle_all_def]] ok deps by (simp add: sup_wf_def queue_ok_def names_kept_def)
  then obtain evs where evs: "services_next (ou_clock ou) st' = Inr evs" using services_next_total by blast
  define reap where "reap = reaper_run (ou_waitpid ou) (su_repo st') max_process_reaps_iters"
  define sent where "sent = sigterm_events ?st @ out @ evs @ reap"
  define rest where "rest = interleave (ou_schedule ou) sent (ou_sent ou)"
  have round: "run_round os ?in st = Inr (st', sent, acts)"
    using h evs by (simp add: run_round_def round_start_def Let_def reap_def sent_def)
  have threads: "list_all (thread_event names) (ou_sent ou)" using sane by (simp add: sane_round_def)
  have es: "exits rest = exits (reaper_run (ou_waitpid ou) (su_repo st') max_process_reaps_iters)"
    unfolding rest_def exits_interleave [OF thread_events_no_exit [OF threads]] sent_def
    using services_next_no_exit [OF evs] wf
    by (simp add: handle_all_no_exit [OF h] sigterm_no_exit reap_def sup_wf_def)
  have q: "distinct (exits q)" "\<forall>n \<in> set (exits q). pid_of (su_repo st) n \<noteq> None"
    using ok by (simp_all add: queue_ok_def)
  have once: "\<forall>i j p. reports (ou_waitpid ou i) p \<longrightarrow> reports (ou_waitpid ou j) p \<longrightarrow> i = j"
    and fresh: "\<forall>n \<in> set (exits q). \<forall>p i. pid_of (su_repo st) n = Some p \<longrightarrow> \<not> reports (ou_waitpid ou i) p"
    using sane by (simp_all add: sane_round_def)
  have agree: "pids_agree (su_repo st')" using st' by (simp add: queue_ok_def)
  note next_q = exits_next [OF agree q once fresh pid es]
  have "set sent \<subseteq> known_targets names"
    using run_round_names(2) [OF round] ok by (simp add: queue_ok_def)
  then have "set (drop ?d q @ rest) \<subseteq> known_targets names"
    using st' thread_events_quiet(1) [OF threads] by (auto simp: rest_def interleave_set queue_ok_def)
  with st' next_q(1,2) have "queue_ok names st' (drop ?d q @ rest)" by (simp add: queue_ok_def)
  moreover have "bus_round os ou (st, q) = Inr (st', drop ?d q @ rest)"
    using round by (auto simp: bus_round_Inr rest_def)
  ultimately show ?thesis using wf by (auto simp: sup_wf_def)
qed

section \<open>Properties\<close>

lemma loop_reaches_ok:
  assumes "loop_reaches os w services c" and "validate loaded = Inr services"
    and "\<forall>s \<in> set services. rs_backoff (sv_restart s) \<le> from_secs (2 ^ 32)"
  shows "queue_ok (names_of services) (fst c) (snd c) \<and> deps_known (su_repo (fst c))"
  using assms(1)
proof (induction rule: loop_reaches.induct)
  case start
  have "backoffs_fit (supervisor_new w services)"
    using assms(3) by (auto simp: backoffs_fit_def supervisor_new_def handler_of_def elim!: repo_new_service)
  moreover have "deps_known (su_repo (supervisor_new w services))"
    using assms(2) by (simp add: validate_Inr supervisor_new_def services_ok_deps_known)
  ultimately show ?case
    using names_of_start [of services w] by (simp add: queue_ok_def supervisor_new_def repo_new_pids)
next
  case (round c ou c')
  then show ?case
    using queue_ok_round [of "names_of services" "fst c" "snd c" os ou] by auto
qed



end
