(* ===== verification/Start_Up.thy ===== *)
theory Start_Up
  imports Loop_Safe
begin

text \<open>
  The start of the system: with nothing going wrong outside, every service reaches \<open>Running\<close>. Each
  service climbs down four steps, from \<open>Initial\<close> to \<open>Running\<close>, and the event for its next step is
  always on its way: sent by the supervisor once its \<open>start-after\<close> services are up, by its spawner
  thread, or by its health worker.
\<close>

section \<open>The events of a start\<close>

fun starts_up :: "event \<Rightarrow> bool" where
  "starts_up (Run n) \<longleftrightarrow> True"
| "starts_up (PidChanged n p) \<longleftrightarrow> True"
| "starts_up (HealthCheck n h) \<longleftrightarrow> h = Healthy"
| "starts_up (StatusUpdate n r) \<longleftrightarrow> r = Running"
| "starts_up (StatusChanged n s) \<longleftrightarrow> True"
| "starts_up _ \<longleftrightarrow> False"

fun answer_of :: "event \<Rightarrow> service_name list" where
  "answer_of (PidChanged n p) = [n]"
| "answer_of _ = []"

text \<open>The services whose spawner thread has answered, the answer being still on the bus.\<close>

definition answered :: "event list \<Rightarrow> service_name list" where
  "answered evs = concat (map answer_of evs)"

lemma answered_simps [simp]: "answered [] = []" "answered (e # evs) = answer_of e @ answered evs"
  "answered (evs @ evs') = answered evs @ answered evs'"
  by (simp_all add: answered_def)

lemma answered_mem: "n \<in> set (answered evs) \<longleftrightarrow> (\<exists>p. PidChanged n p \<in> set evs)"
proof -
  have "n \<in> set (answer_of e) \<longleftrightarrow> (\<exists>p. e = PidChanged n p)" for e by (cases e) auto
  then show ?thesis by (auto simp: answered_def)
qed

text \<open>A service on its way up: it never failed, and its health checks can be prepared.\<close>

definition startable :: "os \<Rightarrow> service \<Rightarrow> bool" where
  "startable os s \<longleftrightarrow> \<not> i32_gt 0 (hl_max_failed (sv_healthiness s))
    \<and> (\<forall>w. fst (prepare_service os (sv_healthiness s) w))"

definition climbing :: "os \<Rightarrow> service_handler \<Rightarrow> bool" where
  "climbing os sh \<longleftrightarrow> sh_status sh \<in> {Initial, Starting, Started, Running} \<and> sh_restart_attempts sh = 0
    \<and> sh_healthiness_checks_failed sh \<in> {None, Some 0} \<and> startable os (sh_service sh)"

definition starting :: "os \<Rightarrow> supervisor \<Rightarrow> bool" where
  "starting os st \<longleftrightarrow> sup_wf st \<and> su_status st = LRunning \<and> \<not> su_sigterm st
    \<and> (\<forall>n sh. svc (su_repo st) n = Some sh \<longrightarrow> climbing os sh)"

definition start_queue :: "supervisor \<Rightarrow> event list \<Rightarrow> bool" where
  "start_queue st q \<longleftrightarrow>
    (\<forall>e \<in> set q. starts_up e \<and> (\<forall>n. event_target e = Some n \<longrightarrow> svc (su_repo st) n \<noteq> None))
    \<and> distinct (answered q) \<and> (\<forall>n \<in> set (answered q). status_of st n = Some Starting)"

text \<open>How far a service has to go, and the event for its next step.\<close>

definition steps_of :: "service_handler \<Rightarrow> nat" where
  "steps_of sh =
    (case sh_status sh of
      Initial \<Rightarrow> 4
    | Starting \<Rightarrow> 3
    | Started \<Rightarrow> (if sh_healthiness_checks_failed sh = Some 0 then 1 else 2)
    | _ \<Rightarrow> 0)"

definition steps_left :: "supervisor \<Rightarrow> service_name \<Rightarrow> nat" where
  "steps_left st n = (case svc (su_repo st) n of None \<Rightarrow> 0 | Some sh \<Rightarrow> steps_of sh)"

definition next_step :: "event \<Rightarrow> service_name \<Rightarrow> nat \<Rightarrow> bool" where
  "next_step e n r \<longleftrightarrow> r = 4 \<and> e = Run n \<or> r = 3 \<and> (\<exists>p. e = PidChanged n p)
    \<or> r = 2 \<and> e = HealthCheck n Healthy \<or> r = 1 \<and> e = StatusUpdate n Running"

section \<open>One event\<close>

lemma start_event_safe:
  assumes "starting os st" and "start_queue st (e # q)"
  obtains st' out acts where "handle_event os now st e = Inr (st', out, acts)"
proof -
  have "event_ok os st e"
    using assms by (cases e) (auto simp: start_queue_def starting_def climbing_def duration_limit_def nanos_per_sec_def
      split: option.splits)
  then have "\<not> isl (handle_event os now st e)" by (simp add: handle_event_panics)
  with that show ?thesis by (cases "handle_event os now st e") auto
qed

text \<open>What an event of a start does to one service: it stays or takes its next step.\<close>

definition climbs :: "event \<Rightarrow> service_handler \<Rightarrow> service_handler \<Rightarrow> bool" where
  "climbs e sh sh' \<longleftrightarrow> steps_of sh' \<le> steps_of sh
    \<and> (next_step e (sh_name sh) (steps_of sh) \<longrightarrow> steps_of sh' < steps_of sh)
    \<and> (sh_status sh = Starting \<longrightarrow> sh_status sh' = Starting \<or> (\<exists>p. e = PidChanged (sh_name sh) p))"

lemmas climb_defs = climbing_def climbs_def steps_of_def next_step_def

lemma climb_healthy:
  "climbing os sh \<Longrightarrow> climbing os (add_healthcheck_event sh Healthy)
    \<and> climbs (HealthCheck (sh_name sh) Healthy) sh (add_healthcheck_event sh Healthy)"
  by (cases "sh_status sh")
    (auto simp: climb_defs add_healthcheck_event_def i32_from_bool_def Let_def)

lemma climb_update:
  "climbing os sh \<Longrightarrow> climbing os (fst (change_status sh Running))
    \<and> climbs (StatusUpdate (sh_name sh) Running) sh (fst (change_status sh Running))"
  by (cases "sh_status sh")
    (auto simp: climb_defs change_status_def handle_status_change_def transition_valid_def allowed_transitions_def)

lemma climb_run:
  "climbing os sh \<Longrightarrow> sh_status sh = Initial \<Longrightarrow> climbing os (sh\<lparr>sh_status := Starting\<rparr>)
    \<and> climbs (Run (sh_name sh)) sh (sh\<lparr>sh_status := Starting\<rparr>)"
  by (auto simp: climb_defs)

lemma climb_pid:
  "climbing os sh \<Longrightarrow> sh_status sh = Starting \<Longrightarrow> climbing os (sh\<lparr>sh_pid := Some p, sh_status := Started\<rparr>)
    \<and> climbs (PidChanged (sh_name sh) p) sh (sh\<lparr>sh_pid := Some p, sh_status := Started\<rparr>)"
  by (auto simp: climb_defs)

lemma climbing_event:
  assumes "handle_event os now st e = Inr (st', out, acts)" and "starting os st" and "start_queue st (e # q)"
    and "svc (su_repo st) n = Some sh" and "svc (su_repo st') n = Some sh'"
  shows "climbing os sh' \<and> climbs e sh sh'"
proof -
  have sh: "climbing os sh" and name: "sh_name sh = n"
    using assms(2,4) by (auto simp: starting_def sup_wf_def repo_wf_name)
  have e: "starts_up e" and pid: "\<And>p. e = PidChanged n p \<Longrightarrow> sh_status sh = Starting"
    using assms(3,4) by (auto simp: start_queue_def status_of_def)
  show ?thesis
  proof (cases "event_target e = Some n")
    case False
    with handle_event_frame [OF assms(1)] assms(4,5) have "sh' = sh" by simp
    with False sh name show ?thesis by (auto simp: climbs_def next_step_def)
  next
    case True
    show ?thesis
    proof (cases e)
      case (Run m)
      with True assms(1) have run: "on_run os st n = Inr (st', out, acts)" and e: "e = Run n" by simp_all
      from run show ?thesis
      proof (cases rule: on_run_cases)
        case ignored
        with assms(4,5) sh show ?thesis by (simp add: e climbs_def next_step_def steps_of_def split: service_status.splits)
      next
        case unprepared
        with assms(4) sh show ?thesis by (simp add: climbing_def startable_def)
      next
        case spawning
        with assms(4,5) climb_run [OF sh] name show ?thesis by (simp add: e)
      qed
    next
      case (PidChanged m p)
      with assms(1) True assms(4,5) pid climb_pid [OF sh] name show ?thesis by (auto elim!: on_pid_changed_cases)
    next
      case (HealthCheck m h)
      with assms(1) True assms(4,5) e climb_healthy [OF sh] name show ?thesis by (auto elim!: on_health_check_cases)
    next
      case (StatusUpdate m r)
      with assms(1) True assms(4,5) e climb_update [OF sh] name change_status_same [of sh Running] show ?thesis
        by (auto elim!: on_status_update_cases)
    next
      case (StatusChanged m r)
      with assms(1,4,5) sh show ?thesis by (auto simp: climbs_def next_step_def)
    qed (use e in simp_all)
  qed
qed

lemma start_event_outputs:
  assumes "handle_event os now st e = Inr (st', out, acts)" and "starting os st" and "start_queue st (e # q)"
  shows "su_status st' = LRunning \<and> \<not> su_sigterm st' \<and> (\<forall>e' \<in> set out. \<exists>n s. e' = StatusChanged n s \<and> svc (su_repo st) n \<noteq> None)"
proof -
  have "starts_up e" using assms(3) by (simp add: start_queue_def)
  with assms(1,2) show ?thesis
    by (cases e) (auto elim!: on_run_cases on_pid_changed_cases on_health_check_cases on_status_update_cases
        simp: starting_def climbing_def startable_def)
qed

lemma start_event:
  assumes "starting os st" and "start_queue st (e # q)"
  obtains st' out acts where "handle_event os now st e = Inr (st', out, acts)" and "starting os st'" and "start_queue st' q"
    and "\<And>e'. e' \<in> set out \<Longrightarrow> \<exists>n s. e' = StatusChanged n s \<and> svc (su_repo st) n \<noteq> None"
    and "\<And>n. steps_left st' n \<le> steps_left st n"
    and "\<And>n. next_step e n (steps_left st n) \<Longrightarrow> steps_left st' n < steps_left st n"
proof -
  obtain st' out acts where h: "handle_event os now st e = Inr (st', out, acts)"
    using start_event_safe [OF assms] .
  note known = event_svc_known [OF h]
  have climb: "climbing os sh' \<and> climbs e sh sh' \<and> sh_name sh = n"
    if "svc (su_repo st) n = Some sh" "svc (su_repo st') n = Some sh'" for n sh sh'
    using climbing_event [OF h assms that] assms(1) that(1) by (auto simp: starting_def sup_wf_def repo_wf_name)
  have st': "starting os st'"
    unfolding starting_def
  proof (intro conjI allI impI)
    show "sup_wf st'" using handle_event_wf [OF h] assms(1) by (simp add: starting_def)
    fix n sh' assume "svc (su_repo st') n = Some sh'"
    moreover from this known [of n] obtain sh where "svc (su_repo st) n = Some sh" by auto
    ultimately show "climbing os sh'" using climb by blast
  qed (use start_event_outputs [OF h assms] in simp_all)
  have steps: "steps_left st' n \<le> steps_left st n
      \<and> (next_step e n (steps_left st n) \<longrightarrow> steps_left st' n < steps_left st n)" for n
  proof (cases "svc (su_repo st) n")
    case None
    with known [of n] show ?thesis by (simp add: steps_left_def next_step_def)
  next
    case (Some sh)
    with known [of n] obtain sh' where "svc (su_repo st') n = Some sh'" by auto
    with climb [OF Some this] Some show ?thesis by (auto simp: steps_left_def climbs_def)
  qed
  have "status_of st' n = Some Starting" if n: "n \<in> set (answered q)" for n
  proof -
    from assms(2) n have s: "status_of st n = Some Starting" "n \<notin> set (answer_of e)" by (auto simp: start_queue_def)
    then obtain sh where sh: "svc (su_repo st) n = Some sh" "sh_status sh = Starting" by (auto simp: status_of_def)
    from this known [of n] obtain sh' where sh': "svc (su_repo st') n = Some sh'" by auto
    from climb [OF sh(1) sh'] sh(2) s(2) have "sh_status sh' = Starting" by (auto simp: climbs_def)
    with sh' show ?thesis by (simp add: status_of_def)
  qed
  then have "start_queue st' q" using assms(2) known by (simp add: start_queue_def)
  with h st' show ?thesis by (rule that) (use start_event_outputs [OF h assms] steps in blast)+
qed

section \<open>A round\<close>

lemma start_all:
  assumes "starting os st" and "start_queue st (map snd tes @ q)"
  shows "\<exists>st' out acts. handle_all os st tes = Inr (st', out, acts) \<and> starting os st' \<and> start_queue st' q
    \<and> (\<forall>e \<in> set out. \<exists>n s. e = StatusChanged n s \<and> svc (su_repo st) n \<noteq> None)
    \<and> (\<forall>n. steps_left st' n \<le> steps_left st n)
    \<and> (\<forall>n e. e \<in> set (map snd tes) \<longrightarrow> next_step e n (steps_left st n) \<longrightarrow> steps_left st' n < steps_left st n)"
  using assms
proof (induction tes arbitrary: st)
  case Nil
  then show ?case by (simp add: handle_all_Nil)
next
  case (Cons te tes)
  from Cons.prems have "start_queue st (snd te # map snd tes @ q)" by simp
  from start_event [OF Cons.prems(1) this, of "fst te"] obtain st1 out1 acts1 where
    h: "handle_event os (fst te) st (snd te) = Inr (st1, out1, acts1)"
    and 1: "starting os st1" "start_queue st1 (map snd tes @ q)"
      "\<And>e. e \<in> set out1 \<Longrightarrow> \<exists>n s. e = StatusChanged n s \<and> svc (su_repo st) n \<noteq> None"
      "\<And>n. steps_left st1 n \<le> steps_left st n"
      "\<And>n. next_step (snd te) n (steps_left st n) \<Longrightarrow> steps_left st1 n < steps_left st n" by metis
  from Cons.IH [OF 1(1,2)] obtain st' out2 acts2 where r: "handle_all os st1 tes = Inr (st', out2, acts2)"
    "starting os st'" "start_queue st' q"
    "\<forall>e \<in> set out2. \<exists>n s. e = StatusChanged n s \<and> svc (su_repo st1) n \<noteq> None"
    "\<forall>n. steps_left st' n \<le> steps_left st1 n"
    "\<forall>n e. e \<in> set (map snd tes) \<longrightarrow> next_step e n (steps_left st1 n) \<longrightarrow> steps_left st' n < steps_left st1 n"
    by blast
  have "handle_all os st (te # tes) = Inr (st', out1 @ out2, acts1 @ acts2)"
    using h r(1) by (auto simp: handle_all_Cons)
  moreover have "\<forall>e \<in> set (out1 @ out2). \<exists>n s. e = StatusChanged n s \<and> svc (su_repo st) n \<noteq> None"
    using 1(3) r(4) event_svc_known [OF h] by auto
  moreover have le: "steps_left st' n \<le> steps_left st n" for n using 1(4) r(5) by (meson order_trans)
  moreover have "steps_left st' n < steps_left st n"
    if e: "e \<in> set (map snd (te # tes))" "next_step e n (steps_left st n)" for n e
  proof (cases "steps_left st1 n = steps_left st n")
    case True
    with e 1(5) r(5) have "e = snd te \<Longrightarrow> steps_left st' n < steps_left st n" by (metis less_irrefl)
    moreover have "e \<in> set (map snd tes) \<Longrightarrow> steps_left st' n < steps_left st1 n" using r(6) e(2) by (metis True)
    ultimately show ?thesis using e(1) True by auto
  next
    case False
    with 1(4) [of n] r(5) show ?thesis by (metis le_neq_implies_less le_less_trans)
  qed
  ultimately show ?case using r(2,3) by blast
qed

text \<open>What the supervisor sends to a service on its way up.\<close>

lemma climbing_next:
  assumes "starting os st" and "svc (su_repo st) n = Some sh"
    and "next_evs now sh (su_repo st) (su_status st) = Inr es"
  shows "set es \<subseteq> {Run n, StatusUpdate n Running}"
    and "sh_status sh = Initial \<Longrightarrow> is_service_runnable (su_repo st) sh = Inr True \<Longrightarrow> Run n \<in> set es"
    and "steps_of sh = 1 \<Longrightarrow> StatusUpdate n Running \<in> set es"
proof -
  have sh: "climbing os sh" "sh_name sh = n" "su_status st = LRunning"
    using assms(1,2) by (auto simp: starting_def sup_wf_def repo_wf_name)
  then have "sh_status sh \<in> {Initial, Starting, Started, Running}" by (simp add: climbing_def)
  moreover have "\<not> i32_gt (case sh_healthiness_checks_failed sh of None \<Rightarrow> - 1 | Some c \<Rightarrow> c)
      (hl_max_failed (sv_healthiness (sh_service sh)))"
    using sh(1) by (auto simp: climbing_def startable_def i32_gt_def)
  ultimately show "set es \<subseteq> {Run n, StatusUpdate n Running}"
    "sh_status sh = Initial \<Longrightarrow> is_service_runnable (su_repo st) sh = Inr True \<Longrightarrow> Run n \<in> set es"
    "steps_of sh = 1 \<Longrightarrow> StatusUpdate n Running \<in> set es"
    using assms(3) sh(2,3)
    by (auto simp: next_evs_def next_events_def Let_def steps_of_def has_some_failed_healthchecks_def i32_gt_def
        split: if_splits)
qed

text \<open>
  What happens outside: no signal and no dead process; and in a round from \<open>c\<close> to \<open>c'\<close> the health
  checks succeed and a spawner thread reports the process of a service that is starting, once.
\<close>

definition undisturbed :: "outside \<Rightarrow> bool" where
  "undisturbed ou \<longleftrightarrow> \<not> ou_signal ou \<and> (\<forall>i p. \<not> reports (ou_waitpid ou i) p)"

definition start_reports :: "outside \<Rightarrow> config \<Rightarrow> config \<Rightarrow> bool" where
  "start_reports ou c c' \<longleftrightarrow>
    (\<forall>e \<in> set (ou_sent ou). \<exists>n. svc (su_repo (fst c)) n \<noteq> None \<and> (e = HealthCheck n Healthy
        \<or> (\<exists>p. e = PidChanged n p \<and> status_of (fst c') n = Some Starting
            \<and> n \<notin> set (answered (drop (ou_delivered ou) (snd c))))))
    \<and> distinct (answered (ou_sent ou))"

lemma answered_interleave:
  "\<forall>x \<in> set xs. answer_of x = [] \<Longrightarrow> answered (interleave bs xs ys) = answered ys"
  by (induction bs xs ys rule: interleave.induct) (auto simp: answered_def)

lemma answered_drop: "n \<in> set (answered (drop d q)) \<Longrightarrow> n \<in> set (answered q)"
  by (metis answered_simps(3) append_take_drop_id in_set_conv_decomp set_append UnCI)

lemma services_next_starting:
  assumes "starting os st" and "services_next clock st = Inr evs" and "e \<in> set evs"
  shows "\<exists>n. svc (su_repo st) n \<noteq> None \<and> (e = Run n \<or> e = StatusUpdate n Running)"
proof -
  from assms(1) have wf: "repo_wf (su_repo st)" by (simp add: starting_def sup_wf_def)
  from services_next_mem [OF assms(2) wf, of e] assms(3) obtain n sh es where "svc (su_repo st) n = Some sh"
    "next_evs (clock n) sh (su_repo st) (su_status st) = Inr es" "e \<in> set es" by blast
  with climbing_next(1) [OF assms(1) this(1,2)] show ?thesis by blast
qed

lemma start_round_ok:
  assumes st: "starting os st" "start_queue st q" and calm: "undisturbed ou"
    and out: "\<And>c'. bus_round os ou (st, q) = Inr c' \<Longrightarrow> start_reports ou (st, q) c'"
  shows "\<exists>st' q' evs. bus_round os ou (st, q) = Inr (st', q') \<and> starting os st' \<and> start_queue st' q'
    \<and> services_next (ou_clock ou) st' = Inr evs \<and> set evs \<subseteq> set q' \<and> config_kept st st'
    \<and> (\<forall>n. steps_left st' n \<le> steps_left st n)
    \<and> (\<forall>n e. e \<in> set (take (ou_delivered ou) q) \<longrightarrow> next_step e n (steps_left st n) \<longrightarrow> steps_left st' n < steps_left st n)"
proof -
  let ?d = "ou_delivered ou" and ?in = "round_input_of ou q"
  have start: "round_start ?in st = st" using calm by (simp add: round_start_def undisturbed_def)
  have "start_queue st (map snd (ri_received ?in) @ drop ?d q)" using st(2) by (simp add: received_events)
  from start_all [OF st(1) this] obtain st' out acts where
    h: "handle_all os st (ri_received ?in) = Inr (st', out, acts)" and st': "starting os st'" "start_queue st' (drop ?d q)"
    and o: "\<forall>e \<in> set out. \<exists>n s. e = StatusChanged n s \<and> svc (su_repo st) n \<noteq> None"
    and steps: "\<forall>n. steps_left st' n \<le> steps_left st n"
      "\<forall>n e. e \<in> set (take ?d q) \<longrightarrow> next_step e n (steps_left st n) \<longrightarrow> steps_left st' n < steps_left st n"
    unfolding received_events by blast
  obtain evs where evs: "services_next (ou_clock ou) st' = Inr evs"
    using services_next_total [of st' "ou_clock ou"] st'(1) by (auto simp: starting_def)
  have reap: "reaper_run (ou_waitpid ou) (su_repo st') m = []" for m
  proof -
    have "e \<notin> set (reaper_run (ou_waitpid ou) (su_repo st') m)" for e
      using calm by (auto simp: reaper_run_mem undisturbed_def reports_def)
    then show ?thesis by (metis list.set_intros(1) neq_Nil_conv)
  qed
  define rest where "rest = interleave (ou_schedule ou) (out @ evs) (ou_sent ou)"
  have run: "run_round os ?in st = Inr (st', out @ evs, acts)"
    using h evs start st(1) by (simp add: run_round_def round_start_def Let_def reap sigterm_events_def starting_def)
  then have b: "bus_round os ou (st, q) = Inr (st', drop ?d q @ rest)" by (auto simp: bus_round_Inr rest_def)
  from out [OF b] have sent: "start_reports ou (st, q) (st', drop ?d q @ rest)" .
  have known: "svc (su_repo st') n = None \<longleftrightarrow> svc (su_repo st) n = None" for n
    using run_round_config [OF run] by (metis config_kept_def map_option_is_None)
  note next_evs = services_next_starting [OF st'(1) evs]
  have rest: "starts_up e \<and> (\<forall>n. event_target e = Some n \<longrightarrow> svc (su_repo st') n \<noteq> None)" if "e \<in> set rest" for e
  proof -
    from that consider "e \<in> set out" | "e \<in> set evs" | "e \<in> set (ou_sent ou)" by (auto simp: rest_def interleave_set)
    then show ?thesis
    proof cases
      case 1
      with o known show ?thesis by auto
    next
      case 2
      from next_evs [OF this] show ?thesis by auto
    next
      case 3
      with sent obtain n where "svc (su_repo st) n \<noteq> None" "e = HealthCheck n Healthy \<or> (\<exists>p. e = PidChanged n p)"
        unfolding start_reports_def by fastforce
      with known show ?thesis by auto
    qed
  qed
  have "\<forall>x \<in> set (out @ evs). answer_of x = []" using o next_evs by fastforce
  then have ans: "answered rest = answered (ou_sent ou)" unfolding rest_def by (rule answered_interleave)
  have new: "status_of st' n = Some Starting \<and> n \<notin> set (answered (drop ?d q))" if "n \<in> set (answered (ou_sent ou))" for n
    using that sent by (auto simp: start_reports_def answered_mem)
  have "start_queue st' (drop ?d q @ rest)"
    using st'(2) rest new sent unfolding start_queue_def answered_simps ans by (auto simp: start_reports_def)
  moreover have "set evs \<subseteq> set (drop ?d q @ rest)" by (auto simp: rest_def interleave_set)
  ultimately show ?thesis using b st'(1) evs run_round_config [OF run] steps by blast
qed

section \<open>The start as a fair loop\<close>

text \<open>
  The outside of a start from \<open>c0\<close>: nothing disturbs it, the bus delivers, and the threads do their
  work in the end: each spawner thread answers, and each started service is found healthy.
\<close>

definition start_env :: "os \<Rightarrow> (nat \<Rightarrow> outside) \<Rightarrow> config \<Rightarrow> bool" where
  "start_env os ous c0 \<longleftrightarrow> delivers ous \<and> (\<forall>k. undisturbed (ous k))
    \<and> (\<forall>k c c'. rounds os ous 0 k c0 = Inr c \<longrightarrow> bus_round os (ous k) c = Inr c' \<longrightarrow> start_reports (ous k) c c')
    \<and> (\<forall>k c n. rounds os ous 0 k c0 = Inr c \<longrightarrow> status_of (fst c) n = Some Starting
        \<longrightarrow> n \<in> set (answered (snd c)) \<or> (\<exists>l\<ge>k. n \<in> set (answered (ou_sent (ous l)))))
    \<and> (\<forall>k c n. rounds os ous 0 k c0 = Inr c \<longrightarrow> status_of (fst c) n = Some Started
        \<longrightarrow> (\<exists>l\<ge>k. HealthCheck n Healthy \<in> set (ou_sent (ous l))))"

definition start_inv :: "os \<Rightarrow> (nat \<Rightarrow> outside) \<Rightarrow> config \<Rightarrow> nat \<Rightarrow> config \<Rightarrow> bool" where
  "start_inv os ous c0 k c \<longleftrightarrow> start_env os ous c0 \<and> rounds os ous 0 k c0 = Inr c
    \<and> starting os (fst c) \<and> start_queue (fst c) (snd c)"

lemma rounds_Suc:
  "rounds os ous k n c = Inr c1 \<Longrightarrow> bus_round os (ous (k + n)) c1 = Inr c2 \<Longrightarrow> rounds os ous k (Suc n) c = Inr c2"
  using rounds_add [of os ous k n c c1 1 c2] by simp

lemma start_inv_round:
  assumes "start_inv os ous c0 k (st, q)"
  shows "\<exists>st' q' evs. bus_round os (ous k) (st, q) = Inr (st', q') \<and> start_inv os ous c0 (Suc k) (st', q')
    \<and> services_next (ou_clock (ous k)) st' = Inr evs \<and> set evs \<subseteq> set q' \<and> later steps_left (st, q) (st', q')
    \<and> (\<forall>n e. e \<in> set (take (ou_delivered (ous k)) q) \<longrightarrow> next_step e n (steps_left st n)
        \<longrightarrow> steps_left st' n < steps_left st n)"
proof -
  from assms have st: "starting os st" "start_queue st q" and r: "rounds os ous 0 k c0 = Inr (st, q)"
    and env: "start_env os ous c0" by (simp_all add: start_inv_def)
  then have "undisturbed (ous k)" "\<And>c'. bus_round os (ous k) (st, q) = Inr c' \<Longrightarrow> start_reports (ous k) (st, q) c'"
    unfolding start_env_def by blast+
  from start_round_ok [OF st this] obtain st' q' evs where b: "bus_round os (ous k) (st, q) = Inr (st', q')"
    "starting os st'" "start_queue st' q'" "services_next (ou_clock (ous k)) st' = Inr evs" "set evs \<subseteq> set q'"
    "config_kept st st'" "\<forall>n. steps_left st' n \<le> steps_left st n"
    "\<forall>n e. e \<in> set (take (ou_delivered (ous k)) q) \<longrightarrow> next_step e n (steps_left st n)
      \<longrightarrow> steps_left st' n < steps_left st n" by blast
  from rounds_Suc [OF r, of "(st', q')"] b(1) have "rounds os ous 0 (Suc k) c0 = Inr (st', q')" by simp
  with b env show ?thesis by (auto simp: start_inv_def later_def)
qed

interpretation start_up: fair_loop os ous "start_inv os ous c0" steps_left next_step for os ous c0
proof unfold_locales
  show "delivers ous" if "start_inv os ous c0 k c" for k c
    using that by (simp add: start_inv_def start_env_def)
  show "steps_left st n = 0" if "svc (su_repo st) n = None" for st n
    using that by (simp add: steps_left_def)
  show "\<exists>c'. bus_round os (ous k) c = Inr c' \<and> start_inv os ous c0 (Suc k) c' \<and> later steps_left c c'"
    if "start_inv os ous c0 k c" for k c
    using start_inv_round [of os ous c0 k "fst c" "snd c"] that by auto
  show "steps_left st' n < steps_left st n"
    if "start_inv os ous c0 k (st, q)" and "bus_round os (ous k) (st, q) = Inr (st', q')"
      and "e \<in> set (take (ou_delivered (ous k)) q)" "next_step e n (steps_left st n)" for k st q st' q' e n
    using start_inv_round [OF that(1)] that(2-4) by auto
qed

end
