(* ===== verification/Start_End.thy ===== *)
theory Start_End
  imports Start_Up
begin

text \<open>
  Every service starts: of the services that do not run yet, one whose \<open>start-after\<close> services all run
  has the event for its next step on its way. The example at the end runs one service to \<open>Running\<close>.
\<close>

section \<open>Every service starts\<close>

text \<open>\<open>start-after\<close> is acyclic: a rank that drops along it.\<close>

definition start_ranked :: "repo \<Rightarrow> (service_name \<Rightarrow> nat) \<Rightarrow> bool" where
  "start_ranked repo rank \<longleftrightarrow>
    (\<forall>n sh. svc repo n = Some sh \<longrightarrow> (\<forall>d \<in> set (sh_start_after sh). rank d < rank n))"

definition all_running :: "config \<Rightarrow> bool" where
  "all_running c \<longleftrightarrow> (\<forall>n. steps_left (fst c) n = 0)"

lemma climbing_running: "climbing os sh \<Longrightarrow> steps_of sh = 0 \<longleftrightarrow> sh_status sh = Running"
  by (auto simp: climbing_def steps_of_def)

lemma sent_by_supervisor:
  assumes inv: "start_inv os ous c0 k (st, q)"
    and sends: "\<And>st' es now sh. starting os st' \<Longrightarrow> config_kept st st' \<Longrightarrow> (\<forall>m. steps_left st' m \<le> steps_left st m)
      \<Longrightarrow> steps_left st' n = steps_left st n \<Longrightarrow> svc (su_repo st') n = Some sh
      \<Longrightarrow> next_evs now sh (su_repo st') (su_status st') = Inr es \<Longrightarrow> \<exists>e \<in> set es. next_step e n (steps_left st' n)"
    and n: "svc (su_repo st) n \<noteq> None"
  shows "reaches steps_left (start_inv os ous c0) os ous k (st, q) (\<lambda>c. steps_left (fst c) n < steps_left st n)"
proof (rule start_up.emitted_arrives [OF inv])
  fix st' q' assume b: "bus_round os (ous k) (st, q) = Inr (st', q')" and inv': "start_inv os ous c0 (Suc k) (st', q')"
    and same: "steps_left st' n = steps_left st n"
  from start_inv_round [OF inv] b obtain evs where evs: "services_next (ou_clock (ous k)) st' = Inr evs" "set evs \<subseteq> set q'"
    and l: "later steps_left (st, q) (st', q')" by auto
  have st': "starting os st'" "sup_wf st'" using inv' by (simp_all add: start_inv_def starting_def)
  obtain sh where sh: "svc (su_repo st') n = Some sh" using later_known [OF l, of n] n by auto
  obtain es where es: "next_evs (ou_clock (ous k) n) sh (su_repo st') (su_status st') = Inr es"
    using next_evs_total [OF _ sh] st'(2) unfolding sup_wf_def by blast
  from sends [OF st'(1) _ _ same sh es] l obtain e where e: "e \<in> set es" "next_step e n (steps_left st' n)"
    by (auto simp: later_def)
  with services_next_mem [OF evs(1), of e] sh es evs(2) st'(2) have "e \<in> set q'" by (auto simp: sup_wf_def)
  with e(2) show "\<exists>e \<in> set q'. next_step e n (steps_left st' n)" by blast
qed

lemma start_ranked_kept:
  assumes "start_ranked (su_repo st) rank" and "config_kept st st'"
  shows "start_ranked (su_repo st') rank"
  unfolding start_ranked_def
proof (intro allI impI)
  fix n sh' assume "svc (su_repo st') n = Some sh'"
  with assms(2) obtain sh where "svc (su_repo st) n = Some sh" "sh_service sh = sh_service sh'"
    by (rule config_kept_svc)
  with assms(1) show "\<forall>d \<in> set (sh_start_after sh'). rank d < rank n"
    unfolding start_ranked_def sh_start_after_def by metis
qed

lemma steps_of_values: "steps_of sh = 4 \<longleftrightarrow> sh_status sh = Initial" "steps_of sh = 3 \<longleftrightarrow> sh_status sh = Starting"
  "steps_of sh = 2 \<or> steps_of sh = 1 \<longleftrightarrow> sh_status sh = Started" "steps_of sh \<in> {0, 1, 2, 3, 4}"
  by (auto simp: steps_of_def split: service_status.splits)

text \<open>A service whose \<open>start-after\<close> services run is runnable.\<close>

lemma runnable_of_running:
  assumes "starting os st" and "svc (su_repo st) n = Some sh" and "sh_status sh = Initial"
    and "\<And>d. d \<in> set (sh_start_after sh) \<Longrightarrow> steps_left st d = 0"
  shows "is_service_runnable (su_repo st) sh = Inr True"
  unfolding is_service_runnable_True
proof (intro conjI ballI)
  fix d assume d: "d \<in> set (sh_start_after sh)"
  with assms(1,2) obtain dep where dep: "svc (su_repo st) d = Some dep"
    unfolding starting_def sup_wf_def deps_known_def by blast
  with assms(1) have "climbing os dep" by (simp add: starting_def)
  with assms(4) [OF d] dep have "sh_status dep = Running"
    by (simp add: steps_left_def climbing_running)
  with dep show "\<exists>dep. svc (su_repo st) d = Some dep \<and> (sh_status dep = Running \<or> sh_status dep = Finished)" by blast
qed (rule assms(3))

lemma start_env_threads:
  assumes "start_env os ous c0" and "rounds os ous 0 k c0 = Inr c"
  shows "status_of (fst c) n = Some Starting \<Longrightarrow> n \<in> set (answered (snd c)) \<or> (\<exists>l\<ge>k. n \<in> set (answered (ou_sent (ous l))))"
    and "status_of (fst c) n = Some Started \<Longrightarrow> \<exists>l\<ge>k. HealthCheck n Healthy \<in> set (ou_sent (ous l))"
  using assms unfolding start_env_def by blast+

lemma start_progress:
  assumes inv: "start_inv os ous c0 k (st, q)" and ranked: "start_ranked (su_repo st) rank"
    and "\<not> all_running (st, q)"
  shows "\<exists>n. reaches steps_left (start_inv os ous c0) os ous k (st, q) (\<lambda>c. steps_left (fst c) n < steps_left st n)"
proof -
  from assms(3) have "\<exists>n. steps_left st n \<noteq> 0" by (simp add: all_running_def)
  then obtain n where n: "steps_left st n \<noteq> 0" and least: "\<And>d. rank d < rank n \<Longrightarrow> steps_left st d = 0"
    using least_ranked [of "\<lambda>n. steps_left st n \<noteq> 0" _ rank] by metis
  then obtain sh where sh: "svc (su_repo st) n = Some sh" "steps_left st n = steps_of sh"
    by (auto simp: steps_left_def split: option.splits)
  have env: "start_env os ous c0" "rounds os ous 0 k c0 = Inr (st, q)" using inv by (simp_all add: start_inv_def)
  from n sh(2) steps_of_values(4) [of sh] consider "steps_of sh = 4" | "steps_of sh = 3" | "steps_of sh = 2" | "steps_of sh = 1"
    by auto
  then have "reaches steps_left (start_inv os ous c0) os ous k (st, q) (\<lambda>c. steps_left (fst c) n < steps_left st n)"
  proof cases
    case 1
    show ?thesis
    proof (rule sent_by_supervisor [OF inv])
      fix st' es now sh'
      assume st': "starting os st'" "config_kept st st'" "\<forall>m. steps_left st' m \<le> steps_left st m"
        "steps_left st' n = steps_left st n" "svc (su_repo st') n = Some sh'"
        "next_evs now sh' (su_repo st') (su_status st') = Inr es"
      from st'(4,5) sh(2) 1 have i: "sh_status sh' = Initial" by (simp add: steps_left_def steps_of_values)
      have "steps_left st' d = 0" if "d \<in> set (sh_start_after sh')" for d
      proof -
        have "rank d < rank n" using start_ranked_kept [OF ranked st'(2)] st'(5) that by (simp add: start_ranked_def)
        with least have "steps_left st d = 0" by simp
        with st'(3) show ?thesis by (metis le_zero_eq)
      qed
      from runnable_of_running [OF st'(1,5) i this] have "Run n \<in> set es"
        by (rule climbing_next(2) [OF st'(1,5,6) i])
      moreover have "next_step (Run n) n (steps_left st' n)" using st'(4) sh(2) 1 by (simp add: next_step_def)
      ultimately show "\<exists>e \<in> set es. next_step e n (steps_left st' n)" by blast
    qed (simp add: sh)
  next
    case 2
    then have "status_of st n = Some Starting" using sh by (simp add: steps_of_values status_of_def)
    with start_env_threads(1) [OF env] have "n \<in> set (answered q) \<or> (\<exists>l\<ge>k. n \<in> set (answered (ou_sent (ous l))))"
      by simp
    then show ?thesis
    proof (elim disjE exE conjE)
      assume "n \<in> set (answered q)"
      then obtain p where "PidChanged n p \<in> set q" by (auto simp: answered_mem)
      then show ?thesis by (rule start_up.pending_arrives [OF inv]) (simp add: next_step_def 2 sh)
    next
      fix l assume l: "k \<le> l" and "n \<in> set (answered (ou_sent (ous l)))"
      then obtain p where "PidChanged n p \<in> set (ou_sent (ous l))" by (auto simp: answered_mem)
      then show ?thesis by (rule start_up.sent_arrives [OF inv l]) (simp add: next_step_def 2 sh)
    qed
  next
    case 3
    then have "status_of st n = Some Started" using sh steps_of_values(3) by (auto simp: status_of_def)
    with start_env_threads(2) [OF env] obtain l where "k \<le> l" "HealthCheck n Healthy \<in> set (ou_sent (ous l))"
      by auto
    then show ?thesis by (rule start_up.sent_arrives [OF inv]) (simp add: next_step_def 3 sh)
  next
    case 4
    show ?thesis
    proof (rule sent_by_supervisor [OF inv])
      fix st' es now sh'
      assume st': "starting os st'" "steps_left st' n = steps_left st n" "svc (su_repo st') n = Some sh'"
        "next_evs now sh' (su_repo st') (su_status st') = Inr es"
      with 4 sh(2) have "steps_of sh' = 1" by (simp add: steps_left_def)
      from climbing_next(3) [OF st'(1,3,4) this] st'(2) 4 sh(2)
      show "\<exists>e \<in> set es. next_step e n (steps_left st' n)" by (auto simp: next_step_def)
    qed (simp add: sh)
  qed
  then show ?thesis ..
qed

lemma start_reached:
  assumes "start_inv os ous c0 k c" and "start_ranked (su_repo (fst c)) rank"
  shows "reaches steps_left (start_inv os ous c0) os ous k c all_running"
proof (rule start_up.goal_reached [OF assms(1)])
  fix k' c' assume c': "start_inv os ous c0 k' c'" "later steps_left c c'" "\<not> all_running c'"
  from start_ranked_kept [OF assms(2)] c'(2) have "start_ranked (su_repo (fst c')) rank" by (simp add: later_def)
  with start_progress [of os ous c0 k' "fst c'" "snd c'"] c' obtain n where
    "reaches steps_left (start_inv os ous c0) os ous k' c' (\<lambda>c. steps_left (fst c) n < steps_left (fst c') n)" by auto
  then show "reaches steps_left (start_inv os ous c0) os ous k' c'
      (\<lambda>c''. all_running c'' \<or> (\<exists>n. steps_left (fst c'') n < steps_left (fst c') n))"
    by (rule reaches_weaken) blast
qed

lemma start_inv_start:
  assumes "validate loaded = Inr services" and "\<forall>s \<in> set services. startable os s"
    and "start_env os ous (supervisor_new w services, [])"
  shows "start_inv os ous (supervisor_new w services, []) 0 (supervisor_new w services, [])"
proof -
  have "climbing os sh" if "svc (repo_new services) n = Some sh" for n sh
    using that assms(2) by (auto simp: climbing_def handler_of_def elim!: repo_new_service)
  then have "starting os (supervisor_new w services)"
    using assms(1) by (simp add: starting_def supervisor_new_def sup_wf_def repo_new_wf validate_Inr services_ok_deps_known)
  with assms(3) show ?thesis by (simp add: start_inv_def start_queue_def)
qed

section \<open>One service that starts\<close>

text \<open>Its spawner thread answers in the second round; its health worker reports from the third on.\<close>

definition ex_start_outside :: "nat \<Rightarrow> outside" where
  "ex_start_outside k = (ex_outside k)\<lparr>ou_sent :=
    (if k = 0 then [] else if k = 1 then [PidChanged ''a'' 7] else [HealthCheck ''a'' Healthy])\<rparr>"

definition ex_start_sup :: "service_status \<Rightarrow> pid option \<Rightarrow> i32 option \<Rightarrow> supervisor" where
  "ex_start_sup s p h = ex_sup LRunning [(ex_handler (ex_service ''a'') s p)\<lparr>sh_healthiness_checks_failed := h\<rparr>]"

definition ex_start_config :: "nat \<Rightarrow> config" where
  "ex_start_config k =
    (if k = 0 then (ex_start_sup Initial None None, [])
     else if k = 1 then (ex_start_sup Initial None None, [Run ''a''])
     else if k = 2 then (ex_start_sup Starting None None, [StatusChanged ''a'' Starting, PidChanged ''a'' 7])
     else if k = 3 then (ex_start_sup Started (Some 7) None, [StatusChanged ''a'' Started, HealthCheck ''a'' Healthy])
     else if k = 4 then (ex_start_sup Started (Some 7) (Some 0), [StatusUpdate ''a'' Running, HealthCheck ''a'' Healthy])
     else if k = 5 then (ex_start_sup Running (Some 7) (Some 0), [StatusChanged ''a'' Running, HealthCheck ''a'' Healthy])
     else (ex_start_sup Running (Some 7) (Some 0), [HealthCheck ''a'' Healthy]))"

lemma ex_start_svc [simp]: "svc (su_repo (ex_start_sup s p h)) n = (if n = ''a''
    then Some ((ex_handler (ex_service ''a'') s p)\<lparr>sh_healthiness_checks_failed := h\<rparr>) else None)"
  by (simp add: ex_start_sup_def svc_ex_sup sh_name_def)

lemma ex_start_entries [simp]: "hm_entries (rp_services (su_repo (ex_start_sup s p h)))
    = [(''a'', (ex_handler (ex_service ''a'') s p)\<lparr>sh_healthiness_checks_failed := h\<rparr>)]"
  by (simp add: ex_start_sup_def ex_hm_entries sh_name_def)

lemma ex_start_events [simp]:
  "handle_event ex_os now (ex_start_sup Initial None None) (Run ''a'')
    = Inr (ex_start_sup Starting None None, [StatusChanged ''a'' Starting], [SpawnForkExec (ex_service ''a'') 0])"
  "handle_event ex_os now (ex_start_sup Starting None None) (PidChanged ''a'' 7)
    = Inr (ex_start_sup Started (Some 7) None, [StatusChanged ''a'' Started], [])"
  "handle_event ex_os now (ex_start_sup Started (Some 7) h) (HealthCheck ''a'' Healthy)
    = Inr (ex_start_sup Started (Some 7) (Some (case h of None \<Rightarrow> 0 | Some i \<Rightarrow> i)), [], [])"
  "handle_event ex_os now (ex_start_sup Running (Some 7) (Some 0)) (HealthCheck ''a'' Healthy)
    = Inr (ex_start_sup Running (Some 7) (Some 0), [], [])"
  "handle_event ex_os now (ex_start_sup Started (Some 7) (Some 0)) (StatusUpdate ''a'' Running)
    = Inr (ex_start_sup Running (Some 7) (Some 0), [StatusChanged ''a'' Running], [])"
  by (simp_all add: ex_start_sup_def handler_defs get_sh_svc svc_ex_sup Let_def)
  (simp_all add: ex_sup_def insert_sh_by_name_def hm_insert_def sh_name_def List.map_filter_def duration_mul_def duration_check_def
    add_pid_def change_status_def handle_status_change_def transition_valid_def allowed_transitions_def add_healthcheck_event_def i32_from_bool_def
    set_sh_def ex_handler_def handler_of_def duration_limit_def nanos_per_sec_def)

lemma ex_start_update: "ex_start_sup s p h = ex_start_sup s' p' h' \<longleftrightarrow> s = s' \<and> p = p' \<and> h = h'"
  by (cases p; cases p') (auto simp: ex_start_sup_def ex_sup_def ex_handler_def handler_of_def List.map_filter_def)

lemma ex_start_sends [simp]:
  "services_next clock (ex_start_sup s p h) = next_evs (clock ''a'')
    ((ex_handler (ex_service ''a'') s p)\<lparr>sh_healthiness_checks_failed := h\<rparr>) (su_repo (ex_start_sup s p h)) LRunning"
  by (cases "next_evs (clock ''a'')
    ((ex_handler (ex_service ''a'') s p)\<lparr>sh_healthiness_checks_failed := h\<rparr>) (su_repo (ex_start_sup s p h)) LRunning")
   (simp_all add: services_next_def, simp_all add: ex_start_sup_def)

lemma ex_start_fields [simp]: "su_status (ex_start_sup s p h) = LRunning" "su_sigterm (ex_start_sup s p h) = False"
  by (simp_all add: ex_start_sup_def)

lemma ex_start_round: "bus_round ex_os (ex_start_outside k) (ex_start_config k) = Inr (ex_start_config (Suc k))"
proof -
  consider "k = 0" | "k = 1" | "k = 2" | "k = 3" | "k = 4" | "k = 5" | "6 \<le> k" by linarith
  then show ?thesis
    by cases (simp_all add: ex_start_config_def bus_round_def ex_start_outside_def ex_outside_def round_input_of_def
      run_round_def sigterm_events_def next_evs_def next_events_def sh_start_after_def is_service_runnable_def Let_def
      handle_all_Nil handle_all_def timed_step_def upt_rec has_some_failed_healthchecks_def i32_gt_def sh_name_def
      default_healthiness_def del: handle_event.simps(1-9))
qed

lemma ex_start_rounds: "rounds ex_os ex_start_outside 0 k (ex_start_config 0) = Inr (ex_start_config k)"
proof (induction k)
  case (Suc k)
  show ?case by (rule rounds_Suc [OF Suc]) (simp add: ex_start_round)
qed simp

lemma ex_start_env: "start_env ex_os ex_start_outside (ex_start_config 0)"
  unfolding start_env_def
proof (intro conjI allI impI)
  show "delivers ex_start_outside" by (auto simp: delivers_def ex_start_outside_def ex_outside_def)
  show "undisturbed (ex_start_outside k)" for k
    by (simp add: undisturbed_def ex_start_outside_def ex_outside_def reports_def)
  fix k c c' n assume "rounds ex_os ex_start_outside 0 k (ex_start_config 0) = Inr c"
  then have c: "c = ex_start_config k" by (simp add: ex_start_rounds)
  show "\<exists>l\<ge>k. HealthCheck n Healthy \<in> set (ou_sent (ex_start_outside l))" if "status_of (fst c) n = Some Started"
    using that by (auto simp: c status_of_def ex_start_config_def ex_start_outside_def split: if_splits intro!: exI [of _ "Suc (Suc k)"])
  show "n \<in> set (answered (snd c)) \<or> (\<exists>l\<ge>k. n \<in> set (answered (ou_sent (ex_start_outside l))))"
    if "status_of (fst c) n = Some Starting"
    using that by (auto simp: c status_of_def ex_start_config_def split: if_splits)
  show "start_reports (ex_start_outside k) c c'" if "bus_round ex_os (ex_start_outside k) c = Inr c'"
  proof -
    from that c have "c' = ex_start_config (Suc k)" by (simp add: ex_start_round)
    with c show ?thesis
      by (auto simp: start_reports_def ex_start_config_def ex_start_outside_def ex_outside_def status_of_def)
  qed
qed

section \<open>Properties\<close>



end
