(* ===== verification/Restart_Race.thy ===== *)
theory Restart_Race
  imports Loop_Safe "HOL-Library.Code_Target_Nat"
begin

text \<open>
  A run that panics: what \<open>supervisor_round_completes\<close> excludes by its hypothesis that a service has no
  process when one is reported for it can happen, by a forced kill and a restart.
\<close>

section \<open>A bounded run that looks for a panic\<close>

fun run_panic :: "os \<Rightarrow> (nat \<Rightarrow> outside) \<Rightarrow> nat \<Rightarrow> nat \<Rightarrow> config \<Rightarrow> panic option" where
  "run_panic os ous k 0 c = None"
| "run_panic os ous k (Suc n) c =
    (if all_have_finished (su_repo (fst c)) then None
     else (case bus_round os (ous k) c of Inl p \<Rightarrow> Some p | Inr c' \<Rightarrow> run_panic os ous (Suc k) n c'))"

lemma run_panic_horust_run:
  "run_panic os ous k n c = Some e \<Longrightarrow> horust_run os p ous k c = Some (Inl e)"
proof (induction n arbitrary: k c)
  case (Suc n)
  then show ?case
    by (cases "bus_round os (ous k) c") (auto simp: horust_run.simps [of os p ous k c] split: if_splits)
qed simp

section \<open>A service that is killed, restarted and reaped twice\<close>

definition race_service :: service where
  "race_service = (ex_service ''a'')\<lparr>sv_restart := default_restart\<lparr>rs_strategy := Always\<rparr>,
    sv_termination := default_termination\<lparr>tm_wait := 0\<rparr>\<rparr>"

definition race_outside :: "nat \<Rightarrow> outside" where
  "race_outside k = \<lparr>ou_delivered = 10, ou_times = (\<lambda>_. k * 5000000000), ou_signal = False,
     ou_clock = (\<lambda>_. k * 5000000000),
     ou_waitpid = (\<lambda>i. if k = 10 \<and> i = 0 then Signaled 7 else if k = 10 \<and> i = 1 then Exited 8 1 else OtherStatus),
     ou_sent = (if k = 1 then [PidChanged ''a'' 7]
       else if k = 2 then [HealthCheck ''a'' Healthy]
       else if k = 4 then replicate 4 (HealthCheck ''a'' Unhealthy)
       else if k = 9 then [PidChanged ''a'' 8] else []),
     ou_schedule = []\<rparr>"

lemma race_run: "run_panic ex_os race_outside 0 12 (supervisor_new ex_world [race_service], []) = Some (NoPid ''a'')"
  by code_simp

lemma race_valid: "validate [race_service] = Inr [race_service]"
  by (simp add: validate_def validate_one_def)
    (simp add: race_service_def ex_service_def from_command_def default_service_def)


end
