(* ===== verification/Failed_Check.thy ===== *)
theory Failed_Check
  imports Loop_Safe "HOL-Library.Code_Target_Nat"
begin

text \<open>
  A failed health check is never forgotten: the counter is not reset by a healthy report, nor by a
  restart, and a service with a positive counter is never moved to \<open>Running\<close>. So after one failed
  check a service that has to start again does not come up, and what starts after it never does.
\<close>

section \<open>The counter and the status\<close>

text \<open>A check of \<open>n\<close> has failed, \<open>n\<close> is not \<open>Running\<close>, and nothing on the bus will make it \<open>Running\<close>.\<close>

definition marked :: "service_name \<Rightarrow> i32 \<Rightarrow> supervisor \<Rightarrow> bool" where
  "marked n failed st \<longleftrightarrow> sup_wf st \<and> (\<exists>sh. svc (su_repo st) n = Some sh \<and> sh_status sh \<noteq> Running
    \<and> sh_healthiness_checks_failed sh = Some failed)"

definition never_up :: "service_name \<Rightarrow> event \<Rightarrow> bool" where
  "never_up n e \<longleftrightarrow> e \<noteq> StatusUpdate n Running \<and> e \<noteq> HealthCheck n Unhealthy"

lemma moves_running: "moves e n s Running \<Longrightarrow> e = StatusUpdate n Running"
  by (auto elim!: moves.cases elim: accepts.cases)

lemma not_unhealthy: "h \<noteq> Unhealthy \<longleftrightarrow> h = Healthy"
  by (cases h) simp_all

lemma handle_event_counter:
  assumes "handle_event os now st e = Inr (st', out, acts)" and "e \<noteq> HealthCheck n Unhealthy"
    and "svc (su_repo st) n = Some sh" and "sh_healthiness_checks_failed sh = Some failed"
    and "svc (su_repo st') n = Some sh'"
  shows "sh_healthiness_checks_failed sh' = Some failed"
  using assms
  by (elim handle_eventE; (elim handler_elims)?;
      auto simp: shutting_down_started_def frame_simps add_healthcheck_event_def i32_from_bool_def
        not_unhealthy split: if_splits)

lemma marked_event:
  assumes "handle_event os now st e = Inr (st', out, acts)" and "never_up n e" and "marked n failed st"
  shows "marked n failed st'"
proof -
  from assms(3) obtain sh where sh: "svc (su_repo st) n = Some sh" "sh_status sh \<noteq> Running"
    "sh_healthiness_checks_failed sh = Some failed" by (auto simp: marked_def)
  from handle_event_svc [OF assms(1) sh(1)] obtain sh' where sh': "svc (su_repo st') n = Some sh'"
    "sh_status sh' = sh_status sh \<or> moves e n (sh_status sh) (sh_status sh')" by blast
  have "sh_status sh' \<noteq> Running"
    using sh'(2) sh(2) assms(2) moves_running [of e n "sh_status sh"] by (auto simp: never_up_def)
  moreover have "sh_healthiness_checks_failed sh' = Some failed"
    using handle_event_counter [OF assms(1) _ sh(1,3) sh'(1)] assms(2) by (simp add: never_up_def)
  ultimately show ?thesis using sh'(1) handle_event_wf [OF assms(1)] assms(3) by (auto simp: marked_def)
qed

lemma handle_event_never_up:
  assumes "handle_event os now st e = Inr (st', out, acts)" and "e' \<in> set out"
  shows "never_up n e'"
  using assms by (elim handle_eventE; (elim handler_elims)?; auto simp: never_up_def)

lemma next_evs_never_up:
  assumes "next_evs now sh repo lc = Inr es" and "e \<in> set es"
    and "sh_name sh = n \<Longrightarrow> \<exists>c. sh_healthiness_checks_failed sh = Some c \<and> i32_gt c 0"
  shows "never_up n e"
proof (cases lc)
  case LRunning
  with assms show ?thesis
    by (cases "sh_status sh")
      (auto simp: next_evs_def next_events_def Let_def handle_restart_strategy_def never_up_def
        has_some_failed_healthchecks_def dest: handle_failed_service_events
        split: if_splits restart_strategy.splits)
next
  case (ShuttingDown sd)
  with assms show ?thesis by (auto simp: next_evs_def never_up_def dest: next_events_shutting_down_kinds)
qed

section \<open>A round and the loop\<close>

lemma marked_all:
  assumes "handle_all os st tes = Inr (st', out, acts)" and "\<forall>e \<in> set (map snd tes). never_up n e" and "marked n failed st"
  shows "marked n failed st' \<and> (\<forall>e \<in> set out. never_up n e)"
  using assms
proof (induction tes arbitrary: st out acts)
  case Nil
  then show ?case by (simp add: handle_all_Nil)
next
  case (Cons te tes)
  from Cons.prems(1) obtain st1 out1 acts1 out2 acts2
    where h: "handle_event os (fst te) st (snd te) = Inr (st1, out1, acts1)"
      and r: "handle_all os st1 tes = Inr (st', out2, acts2)" and out: "out = out1 @ out2" by (auto simp: handle_all_Cons)
  from marked_event [OF h] Cons.prems(2,3) have "marked n failed st1" by simp
  with Cons.IH [OF r] Cons.prems(2) handle_event_never_up [OF h] show ?case by (auto simp: out)
qed

lemma marked_round:
  assumes "bus_round os ou (st, q) = Inr (st', q')" and "marked n failed st" and "i32_gt failed 0"
    and "\<forall>e \<in> set q. never_up n e" and "\<forall>e \<in> set (ou_sent ou). never_up n e"
  shows "marked n failed st' \<and> (\<forall>e \<in> set q'. never_up n e)"
proof -
  let ?in = "round_input_of ou q"
  from assms(1) obtain out acts evs where h: "handle_all os (round_start ?in st) (ri_received ?in) = Inr (st', out, acts)"
    and evs: "services_next (ou_clock ou) st' = Inr evs"
    and q': "\<And>e. e \<in> set q' \<Longrightarrow> e \<in> set q \<or> e \<in> set (sigterm_events (round_start ?in st)) \<or> e \<in> set out
      \<or> e \<in> set evs \<or> (\<exists>m c. e = ServiceExited m c) \<or> e \<in> set (ou_sent ou)"
    by (elim bus_roundE) blast
  have "marked n failed (round_start ?in st)" using assms(2) by (simp add: marked_def)
  moreover have "\<forall>e \<in> set (map snd (ri_received ?in)). never_up n e"
    using assms(4) by (auto simp: received_events dest: in_set_takeD)
  ultimately have st': "marked n failed st'" and out: "\<forall>e \<in> set out. never_up n e"
    using marked_all [OF h] by blast+
  have wf: "repo_wf (su_repo st')" using st' by (simp add: marked_def sup_wf_def)
  have "never_up n e" if "e \<in> set evs" for e
  proof -
    from services_next_mem [OF evs wf, of e] that obtain m sh es where m: "svc (su_repo st') m = Some sh"
      "next_evs (ou_clock ou m) sh (su_repo st') (su_status st') = Inr es" "e \<in> set es" by blast
    from m(1) st' assms(3) repo_wf_name [OF wf m(1)]
    have "sh_name sh = n \<Longrightarrow> \<exists>c. sh_healthiness_checks_failed sh = Some c \<and> i32_gt c 0"
      by (auto simp: marked_def)
    then show ?thesis by (rule next_evs_never_up [OF m(2,3)])
  qed
  with st' out assms(4,5) show ?thesis
    by (auto simp: never_up_def dest!: q' sigterm_events_only)
qed

lemma marked_rounds:
  assumes "rounds os ous k m (st, q) = Inr (st', q')" and "marked n failed st" and "i32_gt failed 0"
    and "\<forall>e \<in> set q. never_up n e" and "\<forall>l. \<forall>e \<in> set (ou_sent (ous l)). never_up n e"
  shows "marked n failed st'"
  using assms
proof (induction m arbitrary: k st q)
  case (Suc m)
  from Suc.prems(1) obtain st1 q1 where "bus_round os (ous k) (st, q) = Inr (st1, q1)"
    "rounds os ous (Suc k) m (st1, q1) = Inr (st', q')" by auto
  with Suc.IH [of "Suc k" st1 q1] marked_round [of os "ous k" st q st1 q1 n failed] Suc.prems show ?case by blast
qed simp

section \<open>Properties\<close>

text \<open>
  C19. One failed check for ever: a service that is not \<open>Running\<close>, with a positive counter of failed
  health checks, never becomes \<open>Running\<close> again, although every later report is healthy, and whatever
  else happens: restarts, exits and signals included.
\<close>

theorem failed_check_for_ever:
  assumes "sup_wf st" and "svc (su_repo st) n = Some sh" and "sh_status sh \<noteq> Running"
    and "sh_healthiness_checks_failed sh = Some failed" and "i32_gt failed 0"
    and "StatusUpdate n Running \<notin> set q" and "HealthCheck n Unhealthy \<notin> set q"
    and "\<forall>l. list_all (thread_event names) (ou_sent (ous l)) \<and> HealthCheck n Unhealthy \<notin> set (ou_sent (ous l))"
    and "rounds os ous k m (st, q) = Inr (st', q')"
  shows "\<exists>sh'. svc (su_repo st') n = Some sh' \<and> sh_status sh' \<noteq> Running \<and> sh_healthiness_checks_failed sh' = Some failed"
proof -
  have "never_up n e" if "e \<in> set (ou_sent (ous l))" for e l
  proof -
    from assms(8) have "list_all (thread_event names) (ou_sent (ous l))" "HealthCheck n Unhealthy \<notin> set (ou_sent (ous l))"
      by blast+
    with that show ?thesis by (auto simp: list_all_iff never_up_def)
  qed
  moreover have "\<forall>e \<in> set q. never_up n e" using assms(6,7) by (auto simp: never_up_def)
  moreover have "marked n failed st" using assms(1-4) by (auto simp: marked_def)
  ultimately have "marked n failed st'" using marked_rounds [OF assms(9)] assms(5) by blast
  then show ?thesis by (auto simp: marked_def)
qed

definition ex_healthy_outside :: "nat \<Rightarrow> outside" where
  "ex_healthy_outside k = (ex_outside k)\<lparr>ou_sent := [HealthCheck ''a'' Healthy]\<rparr>"

definition ex_failed_once :: supervisor where
  "ex_failed_once = ex_sup LRunning
    [(ex_handler (ex_service ''a'') Started (Some 7))\<lparr>sh_healthiness_checks_failed := Some 1\<rparr>]"

lemma ex_failed_once_runs: "\<not> isl (rounds ex_os ex_healthy_outside 0 5 (ex_failed_once, []))"
  by code_simp

theorem failed_check_for_ever_witness:
  "\<exists>st q sh. rounds ex_os ex_healthy_outside 0 5 (ex_failed_once, []) = Inr (st, q)
    \<and> svc (su_repo st) ''a'' = Some sh \<and> sh_status sh \<noteq> Running"
proof -
  let ?sh = "(ex_handler (ex_service ''a'') Started (Some 7))\<lparr>sh_healthiness_checks_failed := Some 1\<rparr>"
  from ex_failed_once_runs obtain st q where r: "rounds ex_os ex_healthy_outside 0 5 (ex_failed_once, []) = Inr (st, q)"
    by (cases "rounds ex_os ex_healthy_outside 0 5 (ex_failed_once, [])") auto
  have wf: "sup_wf ex_failed_once"
    by (simp add: ex_failed_once_def sup_wf_ex_sup deps_known_ex_sup sh_start_after_def sh_shutdown_after_def List.map_filter_def)
  have sh: "svc (su_repo ex_failed_once) ''a'' = Some ?sh" by (simp add: ex_failed_once_def svc_ex_sup sh_name_def)
  have "\<exists>sh'. svc (su_repo st) ''a'' = Some sh' \<and> sh_status sh' \<noteq> Running \<and> sh_healthiness_checks_failed sh' = Some 1"
    by (rule failed_check_for_ever [OF wf sh _ _ _ _ _ _ r, where names = "{''a''}"])
      (simp_all add: i32_gt_def ex_healthy_outside_def)
  with r show ?thesis by blast
qed

end
