(* ===== verification/Ordering.thy ===== *)
theory Ordering
  imports Failed_Check "HOL-Library.Code_Target_Nat"
begin

text \<open>
  The order of starts and stops on the bus: a service is started only after each service of its
  \<open>start-after\<close> has been up, and in a graceful shutdown it is asked to stop only after each service of its
  \<open>shutdown-after\<close> has stopped, however late the bus delivers what was sent.
\<close>

section \<open>A step behind a guard\<close>

text \<open>
  An event that is sent only when a guard holds: when it is on its way, the guard held at some time.
\<close>

locale guarded_event =
  fixes os :: os and ous :: "nat \<Rightarrow> outside" and I :: "config \<Rightarrow> bool"
    and asks :: "service_name \<Rightarrow> event" and guard :: "service_name \<Rightarrow> supervisor \<Rightarrow> bool"
  assumes round: "I (st, q) \<Longrightarrow> bus_round os (ous k) (st, q) = Inr (st', q') \<Longrightarrow> I (st', q')"
    and sent: "I (st, q) \<Longrightarrow> bus_round os (ous k) (st, q) = Inr (st', q') \<Longrightarrow> asks n \<in> set q'
      \<Longrightarrow> asks n \<in> set q \<or> guard n st'"
begin

lemma kept: "rounds os ous k m c = Inr c' \<Longrightarrow> I c \<Longrightarrow> I c'"
proof (induction m arbitrary: k c)
  case (Suc m)
  then show ?case using round [of "fst c" "snd c" k] by fastforce
qed simp

lemma asked:
  assumes "rounds os ous k m c = Inr (st, q)" and "I c" and "asks n \<notin> set (snd c)" and "asks n \<in> set q"
  shows "\<exists>m'\<le>m. \<exists>st' q'. rounds os ous k m' c = Inr (st', q') \<and> guard n st'"
  using assms(1,4)
proof (induction m arbitrary: st q)
  case 0
  with assms(3) show ?case by simp
next
  case (Suc m)
  from Suc.prems(1) obtain st1 q1 where m: "rounds os ous k m c = Inr (st1, q1)"
    and b: "bus_round os (ous (k + m)) (st1, q1) = Inr (st, q)" unfolding rounds_Suc_Inr by force
  from sent [OF kept [OF m assms(2)] b Suc.prems(2)] Suc.IH [OF m] Suc.prems(1) show ?case
    by (meson le_Suc_eq le_SucI)
qed

end

text \<open>
  If moreover only this event gives a status, whoever has the status was asked for it before, and when that
  was sent the guard held.
\<close>

locale guarded_step = guarded_event +
  fixes status :: service_status
  assumes given: "I (st, q) \<Longrightarrow> bus_round os (ous k) (st, q) = Inr (st', q') \<Longrightarrow> status_of st' n = Some status
      \<Longrightarrow> status_of st n = Some status \<or> asks n \<in> set q"
begin

lemma given_after:
  assumes "rounds os ous k m c = Inr (st, q)" and "I c" and "asks n \<notin> set (snd c)"
    and "status_of (fst c) n \<noteq> Some status" and "status_of st n = Some status"
  shows "\<exists>m'<m. \<exists>st' q'. rounds os ous k m' c = Inr (st', q') \<and> guard n st'"
  using assms(1,5)
proof (induction m arbitrary: st q)
  case 0
  with assms(4) show ?case by simp
next
  case (Suc m)
  from Suc.prems(1) obtain st1 q1 where m: "rounds os ous k m c = Inr (st1, q1)"
    and b: "bus_round os (ous (k + m)) (st1, q1) = Inr (st, q)" unfolding rounds_Suc_Inr by force
  from given [OF kept [OF m assms(2)] b Suc.prems(2)] Suc.IH [OF m] asked [OF m assms(2,3)] show ?case
    by (meson le_imp_less_Suc less_SucI)
qed

end

section \<open>What a round sends\<close>

lemma handle_all_out:
  assumes "handle_all os st tes = Inr (st', out, acts)"
    and "\<And>now st ev st' out acts. handle_event os now st ev = Inr (st', out, acts) \<Longrightarrow> set out \<subseteq> Outs"
  shows "set out \<subseteq> Outs"
  using every.run_produces [OF _ _ assms(1) [unfolded handle_all_def], of Outs UNIV] assms(2)
  by (simp add: timed_step_def)

lemma bus_round_wf: "bus_round os ou (st, q) = Inr (st', q') \<Longrightarrow> sup_wf st \<Longrightarrow> sup_wf st'"
  by (auto simp: bus_round_Inr intro: run_round_wf)

section \<open>Starting in order\<close>

definition dependencies_up :: "service_name \<Rightarrow> supervisor \<Rightarrow> bool" where
  "dependencies_up n st \<longleftrightarrow> (\<exists>sh. svc (su_repo st) n = Some sh
    \<and> (\<forall>d \<in> set (sh_start_after sh). status_of st d = Some Running \<or> status_of st d = Some Finished))"

definition start_ok :: "service_name set \<Rightarrow> (nat \<Rightarrow> outside) \<Rightarrow> config \<Rightarrow> bool" where
  "start_ok names ous c \<longleftrightarrow> sup_wf (fst c) \<and> (\<forall>l. list_all (thread_event names) (ou_sent (ous l)))"

lemma handle_event_no_run: "handle_event os now st ev = Inr (st', out, acts) \<Longrightarrow> Run n \<notin> set out"
  by (elim handle_eventE; (elim handler_elims)?; auto)

lemma run_sent_by_round:
  assumes "start_ok names ous (st, q)" and b: "bus_round os (ous k) (st, q) = Inr (st', q')" and "Run n \<in> set q'"
  shows "Run n \<in> set q \<or> dependencies_up n st'"
proof -
  from b obtain out acts evs where
    h: "handle_all os (round_start (round_input_of (ous k) q) st) (ri_received (round_input_of (ous k) q)) = Inr (st', out, acts)"
    and evs: "services_next (ou_clock (ous k)) st' = Inr evs"
    and q': "Run n \<in> set q' \<Longrightarrow> Run n \<in> set q \<or> Run n \<in> set (sigterm_events (round_start (round_input_of (ous k) q) st))
      \<or> Run n \<in> set out \<or> Run n \<in> set evs \<or> (\<exists>m c. Run n = ServiceExited m c) \<or> Run n \<in> set (ou_sent (ous k))"
    by (elim bus_roundE) blast
  have "Run n \<notin> set out" using handle_all_out [OF h, of "{e. e \<noteq> Run n}"] handle_event_no_run by blast
  moreover have "Run n \<notin> set (ou_sent (ous k))" using assms(1) by (fastforce simp: start_ok_def list_all_iff)
  moreover have "repo_wf (su_repo st')" using bus_round_wf [OF b] assms(1) by (simp add: start_ok_def sup_wf_def)
  then have "Run n \<in> set evs \<Longrightarrow> dependencies_up n st'"
    using run_sent_iff [OF evs] by (fastforce simp: dependencies_up_def status_of_def)
  ultimately show ?thesis using q' assms(3) by (auto dest: sigterm_events_only)
qed

interpretation start_order: guarded_event os ous "start_ok names ous" Run dependencies_up for os ous names
proof unfold_locales
  show "start_ok names ous (st', q')" if "start_ok names ous (st, q)" "bus_round os (ous k) (st, q) = Inr (st', q')"
    for st q k st' q'
    using that bus_round_wf by (auto simp: start_ok_def)
qed (rule run_sent_by_round)

lemma handle_all_spawns:
  assumes "handle_all os st tes = Inr (st', out, acts)" and "SpawnForkExec s b \<in> set acts" and "sup_wf st"
  shows "Run (sv_name s) \<in> set (map snd tes) \<and> (\<exists>sh. svc (su_repo st) (sv_name s) = Some sh \<and> sh_service sh = s)"
  using assms
proof (induction tes arbitrary: st out acts)
  case Nil
  then show ?case by (simp add: handle_all_Nil)
next
  case (Cons te tes)
  from Cons.prems(1) obtain st1 out1 acts1 out2 acts2
    where h: "handle_event os (fst te) st (snd te) = Inr (st1, out1, acts1)"
      and r: "handle_all os st1 tes = Inr (st', out2, acts2)" and acts: "acts = acts1 @ acts2" by (auto simp: handle_all_Cons)
  show ?case
  proof (cases "SpawnForkExec s b \<in> set acts1")
    case True
    from handle_event_spawns [OF h this] obtain n sh where n: "snd te = Run n" "svc (su_repo st) n = Some sh" "s = sh_service sh"
      by blast
    moreover have "sv_name s = n" using Cons.prems(3) repo_wf_name [OF _ n(2)] n(3) by (simp add: sup_wf_def sh_name_def)
    ultimately show ?thesis by simp
  next
    case False
    with Cons.IH [OF r] Cons.prems(2) handle_event_wf [OF h Cons.prems(3)] acts
    obtain sh where "Run (sv_name s) \<in> set (map snd tes)" "svc (su_repo st1) (sv_name s) = Some sh" "sh_service sh = s" by auto
    with config_kept_svc [OF handle_event_config [OF h]] show ?thesis by (metis list.set_intros(2) list.simps(9))
  qed
qed

section \<open>Stopping in order\<close>

definition stopped_before :: "service_name \<Rightarrow> supervisor \<Rightarrow> bool" where
  "stopped_before n st \<longleftrightarrow> (\<exists>sh. svc (su_repo st) n = Some sh
    \<and> (\<forall>d \<in> set (sh_shutdown_after sh). status_of st d = Some Finished \<or> status_of st d = Some FinishedFailed))"

definition graceful_event :: "event \<Rightarrow> bool" where
  "graceful_event e \<longleftrightarrow> e \<noteq> ShuttingDownInitiated Forcefully"

definition graceful_sup :: "supervisor \<Rightarrow> bool" where
  "graceful_sup st \<longleftrightarrow> sup_wf st \<and> su_status st = ShuttingDown Gracefully \<and> \<not> su_sigterm st"

definition stop_ok :: "service_name set \<Rightarrow> (nat \<Rightarrow> outside) \<Rightarrow> config \<Rightarrow> bool" where
  "stop_ok names ous c \<longleftrightarrow> graceful_sup (fst c) \<and> list_all graceful_event (snd c)
    \<and> (\<forall>l. \<not> ou_signal (ous l) \<and> list_all (thread_event names) (ou_sent (ous l)))"

lemma graceful_sup_event:
  assumes "handle_event os now st e = Inr (st', out, acts)" and "graceful_sup st" and "graceful_event e"
  shows "graceful_sup st'"
proof -
  have "su_status st' = ShuttingDown Gracefully \<and> \<not> su_sigterm st'"
    using assms unfolding graceful_sup_def graceful_event_def
    by (elim handle_eventE; (elim handler_elims)?; auto intro: shutting_down.exhaust)
  with handle_event_wf [OF assms(1)] assms(2) show ?thesis by (simp add: graceful_sup_def)
qed

lemma graceful_out:
  assumes "handle_event os now st e = Inr (st', out, acts)"
  shows "set out \<subseteq> {e. graceful_event e \<and> (\<forall>n. e \<noteq> StatusUpdate n InKilling)}"
  using assms by (elim handle_eventE; (elim handler_elims)?; auto simp: graceful_event_def)

lemma graceful_sup_all:
  assumes "handle_all os st tes = Inr (st', out, acts)" and "graceful_sup st" and "\<forall>e \<in> set (map snd tes). graceful_event e"
  shows "graceful_sup st' \<and> (\<forall>n. status_of st' n = Some InKilling
    \<longrightarrow> status_of st n = Some InKilling \<or> StatusUpdate n InKilling \<in> set (map snd tes))"
  using assms
proof (induction tes arbitrary: st out acts)
  case Nil
  then show ?case by (simp add: handle_all_Nil)
next
  case (Cons te tes)
  from Cons.prems(1) obtain st1 out1 acts1 out2 acts2
    where h: "handle_event os (fst te) st (snd te) = Inr (st1, out1, acts1)"
      and r: "handle_all os st1 tes = Inr (st', out2, acts2)" by (auto simp: handle_all_Cons)
  have "status_of st n = Some InKilling \<or> snd te = StatusUpdate n InKilling" if "status_of st1 n = Some InKilling" for n
  proof -
    from that obtain sh1 where sh1: "svc (su_repo st1) n = Some sh1" "sh_status sh1 = InKilling" by (auto simp: status_of_def)
    from config_kept_svc [OF handle_event_config [OF h] sh1(1)] obtain sh where sh: "svc (su_repo st) n = Some sh" by blast
    with handle_event_svc [OF h this] sh1 show ?thesis
      by (auto simp: status_of_def elim!: moves.cases elim: accepts.cases)
  qed
  with Cons.IH [OF r] graceful_sup_event [OF h] Cons.prems(2,3) show ?case by fastforce
qed

lemma asked_to_stop:
  assumes "next_events_shutting_down now sh Gracefully repo = Inr evs" and "StatusUpdate n InKilling \<in> set evs"
  shows "n = sh_name sh \<and> is_service_killable repo sh = Inr True"
  using assms by (cases "sh_status sh") (auto simp: next_events_shutting_down_def Let_def split: if_splits)

lemma stop_round:
  assumes "stop_ok names ous (st, q)" and b: "bus_round os (ous k) (st, q) = Inr (st', q')"
  shows "stop_ok names ous (st', q')"
    and "StatusUpdate n InKilling \<in> set q' \<Longrightarrow> StatusUpdate n InKilling \<in> set q \<or> stopped_before n st'"
    and "status_of st' n = Some InKilling \<Longrightarrow> status_of st n = Some InKilling \<or> StatusUpdate n InKilling \<in> set q"
proof -
  let ?in = "round_input_of (ous k) q"
  from b obtain out acts evs where
    h: "handle_all os (round_start ?in st) (ri_received ?in) = Inr (st', out, acts)"
    and evs: "services_next (ou_clock (ous k)) st' = Inr evs"
    and q': "\<And>e. e \<in> set q' \<Longrightarrow> e \<in> set q \<or> e \<in> set (sigterm_events (round_start ?in st))
      \<or> e \<in> set out \<or> e \<in> set evs \<or> (\<exists>m c. e = ServiceExited m c) \<or> e \<in> set (ou_sent (ous k))"
    by (elim bus_roundE) blast
  from assms(1) have st: "graceful_sup st" "\<And>e. e \<in> set q \<Longrightarrow> graceful_event e" "\<not> ou_signal (ous k)"
    "list_all (thread_event names) (ou_sent (ous k))" by (auto simp: stop_ok_def list_all_iff)
  then have start: "round_start ?in st = st" by (simp add: round_start_def)
  have received: "set (map snd (ri_received ?in)) \<subseteq> set q" by (auto simp: received_events dest: in_set_takeD)
  from graceful_sup_all [OF h [unfolded start] st(1)] received st(2) have st': "graceful_sup st'"
    and killing: "\<And>n. status_of st' n = Some InKilling \<Longrightarrow> status_of st n = Some InKilling
      \<or> StatusUpdate n InKilling \<in> set (map snd (ri_received ?in))" by blast+
  from killing received show "status_of st' n = Some InKilling \<Longrightarrow> status_of st n = Some InKilling \<or> StatusUpdate n InKilling \<in> set q"
    by blast
  have sigterm: "sigterm_events (round_start ?in st) = []"
    using st(1) by (simp add: start sigterm_events_def graceful_sup_def)
  have out: "set out \<subseteq> {e. graceful_event e \<and> (\<forall>n. e \<noteq> StatusUpdate n InKilling)}"
    by (rule handle_all_out [OF h graceful_out])
  have mine: "\<exists>m sh es. svc (su_repo st') m = Some sh \<and> sh_name sh = m
      \<and> next_events_shutting_down (ou_clock (ous k) m) sh Gracefully (su_repo st') = Inr es \<and> e \<in> set es" if "e \<in> set evs" for e
  proof -
    from st' have wf: "repo_wf (su_repo st')" and lc: "su_status st' = ShuttingDown Gracefully"
      by (simp_all add: graceful_sup_def sup_wf_def)
    from that services_next_mem [OF evs wf, of e] obtain m sh es where m: "svc (su_repo st') m = Some sh"
      "next_evs (ou_clock (ous k) m) sh (su_repo st') (su_status st') = Inr es" "e \<in> set es" by blast
    with lc repo_wf_name [OF wf m(1)] show ?thesis by (auto simp: next_evs_def)
  qed
  then have "graceful_event e" if "e \<in> set evs" for e
    using that by (fastforce simp: graceful_event_def dest: next_events_shutting_down_kinds)
  with q' out sigterm st(2,4) have "\<forall>e \<in> set q'. graceful_event e"
    by (fastforce simp: graceful_event_def list_all_iff)
  with st' assms(1) show "stop_ok names ous (st', q')" by (simp add: stop_ok_def list_all_iff)
  assume "StatusUpdate n InKilling \<in> set q'"
  with q' [OF this] out sigterm st(4) have "StatusUpdate n InKilling \<in> set q \<or> StatusUpdate n InKilling \<in> set evs"
    by (fastforce simp: list_all_iff)
  moreover have "stopped_before n st'" if "StatusUpdate n InKilling \<in> set evs"
    using mine [OF that] by (fastforce dest: asked_to_stop simp: stopped_before_def is_service_killable_True status_of_def)
  ultimately show "StatusUpdate n InKilling \<in> set q \<or> stopped_before n st'" by blast
qed

interpretation stop_order: guarded_step os ous "stop_ok names ous" "\<lambda>n. StatusUpdate n InKilling" stopped_before InKilling
  for os ous names
  by unfold_locales (fact stop_round)+

section \<open>Properties\<close>

text \<open>
  C15. Starts are ordered: whenever a spawner thread is created for a service, each service of its
  \<open>start-after\<close> had been \<open>Running\<close> or \<open>Finished\<close>, all of them at the same time, after some earlier round,
  from the first round of Horust on and however late the bus delivers.
\<close>

theorem starts_in_order:
  assumes "validate loaded = Inr services" and "\<forall>l. list_all (thread_event names) (ou_sent (ous l))"
    and "rounds os ous 0 m (supervisor_new w services, []) = Inr (st, q)"
    and "run_round os (round_input_of (ous m) q) st = Inr (st', sent, acts)" and "SpawnForkExec s backoff \<in> set acts"
  shows "\<exists>m'\<le>m. \<exists>st1 q1. rounds os ous 0 m' (supervisor_new w services, []) = Inr (st1, q1)
    \<and> (\<forall>d \<in> set (sv_start_after s). status_of st1 d = Some Running \<or> status_of st1 d = Some Finished)"
proof -
  let ?c0 = "(supervisor_new w services, []) :: config"
  from assms(1,2) have start: "start_ok names ous ?c0"
    by (simp add: start_ok_def validate_Inr sup_wf_def supervisor_new_def repo_new_wf services_ok_deps_known)
  note reached = start_order.kept [OF assms(3) start]
  then have wf: "sup_wf st" by (simp add: start_ok_def)
  from assms(4) obtain out where
    "handle_all os (round_start (round_input_of (ous m) q) st) (ri_received (round_input_of (ous m) q)) = Inr (st', out, acts)"
    by (auto elim!: run_round_cases)
  from handle_all_spawns [OF this assms(5)] wf obtain sh where run: "Run (sv_name s) \<in> set q"
    and sh: "svc (su_repo st) (sv_name s) = Some sh" "sh_service sh = s"
    by (auto simp: received_events dest: in_set_takeD)
  from start_order.asked [OF assms(3) start _ run] obtain m' st1 q1 where
    m': "m' \<le> m" "rounds os ous 0 m' ?c0 = Inr (st1, q1)" and up: "dependencies_up (sv_name s) st1" by auto
  from up obtain sh1 where sh1: "svc (su_repo st1) (sv_name s) = Some sh1"
    "\<forall>d \<in> set (sh_start_after sh1). status_of st1 d = Some Running \<or> status_of st1 d = Some Finished"
    by (auto simp: dependencies_up_def)
  have "sh_service sh1 = s"
    using rounds_config [OF m'(2)] rounds_config [OF assms(3)] sh sh1(1)
    by (simp add: config_kept_def) (metis option.inject option.map(2))
  with m' sh1(2) show ?thesis by (auto simp: sh_start_after_def)
qed

definition ex_chain_outside :: "nat \<Rightarrow> outside" where
  "ex_chain_outside k = (ex_outside k)\<lparr>ou_sent :=
     (if k = 1 then [PidChanged ''a'' 7] else if k = 2 then [HealthCheck ''a'' Healthy] else [])\<rparr>"

definition ex_chain :: "service list" where
  "ex_chain = [ex_service ''a'', ex_after ''b'' [''a'']]"

text \<open>\<open>a\<close> is \<open>Running\<close> after five rounds, and in the next one the spawner of \<open>b\<close> is created.\<close>

fun spawns_after :: "service_name list \<Rightarrow> action \<Rightarrow> bool" where
  "spawns_after deps (SpawnForkExec s backoff) \<longleftrightarrow> sv_start_after s = deps"
| "spawns_after deps _ \<longleftrightarrow> False"

lemma spawns_afterE: "spawns_after deps a \<Longrightarrow> (\<And>s backoff. a = SpawnForkExec s backoff \<Longrightarrow> sv_start_after s = deps \<Longrightarrow> thesis) \<Longrightarrow> thesis"
  by (cases a) auto

lemma ex_chain_run:
  "case rounds ex_os ex_chain_outside 0 5 (supervisor_new ex_world ex_chain, []) of
     Inl _ \<Rightarrow> False
   | Inr c \<Rightarrow> (case run_round ex_os (round_input_of (ex_chain_outside 5) (snd c)) (fst c) of
       Inl _ \<Rightarrow> False
     | Inr r \<Rightarrow> list_ex (spawns_after [''a'']) (snd (snd r)))"
  by code_simp

theorem starts_in_order_witness:
  "\<exists>m'\<le>5. \<exists>st q. rounds ex_os ex_chain_outside 0 m' (supervisor_new ex_world ex_chain, []) = Inr (st, q)
    \<and> (status_of st ''a'' = Some Running \<or> status_of st ''a'' = Some Finished)"
proof -
  from ex_chain_run obtain st q st' sent acts s backoff where
    r: "rounds ex_os ex_chain_outside 0 5 (supervisor_new ex_world ex_chain, []) = Inr (st, q)"
      "run_round ex_os (round_input_of (ex_chain_outside 5) q) st = Inr (st', sent, acts)"
      "SpawnForkExec s backoff \<in> set acts" and s: "sv_start_after s = [''a'']"
    by (force simp: list_ex_iff split: sum.splits elim!: spawns_afterE)
  have "validate ex_chain = Inr ex_chain"
    by (simp add: ex_chain_def validate_def validate_one_def)
      (simp add: ex_after_def ex_service_def from_command_def default_service_def)
  moreover have "\<forall>l. list_all (thread_event {''a''}) (ou_sent (ex_chain_outside l))"
    by (simp add: ex_chain_outside_def ex_outside_def)
  ultimately show ?thesis using starts_in_order [OF _ _ r] s by auto
qed

text \<open>
  C16. Stops are ordered: when a service has become \<open>InKilling\<close> during a graceful shutdown, each service
  of its \<open>shutdown-after\<close> was \<open>Finished\<close> or \<open>FinishedFailed\<close>, all of them at the same time, after some
  earlier round. The shutdown stays graceful, and no request to kill the service was pending before it.
\<close>

theorem stops_in_order:
  assumes "sup_wf st0" and "su_status st0 = ShuttingDown Gracefully" and "\<not> su_sigterm st0"
    and "ShuttingDownInitiated Forcefully \<notin> set q0" and "\<forall>l. \<not> ou_signal (ous l) \<and> list_all (thread_event names) (ou_sent (ous l))"
    and "StatusUpdate n InKilling \<notin> set q0" and "status_of st0 n \<noteq> Some InKilling"
    and "rounds os ous k m (st0, q0) = Inr (st, q)" and "svc (su_repo st) n = Some sh" and "sh_status sh = InKilling"
  shows "\<exists>m'<m. \<exists>st1 q1. rounds os ous k m' (st0, q0) = Inr (st1, q1)
    \<and> (\<forall>d \<in> set (sh_shutdown_after sh). status_of st1 d = Some Finished \<or> status_of st1 d = Some FinishedFailed)"
proof -
  have "stop_ok names ous (st0, q0)"
    using assms(1-5) by (auto simp: stop_ok_def graceful_sup_def graceful_event_def list_all_iff)
  moreover have "status_of st n = Some InKilling" using assms(9,10) by (simp add: status_of_def)
  ultimately obtain m' st1 q1 where m': "m' < m" "rounds os ous k m' (st0, q0) = Inr (st1, q1)" and "stopped_before n st1"
    using stop_order.given_after [OF assms(8), of names n] assms(6,7) by auto
  then obtain sh1 where sh1: "svc (su_repo st1) n = Some sh1"
    "\<forall>d \<in> set (sh_shutdown_after sh1). status_of st1 d = Some Finished \<or> status_of st1 d = Some FinishedFailed"
    by (auto simp: stopped_before_def)
  have "sh_service sh1 = sh_service sh"
    using rounds_config [OF m'(2)] rounds_config [OF assms(8)] assms(9) sh1(1)
    by (simp add: config_kept_def) (metis option.inject option.map(2))
  with m' sh1(2) show ?thesis by (auto simp: sh_shutdown_after_def)
qed

definition ex_stopping :: supervisor where
  "ex_stopping = ex_sup (ShuttingDown Gracefully)
     [ex_handler (ex_service ''a'') Success None, ex_handler (ex_shutdown_after ''b'' [''a'']) Running (Some 8)]"

lemma ex_stopping_run:
  "case rounds ex_os ex_outside 0 3 (ex_stopping, []) of
     Inl _ \<Rightarrow> False
   | Inr (st, q) \<Rightarrow> (case svc (su_repo st) ''b'' of None \<Rightarrow> False
       | Some sh \<Rightarrow> sh_status sh = InKilling \<and> sh_shutdown_after sh = [''a''])"
  by code_simp

theorem stops_in_order_witness:
  "\<exists>m'<3. \<exists>st q. rounds ex_os ex_outside 0 m' (ex_stopping, []) = Inr (st, q)
    \<and> (status_of st ''a'' = Some Finished \<or> status_of st ''a'' = Some FinishedFailed)"
proof -
  from ex_stopping_run obtain st q sh where r: "rounds ex_os ex_outside 0 3 (ex_stopping, []) = Inr (st, q)"
      "svc (su_repo st) ''b'' = Some sh" "sh_status sh = InKilling" "sh_shutdown_after sh = [''a'']"
    by (auto split: sum.splits prod.splits option.splits)
  have wf: "sup_wf ex_stopping" unfolding ex_stopping_def by (rule ex_two_sup_wf) simp_all
  have b: "status_of ex_stopping ''b'' \<noteq> Some InKilling"
    by (simp add: ex_stopping_def status_of_def svc_ex_sup)
  show ?thesis
    using stops_in_order [OF wf _ _ _ _ _ b r(1,2,3), where names = "{}"] r(4)
    by (simp add: ex_stopping_def ex_outside_def)
qed

end
