(* ===== verification/Shutdown_Bound.thy ===== *)
theory Shutdown_Bound
  imports Shutdown_End "HOL-Library.Code_Target_Nat"
begin

text \<open>
  How long a forceful shutdown takes: if whatever is pending is delivered within \<open>delay\<close> rounds,
  \<open>3 * delay + 1\<close> rounds are enough.
\<close>

section \<open>Loops with a prompt bus\<close>

text \<open>A fair loop whose pending events all arrive within \<open>delay\<close> rounds.\<close>

locale prompt_loop = fair_loop +
  fixes delay :: nat
  assumes prompt: "I k (st, q) \<Longrightarrow> rank st n \<noteq> 0 \<Longrightarrow> length q \<le> (\<Sum>j<delay. ou_delivered (ous (k + j)))"
    and lowered: "lowers e n r \<Longrightarrow> r \<noteq> 0"
begin

lemma rounds_split:
  assumes "I k c" and "rounds os ous k (a + b) c = Inr c2"
  obtains c1 where "rounds os ous k a c = Inr c1" "I (k + a) c1" "later rank c c1" "rounds os ous (k + a) b c1 = Inr c2"
proof -
  from invariant_kept [OF assms(1), of a] obtain c1 where 1: "rounds os ous k a c = Inr c1" "I (k + a) c1" "later rank c c1"
    by blast
  from invariant_kept [OF 1(2), of b] obtain c3 where "rounds os ous (k + a) b c1 = Inr c3" by blast
  with rounds_add [OF 1(1)] assms(2) that [OF 1] show thesis by auto
qed

lemma stays_lower:
  "I k c \<Longrightarrow> rounds os ous k m c = Inr c' \<Longrightarrow> rank (fst c') n \<le> rank (fst c) n"
  using invariant_kept [of k c m] by (auto simp: later_def)

lemma position_in_time:
  assumes "I k (st, q)" and "i < length q" and "i < (\<Sum>j<d. ou_delivered (ous (k + j)))"
    and "lowers (q ! i) n (rank st n)" and "rounds os ous k d (st, q) = Inr c'"
  shows "rank (fst c') n < rank st n"
  using assms
proof (induction d arbitrary: k i st q)
  case 0
  then show ?case by simp
next
  case (Suc d)
  let ?d = "ou_delivered (ous k)"
  from round [OF Suc.prems(1)] obtain st1 q1 where b: "bus_round os (ous k) (st, q) = Inr (st1, q1)"
    and I: "I (Suc k) (st1, q1)" and l: "later rank (st, q) (st1, q1)" by auto
  from b Suc.prems(5) have r: "rounds os ous (Suc k) d (st1, q1) = Inr c'" by simp
  show ?case
  proof (cases "rank st1 n < rank st n")
    case True
    with stays_lower [OF I r, of n] show ?thesis by simp
  next
    case False
    with l have same: "rank st1 n = rank st n" by (simp add: later_def antisym not_less)
    have "?d \<le> i"
    proof (rule ccontr)
      assume "\<not> ?d \<le> i"
      with Suc.prems(2) have "q ! i \<in> set (take ?d q)" by (auto simp: in_set_conv_nth intro!: exI [of _ i])
      with arrival [OF Suc.prems(1) b _ Suc.prems(4)] same show False by simp
    qed
    moreover from b obtain rest where q1: "q1 = drop ?d q @ rest" by (auto simp: bus_round_Inr)
    moreover have "i < ?d + (\<Sum>j<d. ou_delivered (ous (Suc k + j)))"
      using Suc.prems(3) by (simp add: sum.lessThan_Suc_shift del: sum.lessThan_Suc)
    ultimately have "rank (fst c') n < rank st1 n"
      using Suc.prems(2,4) by (intro Suc.IH [OF I, of "i - ?d"] r) (auto simp: nth_append same)
    with same show ?thesis by simp
  qed
qed

lemma pending_in_time:
  assumes "I k (st, q)" and "e \<in> set q" and "lowers e n (rank st n)" and "rounds os ous k delay (st, q) = Inr c'"
  shows "rank (fst c') n < rank st n"
proof -
  from assms(2) obtain i where "i < length q" "q ! i = e" unfolding in_set_conv_nth by blast
  with prompt [OF assms(1) lowered [OF assms(3)]] assms show ?thesis by (intro position_in_time [of k st q i]) auto
qed

end

text \<open>
  If moreover each round sends every service that is still up an event that brings it down, and there is a
  bound on the number of times a service can come down (whenever its rank falls in a round, so does its
  level), all services are down in time.
\<close>

locale falling_loop = prompt_loop +
  fixes level :: "supervisor \<Rightarrow> service_name \<Rightarrow> nat"
  assumes sends: "I k (st, q) \<Longrightarrow> bus_round os (ous k) (st, q) = Inr (st', q') \<Longrightarrow> rank st' n \<noteq> 0
      \<Longrightarrow> \<exists>e \<in> set q'. lowers e n (rank st' n)"
    and level: "I k (st, q) \<Longrightarrow> bus_round os (ous k) (st, q) = Inr (st', q')
      \<Longrightarrow> level st' n < level st n \<or> level st' n = level st n \<and> rank st' n = rank st n"
    and level_zero: "level st n = 0 \<Longrightarrow> rank st n = 0"
begin

lemma level_falls:
  assumes "I k c" and "rounds os ous k m c = Inr c'"
  shows "level (fst c') n < level (fst c) n \<or> level (fst c') n = level (fst c) n \<and> rank (fst c') n = rank (fst c) n"
  using assms
proof (induction m arbitrary: k c)
  case (Suc m)
  from round [OF Suc.prems(1)] obtain c1 where b: "bus_round os (ous k) c = Inr c1" and I: "I (Suc k) c1" by blast
  with Suc.prems(2) have "rounds os ous (Suc k) m c1 = Inr c'" by simp
  from Suc.IH [OF I this] level [of k "fst c" "snd c" "fst c1" "snd c1" n] Suc.prems(1) b show ?case by auto
qed simp

text \<open>Once each service that is up has such an event on its way, all are down in time.\<close>

definition called :: "config \<Rightarrow> bool" where
  "called c \<longleftrightarrow> (\<forall>n. rank (fst c) n \<noteq> 0 \<longrightarrow> (\<exists>e \<in> set (snd c). lowers e n (rank (fst c) n)))"

lemma called_next: "I k c \<Longrightarrow> bus_round os (ous k) c = Inr c' \<Longrightarrow> called c'"
  unfolding called_def using sends [of k "fst c" "snd c" "fst c'" "snd c'"] by simp

lemma called_kept: "rounds os ous k m c = Inr c' \<Longrightarrow> I k c \<Longrightarrow> called c \<Longrightarrow> called c'"
proof (induction m arbitrary: k c)
  case (Suc m)
  from round [OF Suc.prems(2)] obtain c1 where "bus_round os (ous k) c = Inr c1" "I (Suc k) c1" by blast
  with Suc.IH [of "Suc k" c1] Suc.prems(1) called_next [OF Suc.prems(2)] show ?case by simp
qed simp

lemma called_down:
  assumes "I k c" and "called c" and "level (fst c) n \<le> l" and "rounds os ous k (l * delay) c = Inr c'"
  shows "rank (fst c') n = 0"
  using assms
proof (induction l arbitrary: k c)
  case 0
  then show ?case using level_zero by simp
next
  case (Suc l)
  from Suc.prems(4) have "rounds os ous k (delay + l * delay) c = Inr c'" by (simp only: mult_Suc)
  from rounds_split [OF Suc.prems(1) this] obtain c1 where c1: "rounds os ous k delay c = Inr c1" "I (k + delay) c1"
    "rounds os ous (k + delay) (l * delay) c1 = Inr c'" by blast
  show ?case
  proof (cases "rank (fst c) n = 0")
    case True
    with stays_lower [OF Suc.prems(1) c1(1), of n] stays_lower [OF c1(2,3), of n] show ?thesis by simp
  next
    case False
    with Suc.prems(2) obtain e where "e \<in> set (snd c)" "lowers e n (rank (fst c) n)" by (auto simp: called_def)
    with pending_in_time [of k "fst c" "snd c" e n c1] Suc.prems(1) c1(1) have "rank (fst c1) n < rank (fst c) n" by simp
    with level_falls [OF Suc.prems(1) c1(1), of n] Suc.prems(3) have "level (fst c1) n \<le> l" by auto
    with Suc.IH [OF c1(2) called_kept [OF c1(1) Suc.prems(1,2)] _ c1(3)] show ?thesis by simp
  qed
qed

lemma all_down_in_time:
  assumes "I k c" and "level (fst c) n \<le> l" and "rounds os ous k (Suc (l * delay)) c = Inr c'"
  shows "rank (fst c') n = 0"
proof -
  from round [OF assms(1)] obtain c1 where b: "bus_round os (ous k) c = Inr c1" "I (Suc k) c1" by blast
  have "level (fst c1) n \<le> level (fst c) n"
    using level [of k "fst c" "snd c" "fst c1" "snd c1" n] assms(1) b(1) by auto
  with assms(2,3) b called_down [OF b(2) called_next [OF assms(1) b(1)], of n l c'] show ?thesis by simp
qed

end

section \<open>A forceful shutdown\<close>

text \<open>
  The steps a service can still take on its way down: no event of a shutdown skips back, so \<open>Started\<close> and
  \<open>Running\<close> are three steps from the end.
\<close>

fun stop_level :: "service_status \<Rightarrow> nat" where
  "stop_level Starting = 3" | "stop_level Started = 3" | "stop_level Running = 3" | "stop_level InKilling = 2"
| "stop_level Initial = 2" | "stop_level Failed = 1" | "stop_level Success = 1" | "stop_level Finished = 0"
| "stop_level FinishedFailed = 0"

lemma stop_level_le: "stop_level s \<le> 3"
  by (cases s) simp_all

definition level_of :: "supervisor \<Rightarrow> service_name \<Rightarrow> nat" where
  "level_of st n = (case status_of st n of None \<Rightarrow> 0 | Some s \<Rightarrow> stop_level s)"

lemma moves_stop_level: "moves ev n s t \<Longrightarrow> drains sd ev \<Longrightarrow> stop_level t < stop_level s \<and> t \<noteq> Initial"
  by (elim moves.cases) (auto elim!: accepts.cases)

text \<open>A service has the status it had or one further down, and none becomes \<open>Initial\<close>.\<close>

definition comes_down :: "service_name \<Rightarrow> supervisor \<Rightarrow> supervisor \<Rightarrow> bool" where
  "comes_down n st st' \<longleftrightarrow>
    level_of st' n < level_of st n \<and> status_of st' n \<noteq> Some Initial \<or> status_of st' n = status_of st n"

lemma comes_down_refl: "comes_down n st st"
  by (simp add: comes_down_def)

lemma comes_down_trans: "comes_down n st st1 \<Longrightarrow> comes_down n st1 st2 \<Longrightarrow> comes_down n st st2"
  by (auto simp: comes_down_def level_of_def)

lemma level_of_event:
  assumes "handle_event os now st ev = Inr (st', out, acts)" and "drains sd ev"
  shows "comes_down n st st'"
proof (cases "svc (su_repo st) n")
  case None
  with event_svc_known [OF assms(1), of n] show ?thesis by (simp add: comes_down_def status_of_def)
next
  case (Some sh)
  from handle_event_svc [OF assms(1) this] obtain sh' where "svc (su_repo st') n = Some sh'"
    "sh_status sh' = sh_status sh \<or> moves ev n (sh_status sh) (sh_status sh')" by blast
  with Some moves_stop_level [OF _ assms(2)] show ?thesis by (auto simp: comes_down_def level_of_def status_of_def)
qed

lemma level_of_all:
  assumes "handle_all os st tes = Inr (st', out, acts)" and "\<forall>e \<in> set (map snd tes). drains sd e"
  shows "comes_down n st st'"
  using assms
proof (induction tes arbitrary: st out acts)
  case Nil
  then show ?case by (simp add: handle_all_Nil comes_down_refl)
next
  case (Cons te tes)
  from Cons.prems(1) obtain st1 out1 acts1 out2 acts2
    where h: "handle_event os (fst te) st (snd te) = Inr (st1, out1, acts1)"
      and r: "handle_all os st1 tes = Inr (st', out2, acts2)" by (auto simp: handle_all_Cons)
  from level_of_event [OF h, of sd n] Cons.IH [OF r] Cons.prems(2) show ?case by (auto elim: comes_down_trans)
qed

text \<open>Until every service is finished, what is pending is delivered within \<open>delay\<close> rounds.\<close>

definition prompt :: "os \<Rightarrow> (nat \<Rightarrow> outside) \<Rightarrow> nat \<Rightarrow> nat \<Rightarrow> config \<Rightarrow> bool" where
  "prompt os ous delay k c \<longleftrightarrow> (\<forall>m c'. rounds os ous k m c = Inr c' \<longrightarrow> \<not> all_have_finished (su_repo (fst c'))
    \<longrightarrow> length (snd c') \<le> (\<Sum>j<delay. ou_delivered (ous (k + m + j))))"

lemma prompt_round: "prompt os ous delay k c \<Longrightarrow> bus_round os (ous k) c = Inr c1 \<Longrightarrow> prompt os ous delay (Suc k) c1"
  unfolding prompt_def
proof (intro allI impI)
  fix m c'
  assume p: "\<forall>m c'. rounds os ous k m c = Inr c' \<longrightarrow> \<not> all_have_finished (su_repo (fst c'))
      \<longrightarrow> length (snd c') \<le> (\<Sum>j<delay. ou_delivered (ous (k + m + j)))"
    and b: "bus_round os (ous k) c = Inr c1" "rounds os ous (Suc k) m c1 = Inr c'" "\<not> all_have_finished (su_repo (fst c'))"
  from b(1,2) have "rounds os ous k (Suc m) c = Inr c'" by simp
  with p b(3) have "length (snd c') \<le> (\<Sum>j<delay. ou_delivered (ous (k + Suc m + j)))" by blast
  then show "length (snd c') \<le> (\<Sum>j<delay. ou_delivered (ous (Suc k + m + j)))" by simp
qed

definition prompt_drain :: "os \<Rightarrow> (nat \<Rightarrow> outside) \<Rightarrow> shutting_down \<Rightarrow> nat \<Rightarrow> nat \<Rightarrow> config \<Rightarrow> bool" where
  "prompt_drain os ous sd delay k c \<longleftrightarrow> drain_ok ous sd k c \<and> prompt os ous delay k c"

lemma ranks_of_finished:
  assumes "draining sd st"
  shows "all_have_finished (su_repo st) \<longleftrightarrow> (\<forall>n. rank_of st n = 0)"
  using assms
  by (auto simp: draining_def sup_wf_def all_have_finished_iff rank_of_def status_of_def srank_zero split: option.splits)

lemma drain_level:
  assumes "drain_ok ous sd k (st, q)" and "bus_round os (ous k) (st, q) = Inr (st', q')"
  shows "comes_down n st st'"
proof -
  let ?in = "round_input_of (ous k) q"
  from assms(2) obtain out acts where h: "handle_all os (round_start ?in st) (ri_received ?in) = Inr (st', out, acts)"
    by (elim bus_roundE)
  have "\<forall>e \<in> set (map snd (ri_received ?in)). drains sd e"
    using assms(1) unfolding received_events drain_ok_def drain_inv_def drainable_def by (auto dest: in_set_takeD)
  from level_of_all [OF h this, of n] show ?thesis by (simp add: comes_down_def level_of_def status_of_def)
qed

interpretation prompt_bus: prompt_loop os ous "prompt_drain os ous sd delay" rank_of brings_down delay for os ous sd delay
proof unfold_locales
  show "delivers ous" if "prompt_drain os ous sd delay k c" for k c
    using that by (auto simp: prompt_drain_def dest: drain.fair)
  show "rank_of st n = 0" if "svc (su_repo st) n = None" for st n
    by (rule drain.unknown [OF that])
  show "\<exists>c'. bus_round os (ous k) c = Inr c' \<and> prompt_drain os ous sd delay (Suc k) c' \<and> later rank_of c c'"
    if "prompt_drain os ous sd delay k c" for k c
    using drain.round [of ous sd k c os] prompt_round that unfolding prompt_drain_def by blast
  show "rank_of st' n < rank_of st n"
    if "prompt_drain os ous sd delay k (st, q)" "bus_round os (ous k) (st, q) = Inr (st', q')"
      "e \<in> set (take (ou_delivered (ous k)) q)" "brings_down e n (rank_of st n)" for k st q st' q' e n
    using drain.arrival [of ous sd k st q os] that by (simp add: prompt_drain_def)
  show "length q \<le> (\<Sum>j<delay. ou_delivered (ous (k + j)))"
    if "prompt_drain os ous sd delay k (st, q)" "rank_of st n \<noteq> 0" for k st q n
  proof -
    from that(1) have "draining sd st" by (simp add: prompt_drain_def drain_ok_def drain_inv_def)
    with that(2) have "\<not> all_have_finished (su_repo st)" by (auto simp: ranks_of_finished)
    with that(1) show ?thesis unfolding prompt_drain_def prompt_def by (metis Nat.add_0_right fst_conv rounds.simps(1) snd_conv)
  qed
  show "r \<noteq> 0" if "brings_down e n r" for e n r
    using that by (auto simp: brings_down_def)
qed

text \<open>What a service asks for in a round is on its way after it.\<close>

lemma asked_is_sent:
  assumes "prompt_drain os ous sd delay k (st, q)" and b: "bus_round os (ous k) (st, q) = Inr (st', q')"
    and sh: "svc (su_repo st') n = Some sh"
    and e: "next_evs (ou_clock (ous k) n) sh (su_repo st') (su_status st') = Inr es" "e \<in> set es" "takes_down e n (sh_status sh)"
  shows "\<exists>e \<in> set q'. brings_down e n (rank_of st' n)"
proof -
  from assms(1) have "drain_ok ous sd k (st, q)" by (simp add: prompt_drain_def)
  from drain_next [OF this, of os] b obtain evs where ok: "drain_ok ous sd (Suc k) (st', q')"
    and evs: "services_next (ou_clock (ous k)) st' = Inr evs" "set evs \<subseteq> set q'"
    by (metis (no_types, lifting) Inr_inject prod.inject set_append subset_trans sup_ge2)
  from ok have d: "draining sd st'" "drainable sd st' q'" by (simp_all add: drain_ok_def drain_inv_def)
  with services_next_mem [OF evs(1)] e sh evs(2) have "e \<in> set q'" by (auto simp: draining_def sup_wf_def)
  moreover from this d(2) have "drains sd e" by (auto simp: drainable_def)
  with takes_down_ranked [OF e(3)] e(3) sh have "brings_down e n (rank_of st' n)"
    by (auto simp: brings_down_def rank_of_def status_of_def)
  ultimately show ?thesis ..
qed

lemma rank_of_svc:
  assumes "rank_of st n \<noteq> 0"
  obtains sh where "svc (su_repo st) n = Some sh" "sh_status sh \<noteq> Finished" "sh_status sh \<noteq> FinishedFailed"
  using assms by (auto simp: rank_of_def status_of_def srank_zero simp del: neq0_conv split: option.splits)

lemma prompt_drain_draining: "prompt_drain os ous sd delay k (st, q) \<Longrightarrow> draining sd st"
  by (simp add: prompt_drain_def drain_ok_def drain_inv_def)

lemma prompt_drain_next:
  "prompt_drain os ous sd delay k (st, q) \<Longrightarrow> bus_round os (ous k) (st, q) = Inr (st', q') \<Longrightarrow> prompt_drain os ous sd delay (Suc k) (st', q')"
  using prompt_bus.round [of os ous sd delay k "(st, q)"] by auto

lemma prompt_drain_level:
  assumes "prompt_drain os ous sd delay k (st, q)" and "bus_round os (ous k) (st, q) = Inr (st', q')"
  shows "comes_down n st st'"
  using drain_level [of ous sd k st q os st' q' n] assms by (simp add: prompt_drain_def)

interpretation forceful: falling_loop os ous "prompt_drain os ous Forcefully delay" rank_of brings_down delay level_of
  for os ous delay
proof unfold_locales
  show "\<exists>e \<in> set q'. brings_down e n (rank_of st' n)"
    if r: "prompt_drain os ous Forcefully delay k (st, q)" "bus_round os (ous k) (st, q) = Inr (st', q')" "rank_of st' n \<noteq> 0"
    for k st q st' q' n
    using rank_of_svc [OF r(3)] forceful_event [OF prompt_drain_draining [OF prompt_drain_next [OF r(1,2)]]]
      asked_is_sent [OF r(1,2)] by metis
  show "level_of st' n < level_of st n \<or> level_of st' n = level_of st n \<and> rank_of st' n = rank_of st n"
    if "prompt_drain os ous Forcefully delay k (st, q)" "bus_round os (ous k) (st, q) = Inr (st', q')" for k st q st' q' n
    using prompt_drain_level [OF that, of n] by (auto simp: comes_down_def level_of_def rank_of_def)
  show "rank_of st n = 0" if "level_of st n = 0" for st n
    using that by (auto simp: level_of_def rank_of_def elim!: stop_level.elims split: option.splits)
qed

section \<open>Properties\<close>


lemma finished_stays:
  assumes "drain_ok ous sd k c" and "rounds os ous k a c = Inr c1" and "all_have_finished (su_repo (fst c1))"
    and "rounds os ous k (a + b) c = Inr c2"
  shows "all_have_finished (su_repo (fst c2))"
proof -
  from drain.invariant_kept [OF assms(1), of os a] assms(2) have 1: "drain_ok ous sd (k + a) c1" by auto
  from drain.invariant_kept [OF this, of os b] rounds_add [OF assms(2)] assms(4)
  have "drain_ok ous sd (k + a + b) c2" "later rank_of c1 c2" by auto
  with 1 assms(3) show ?thesis
    by (cases c1; cases c2) (auto simp: drain_ok_def drain_inv_def later_def ranks_of_finished)
qed

text \<open>A bus with the delay 1, seen on the rounds up to the end.\<close>

definition delivered_at_once :: "os \<Rightarrow> (nat \<Rightarrow> outside) \<Rightarrow> config \<Rightarrow> nat \<Rightarrow> bool" where
  "delivered_at_once os ous c m \<longleftrightarrow> (case rounds os ous 0 m c of Inl _ \<Rightarrow> False
    | Inr c' \<Rightarrow> length (snd c') \<le> ou_delivered (ous m))"

definition ends_by :: "os \<Rightarrow> (nat \<Rightarrow> outside) \<Rightarrow> config \<Rightarrow> nat \<Rightarrow> bool" where
  "ends_by os ous c m \<longleftrightarrow> (case rounds os ous 0 m c of Inl _ \<Rightarrow> False | Inr c' \<Rightarrow> all_have_finished (su_repo (fst c')))"

lemma prompt_until:
  assumes "drain_ok ous sd 0 c" and "list_all (delivered_at_once os ous c) [0..<m]" and "ends_by os ous c m"
  shows "prompt os ous 1 0 c"
  unfolding prompt_def
proof (intro allI impI)
  fix m' c' assume r: "rounds os ous 0 m' c = Inr c'" and u: "\<not> all_have_finished (su_repo (fst c'))"
  from assms(3) obtain c1 where c1: "rounds os ous 0 m c = Inr c1" "all_have_finished (su_repo (fst c1))"
    by (auto simp: ends_by_def split: sum.splits)
  have "m' < m"
  proof (rule ccontr)
    assume "\<not> m' < m"
    then obtain b where "m' = m + b" by (metis le_add_diff_inverse not_less)
    with finished_stays [OF assms(1) c1, of b] r u show False by simp
  qed
  with assms(2) have "delivered_at_once os ous c m'" by (simp add: list_all_iff)
  with r show "length (snd c') \<le> (\<Sum>j<1. ou_delivered (ous (0 + m' + j)))" by (simp add: delivered_at_once_def)
qed

text \<open>
  A running service whose process ignores its signals, and a bus that delivers everything in the next round:
  the service needs all of the four rounds.
\<close>

definition ex_stubborn :: supervisor where
  "ex_stubborn = ex_sup (ShuttingDown Forcefully) [ex_handler (ex_service ''a'') Running (Some 7)]"

lemma ex_stubborn_rounds:
  "list_all (delivered_at_once ex_os ex_outside (ex_stubborn, [])) [0..<4]"
  "ends_by ex_os ex_outside (ex_stubborn, []) 4" "\<not> ends_by ex_os ex_outside (ex_stubborn, []) 3"
  by code_simp+

lemma ex_stubborn_draining: "draining Forcefully ex_stubborn" "drainable Forcefully ex_stubborn []"
  unfolding ex_stubborn_def by (rule ex_draining) (simp add: drainable_def)


end
