(* ===== verification/Graceful_Bound.thy ===== *)
theory Graceful_Bound
  imports Shutdown_Bound
begin

text \<open>
  How long a graceful shutdown takes: if the bus delivers within \<open>delay\<close> rounds and the wait of a service is
  over when more than \<open>patience\<close> rounds have passed since its signal, the services of each rank of \<open>shutdown-after\<close> need at most
  \<open>4 * delay + patience + 1\<close> rounds once those below are finished.
\<close>

section \<open>The time of the signal\<close>

text \<open>The wait before a service is killed by force, and the second that rounding adds to it.\<close>

definition wait_nanos :: "service_handler \<Rightarrow> nat" where
  "wait_nanos sh = (as_secs (tm_wait (sv_termination (sh_service sh))) + 1) * nanos_per_sec"

text \<open>More than \<open>patience\<close> rounds after the round in which a signal was sent, the wait of every service is over.\<close>

definition waits_end :: "nat \<Rightarrow> (nat \<Rightarrow> outside) \<Rightarrow> supervisor \<Rightarrow> bool" where
  "waits_end patience ous st \<longleftrightarrow> (\<forall>n sh. svc (su_repo st) n = Some sh \<longrightarrow>
    (\<forall>l i l'. l + patience < l' \<longrightarrow> ou_times (ous l) i + wait_nanos sh \<le> ou_clock (ous l') n))"

text \<open>The waits that are under way when round \<open>k\<close> starts are over by then, too.\<close>

definition stops_due :: "nat \<Rightarrow> (nat \<Rightarrow> outside) \<Rightarrow> nat \<Rightarrow> supervisor \<Rightarrow> bool" where
  "stops_due patience ous k st \<longleftrightarrow> (\<forall>n sh start. svc (su_repo st) n = Some sh
    \<longrightarrow> sh_shutting_down_start sh = Some start
    \<longrightarrow> (\<forall>l. k + patience \<le> l \<longrightarrow> start + wait_nanos sh \<le> ou_clock (ous l) n))"

lemma stop_time_event:
  assumes "handle_event os now st e = Inr (st', out, acts)" and "svc (su_repo st') n = Some sh'"
    and "sh_shutting_down_start sh' = Some start"
  shows "start = now \<or> (\<exists>sh. svc (su_repo st) n = Some sh \<and> sh_shutting_down_start sh = Some start)"
  using assms
  by (elim handle_eventE; (elim handler_elims)?;
      auto simp: shutting_down_started_def frame_simps split: if_splits)

lemma stop_time_all:
  assumes "handle_all os st tes = Inr (st', out, acts)" and "svc (su_repo st') n = Some sh'"
    and "sh_shutting_down_start sh' = Some start"
  shows "start \<in> fst ` set tes \<or> (\<exists>sh. svc (su_repo st) n = Some sh \<and> sh_shutting_down_start sh = Some start)"
  using assms
proof (induction tes arbitrary: st out acts)
  case Nil
  then show ?case by (simp add: handle_all_Nil)
next
  case (Cons te tes)
  from Cons.prems(1) obtain st1 out1 acts1 out2 acts2
    where h: "handle_event os (fst te) st (snd te) = Inr (st1, out1, acts1)"
      and r: "handle_all os st1 tes = Inr (st', out2, acts2)" by (auto simp: handle_all_Cons)
  from Cons.IH [OF r Cons.prems(2,3)] stop_time_event [OF h, of n] show ?case by auto
qed

lemma round_times: "fst ` set (ri_received (round_input_of ou q)) \<subseteq> range (ou_times ou)"
  by (auto simp: round_input_of_def Let_def set_zip)

lemma wait_nanos_kept: "sh_service sh' = sh_service sh \<Longrightarrow> wait_nanos sh' = wait_nanos sh"
  by (simp add: wait_nanos_def)

lemma waits_end_kept: "waits_end patience ous st \<Longrightarrow> config_kept st st' \<Longrightarrow> waits_end patience ous st'"
  unfolding waits_end_def using config_kept_svc wait_nanos_kept by metis

lemma stops_due_round:
  assumes b: "bus_round os (ous k) (st, q) = Inr (st', q')" and kept: "config_kept st st'"
    and due: "stops_due patience ous k st" "waits_end patience ous st"
  shows "stops_due patience ous (Suc k) st'"
  unfolding stops_due_def
proof (intro allI impI)
  fix n sh' start l assume sh': "svc (su_repo st') n = Some sh'" "sh_shutting_down_start sh' = Some start"
    and l: "Suc k + patience \<le> l"
  let ?in = "round_input_of (ous k) q"
  from kept sh'(1) obtain sh where sh: "svc (su_repo st) n = Some sh" "sh_service sh = sh_service sh'"
    by (rule config_kept_svc)
  from b obtain out acts where h: "handle_all os (round_start ?in st) (ri_received ?in) = Inr (st', out, acts)"
    by (elim bus_roundE)
  from stop_time_all [OF h sh'] round_times [of "ous k" q] sh(1)
  have "start \<in> range (ou_times (ous k)) \<or> sh_shutting_down_start sh = Some start" by auto
  then have "start + wait_nanos sh \<le> ou_clock (ous l) n"
    using due sh(1) l by (auto simp: stops_due_def waits_end_def)
  with sh(2) show "start + wait_nanos sh' \<le> ou_clock (ous l) n" by (simp add: wait_nanos_def)
qed

section \<open>The invariant\<close>

definition graceful_inv :: "os \<Rightarrow> (nat \<Rightarrow> outside) \<Rightarrow> nat \<Rightarrow> nat \<Rightarrow> (service_name \<Rightarrow> nat) \<Rightarrow> nat \<Rightarrow> config \<Rightarrow> bool" where
  "graceful_inv os ous delay patience rank k c \<longleftrightarrow> prompt_drain os ous Gracefully delay k c
    \<and> shutdown_ranked (su_repo (fst c)) rank \<and> waits_end patience ous (fst c) \<and> stops_due patience ous k (fst c)"

lemma graceful_round:
  assumes "graceful_inv os ous delay patience rank k (st, q)" and "bus_round os (ous k) (st, q) = Inr (st', q')"
  shows "graceful_inv os ous delay patience rank (Suc k) (st', q')"
proof -
  have p: "prompt_drain os ous Gracefully delay k (st, q)" using assms(1) by (simp add: graceful_inv_def)
  from prompt_bus.round [OF p] assms(2) have kept: "config_kept st st'" by (auto simp: later_def)
  have "shutdown_ranked (su_repo st) rank" "waits_end patience ous st" "stops_due patience ous k st"
    using assms(1) by (simp_all add: graceful_inv_def)
  with shutdown_ranked_kept [OF _ kept] waits_end_kept [OF _ kept] stops_due_round [of os ous k st q st' q', OF assms(2) kept]
    prompt_drain_next [OF p assms(2)]
  show ?thesis by (simp add: graceful_inv_def)
qed

lemma unblocked_event:
  assumes "draining Gracefully st" and "shutdown_ranked (su_repo st) rank" and "svc (su_repo st) n = Some sh"
    and "sh_status sh \<notin> {InKilling, Finished, FinishedFailed}" and "\<And>d. rank d < rank n \<Longrightarrow> rank_of st d = 0"
  shows "\<exists>e es. next_evs now sh (su_repo st) (su_status st) = Inr es \<and> e \<in> set es \<and> takes_down e n (sh_status sh)"
proof -
  have "\<not> unfinished (su_repo st) d" if "rank d < rank n" for d
    using assms(5) [OF that] by (auto simp: unfinished_def rank_of_def status_of_def srank_zero)
  then have k: "is_service_killable (su_repo st) sh = Inr True"
    using assms(1,2,3) by (intro killable_of_finished) (auto simp: draining_def sup_wf_def shutdown_ranked_def)
  have s: "sh_status sh \<notin> {Starting, InKilling, Finished, FinishedFailed}"
    using assms(1,3,4) by (auto simp: draining_def settled_def)
  have "sh_name sh = n" using assms(1,3) by (auto simp: draining_def sup_wf_def repo_wf_name)
  with shutdown_request_sent [OF k s, of now Gracefully] assms(1) shutdown_request_accepted [OF s] show ?thesis
    by (fastforce simp: next_evs_def draining_def takes_down_def)
qed

section \<open>A service that is being killed\<close>

lemma graceful_ok: "graceful_inv os ous delay patience rank k c \<Longrightarrow> prompt_drain os ous Gracefully delay k c"
  by (simp add: graceful_inv_def)

lemma killing_round:
  assumes "prompt_drain os ous sd delay k (st, q)" and b: "bus_round os (ous k) (st, q) = Inr (st', q')"
    and "status_of st n = Some InKilling" and "Kill n \<notin> set (drop i q)"
  shows "rank_of st' n < srank InKilling
    \<or> status_of st' n = Some InKilling \<and> Kill n \<notin> set (drop (i - ou_delivered (ous k)) q')"
proof (cases "rank_of st' n < srank InKilling")
  case False
  let ?d = "ou_delivered (ous k)"
  from assms(1) have "drain_ok ous sd k (st, q)" by (simp add: prompt_drain_def)
  from drain_next [OF this, of os] b obtain rest evs where q': "q' = drop ?d q @ rest" and l: "later rank_of (st, q) (st', q')"
    and evs: "services_next (ou_clock (ous k)) st' = Inr evs" and kills: "Kill n \<in> set rest \<Longrightarrow> Kill n \<in> set evs"
    by (metis (no_types, lifting) Inr_inject prod.inject)
  from status_kept [OF assms(3)] l False have st': "status_of st' n = Some InKilling" by (simp add: later_def)
  from in_killing_sends_no_kill [OF prompt_drain_draining [OF prompt_drain_next [OF assms(1) b]] evs st'] kills
  have "Kill n \<notin> set rest" by blast
  moreover have "set (drop (i - ?d) (drop ?d q)) \<subseteq> set (drop i q)" by (simp add: set_drop_subset_set_drop)
  ultimately show ?thesis using st' assms(4) by (auto simp: q' dest: in_set_dropD)
qed simp

text \<open>After \<open>delay\<close> rounds the signals that were pending have been sent.\<close>

lemma kills_in_time:
  assumes "prompt_drain os ous sd delay k (st, q)" and "status_of st n = Some InKilling" and "Kill n \<notin> set (drop i q)"
    and "i \<le> (\<Sum>j<d. ou_delivered (ous (k + j)))" and "rounds os ous k d (st, q) = Inr c'"
  shows "rank_of (fst c') n < srank InKilling \<or> status_of (fst c') n = Some InKilling \<and> Kill n \<notin> set (snd c')"
  using assms
proof (induction d arbitrary: k i st q)
  case (Suc d)
  from Suc.prems(5) obtain st1 q1 where b: "bus_round os (ous k) (st, q) = Inr (st1, q1)"
    and r: "rounds os ous (Suc k) d (st1, q1) = Inr c'" by auto
  note p = prompt_drain_next [OF Suc.prems(1) b]
  show ?case
  proof (cases "rank_of st1 n < srank InKilling")
    case True
    with prompt_bus.stays_lower [OF p r, of n] show ?thesis by simp
  next
    case False
    moreover have "i - ou_delivered (ous k) \<le> (\<Sum>j<d. ou_delivered (ous (Suc k + j)))"
      using Suc.prems(4) by (simp add: sum.lessThan_Suc_shift del: sum.lessThan_Suc)
    ultimately show ?thesis using killing_round [OF Suc.prems(1) b Suc.prems(2,3)] Suc.IH [OF p _ _ _ r] by blast
  qed
qed auto

text \<open>From then on the time of the signal is settled.\<close>

definition waiting :: "service_name \<Rightarrow> instant \<Rightarrow> nat \<Rightarrow> config \<Rightarrow> bool" where
  "waiting n start nanos c \<longleftrightarrow> Kill n \<notin> set (snd c) \<and> (\<exists>sh. svc (su_repo (fst c)) n = Some sh \<and> sh_status sh = InKilling
    \<and> sh_shutting_down_start sh = Some start \<and> wait_nanos sh = nanos)"

lemma waiting_starts:
  assumes "graceful_inv os ous delay patience rank k c" and "status_of (fst c) n = Some InKilling" and "Kill n \<notin> set (snd c)"
  obtains start nanos where "waiting n start nanos c" "\<And>l. k + patience \<le> l \<Longrightarrow> start + nanos \<le> ou_clock (ous l) n"
proof -
  from assms(2) obtain sh where sh: "svc (su_repo (fst c)) n = Some sh" "sh_status sh = InKilling"
    by (auto simp: status_of_def)
  moreover from assms(1) have "stop_noted (fst c) (snd c)" by (simp add: graceful_inv_def prompt_drain_def drain_ok_def drain_inv_def)
  with sh assms(3) obtain start where "sh_shutting_down_start sh = Some start" by (auto simp: stop_noted_def)
  ultimately show thesis using assms(1,3) that [of start "wait_nanos sh"] by (auto simp: waiting_def graceful_inv_def stops_due_def)
qed

lemma waiting_round:
  assumes p: "prompt_drain os ous Gracefully delay k (st, q)" and b: "bus_round os (ous k) (st, q) = Inr (st', q')"
    and w: "waiting n start nanos (st, q)"
  shows "rank_of st' n < srank InKilling \<or> waiting n start nanos (st', q')"
proof -
  from w obtain sh where sh: "svc (su_repo st) n = Some sh" "sh_status sh = InKilling" "sh_shutting_down_start sh = Some start"
    "wait_nanos sh = nanos" and kill: "Kill n \<notin> set q" by (auto simp: waiting_def)
  then have "status_of st n = Some InKilling" by (simp add: status_of_def)
  from killing_round [OF p b this, of 0] kill have "rank_of st' n < srank InKilling
    \<or> status_of st' n = Some InKilling \<and> Kill n \<notin> set (drop (0 - ou_delivered (ous k)) q')" by simp
  then show ?thesis
  proof (elim disjE conjE)
    assume st': "status_of st' n = Some InKilling" and kill': "Kill n \<notin> set (drop (0 - ou_delivered (ous k)) q')"
    from st' obtain sh' where sh': "svc (su_repo st') n = Some sh'" "sh_status sh' = InKilling" by (auto simp: status_of_def)
    from p have "drain_inv ous Gracefully k (st, q)" by (simp add: prompt_drain_def drain_ok_def)
    from start_kept_round [OF this b kill sh(1,2) sh'] have "sh_shutting_down_start sh' = Some start" by (simp add: sh(3))
    moreover from prompt_bus.round [OF p] b have "config_kept st st'" by (auto simp: later_def)
    with sh(1,4) sh'(1) have "wait_nanos sh' = nanos" by (auto elim: config_kept_svc simp: wait_nanos_def)
    ultimately show ?thesis using sh' kill' by (auto simp: waiting_def)
  qed simp_all
qed

lemma waiting_rounds:
  assumes "prompt_drain os ous Gracefully delay k c" and "waiting n start nanos c" and "rounds os ous k m c = Inr c'"
  shows "rank_of (fst c') n < srank InKilling \<or> waiting n start nanos c'"
  using assms
proof (induction m arbitrary: k c)
  case (Suc m)
  from Suc.prems(3) obtain c1 where b: "bus_round os (ous k) c = Inr c1" and r: "rounds os ous (Suc k) m c1 = Inr c'" by auto
  have p: "prompt_drain os ous Gracefully delay (Suc k) c1"
    using prompt_drain_next [of os ous Gracefully delay k "fst c" "snd c" "fst c1" "snd c1"] Suc.prems(1) b by simp
  from waiting_round [of os ous delay k "fst c" "snd c" "fst c1" "snd c1" n start nanos] Suc.prems(1,2) b
  have "rank_of (fst c1) n < srank InKilling \<or> waiting n start nanos c1" by simp
  with Suc.IH [OF p _ r] prompt_bus.stays_lower [OF p r, of n] show ?case by auto
qed simp

lemma waiting_killed:
  assumes p: "prompt_drain os ous Gracefully delay k (st, q)" and b: "bus_round os (ous k) (st, q) = Inr (st', q')"
    and "waiting n start nanos (st', q')" and "start + nanos \<le> ou_clock (ous k) n"
  shows "\<exists>e \<in> set q'. brings_down e n (rank_of st' n)"
proof -
  from assms(3,4) obtain sh where sh: "svc (su_repo st') n = Some sh" "sh_status sh = InKilling"
    "sh_shutting_down_start sh = Some start" "start + wait_nanos sh \<le> ou_clock (ous k) n" by (auto simp: waiting_def)
  have st': "draining Gracefully st'" by (rule prompt_drain_draining [OF prompt_drain_next [OF p b]])
  with sh(1,2) have "sh_pid sh \<noteq> None" "sh_name sh = n" by (auto simp: draining_def settled_def sup_wf_def repo_wf_name)
  with sh st' wait_over [OF sh(4) [unfolded wait_nanos_def]]
  have "next_evs (ou_clock (ous k) n) sh (su_repo st') (su_status st') = Inr [ForceKill n]"
    by (simp add: next_evs_def draining_def next_events_shutting_down_def Let_def should_force_kill_def)
  from asked_is_sent [OF p b sh(1) this] sh(2) show ?thesis by (simp add: takes_down_def)
qed

lemma comes_down_rounds:
  assumes "prompt_drain os ous sd delay k c" and "rounds os ous k m c = Inr c'"
  shows "comes_down n (fst c) (fst c')"
  using assms
proof (induction m arbitrary: k c)
  case (Suc m)
  from Suc.prems(2) obtain c1 where b: "bus_round os (ous k) c = Inr c1" and r: "rounds os ous (Suc k) m c1 = Inr c'" by auto
  with prompt_drain_next [of os ous sd delay k "fst c" "snd c" "fst c1" "snd c1"] Suc.prems(1)
    prompt_drain_level [of os ous sd delay k "fst c" "snd c" "fst c1" "snd c1" n] Suc.IH [OF _ r]
  show ?case by (auto elim: comes_down_trans)
qed (simp add: comes_down_refl)

lemma graceful_rounds:
  assumes "graceful_inv os ous delay patience rank k c"
  shows "\<exists>c'. rounds os ous k m c = Inr c' \<and> graceful_inv os ous delay patience rank (k + m) c'"
  using assms
proof (induction m arbitrary: k c)
  case (Suc m)
  from prompt_bus.round [OF graceful_ok [OF Suc.prems]] obtain c1 where b: "bus_round os (ous k) c = Inr c1" by blast
  with graceful_round [of os ous delay patience rank k "fst c" "snd c" "fst c1" "snd c1"] Suc.prems
  have "graceful_inv os ous delay patience rank (Suc k) c1" by simp
  from Suc.IH [OF this] b show ?case by simp
qed simp

lemma graceful_split:
  assumes "graceful_inv os ous delay patience rank k c" and "rounds os ous k (a + b) c = Inr c2"
  obtains c1 where "rounds os ous k a c = Inr c1" "graceful_inv os ous delay patience rank (k + a) c1"
    "rounds os ous (k + a) b c1 = Inr c2"
proof -
  from prompt_bus.rounds_split [OF graceful_ok [OF assms(1)] assms(2)] obtain c1 where
    "rounds os ous k a c = Inr c1" "rounds os ous (k + a) b c1 = Inr c2" by blast
  with graceful_rounds [OF assms(1), of a] that show thesis by auto
qed

text \<open>Two delays, the wait and a round take a service out of \<open>InKilling\<close>.\<close>

lemma killing_in_time:
  assumes I: "graceful_inv os ous delay patience rank k c" and "status_of (fst c) n = Some InKilling"
    and "rounds os ous k (delay + (patience + (1 + delay))) c = Inr c'"
  shows "rank_of (fst c') n < srank InKilling"
proof -
  from graceful_split [OF I assms(3)] obtain c1 where c1: "rounds os ous k delay c = Inr c1"
    "graceful_inv os ous delay patience rank (k + delay) c1"
    "rounds os ous (k + delay) (patience + (1 + delay)) c1 = Inr c'" .
  from graceful_split [OF c1(2,3)] obtain c2 where c2: "rounds os ous (k + delay) patience c1 = Inr c2"
    "graceful_inv os ous delay patience rank (k + delay + patience) c2"
    "rounds os ous (k + delay + patience) (1 + delay) c2 = Inr c'" .
  from c2(3) obtain c3 where b: "bus_round os (ous (k + delay + patience)) c2 = Inr c3"
    and r: "rounds os ous (Suc (k + delay + patience)) delay c3 = Inr c'" by auto
  note p = graceful_ok [OF I] graceful_ok [OF c1(2)] graceful_ok [OF c2(2)]
  have p3: "prompt_drain os ous Gracefully delay (Suc (k + delay + patience)) c3"
    using prompt_drain_next [of os ous Gracefully delay _ "fst c2" "snd c2" "fst c3" "snd c3"] p(3) b by simp
  have low: "rank_of (fst c') n < srank InKilling" if "rank_of (fst c3) n < srank InKilling"
    using prompt_bus.stays_lower [OF p3 r, of n] that by simp
  have "length (snd c) \<le> (\<Sum>j<delay. ou_delivered (ous (k + j)))"
    using prompt_bus.prompt [of os ous Gracefully delay k "fst c" "snd c" n] p(1) assms(2) by (simp add: rank_of_def)
  from kills_in_time [of os ous Gracefully delay k "fst c" "snd c" n, OF _ assms(2) _ this] p(1) c1(1)
  have "rank_of (fst c1) n < srank InKilling \<or> status_of (fst c1) n = Some InKilling \<and> Kill n \<notin> set (snd c1)" by simp
  then show ?thesis
  proof (elim disjE conjE)
    assume "rank_of (fst c1) n < srank InKilling"
    with prompt_bus.stays_lower [OF p(2) c1(3), of n] show ?thesis by simp
  next
    assume "status_of (fst c1) n = Some InKilling" "Kill n \<notin> set (snd c1)"
    from waiting_starts [OF c1(2) this] obtain start nanos where w: "waiting n start nanos c1"
      and due: "\<And>l. k + delay + patience \<le> l \<Longrightarrow> start + nanos \<le> ou_clock (ous l) n" by metis
    have "rounds os ous (k + delay) (Suc patience) c1 = Inr c3" using c2(1) b by (simp add: rounds_Suc_Inr del: rounds.simps)
    from waiting_rounds [OF p(2) w this] show ?thesis
    proof (elim disjE)
      assume "waiting n start nanos c3"
      from waiting_killed [of os ous delay _ "fst c2" "snd c2" "fst c3" "snd c3", OF _ _ _ due] this p(3) b
      obtain e where "e \<in> set (snd c3)" "brings_down e n (rank_of (fst c3) n)" by auto
      from prompt_bus.pending_in_time [of os ous Gracefully delay _ "fst c3" "snd c3", OF _ this] p3 r
      have "rank_of (fst c') n < rank_of (fst c3) n" by simp
      with \<open>waiting n start nanos c3\<close> show ?thesis by (auto simp: waiting_def rank_of_def status_of_def)
    qed (rule low)
  qed
qed

section \<open>One rank after the other\<close>

text \<open>
  A service whose \<open>shutdown-after\<close> services are finished: an event that takes it down is on its way, unless it
  is being killed.
\<close>

definition freed :: "(service_name \<Rightarrow> nat) \<Rightarrow> service_name \<Rightarrow> config \<Rightarrow> bool" where
  "freed rank n c \<longleftrightarrow> (\<forall>d. rank d < rank n \<longrightarrow> rank_of (fst c) d = 0)
    \<and> (rank_of (fst c) n \<noteq> 0 \<longrightarrow> status_of (fst c) n \<noteq> Some InKilling
        \<longrightarrow> (\<exists>e \<in> set (snd c). brings_down e n (rank_of (fst c) n)))"

lemma freed_next:
  assumes I: "graceful_inv os ous delay patience rank k c" and b: "bus_round os (ous k) c = Inr c'"
    and low: "\<forall>d. rank d < rank n \<longrightarrow> rank_of (fst c') d = 0"
  shows "freed rank n c'"
proof -
  obtain st q st' q' where c: "c = (st, q)" "c' = (st', q')" by fastforce
  note r = graceful_ok [OF I [unfolded c]] b [unfolded c]
  have "\<exists>e \<in> set q'. brings_down e n (rank_of st' n)" if n: "rank_of st' n \<noteq> 0" "status_of st' n \<noteq> Some InKilling"
  proof -
    from rank_of_svc [OF n(1)] obtain sh where sh: "svc (su_repo st') n = Some sh"
      "sh_status sh \<notin> {InKilling, Finished, FinishedFailed}" using n(2) by (auto simp: status_of_def)
    have "graceful_inv os ous delay patience rank (Suc k) (st', q')" using graceful_round I b c by simp
    then have "draining Gracefully st'" "shutdown_ranked (su_repo st') rank"
      by (auto simp: graceful_inv_def dest: prompt_drain_draining)
    from unblocked_event [OF this sh, of "ou_clock (ous k) n"] low c(2) obtain e es where
      "next_evs (ou_clock (ous k) n) sh (su_repo st') (su_status st') = Inr es" "e \<in> set es" "takes_down e n (sh_status sh)"
      by auto
    from asked_is_sent [OF r sh(1) this] show ?thesis .
  qed
  with low show ?thesis by (simp add: freed_def c)
qed

lemma freed_rounds:
  assumes "graceful_inv os ous delay patience rank k c" and "freed rank n c" and "rounds os ous k m c = Inr c'"
  shows "freed rank n c'"
  using assms
proof (induction m arbitrary: k c)
  case (Suc m)
  from Suc.prems(3) obtain c1 where b: "bus_round os (ous k) c = Inr c1" and r: "rounds os ous (Suc k) m c1 = Inr c'" by auto
  have I: "graceful_inv os ous delay patience rank (Suc k) c1"
    using graceful_round [of os ous delay patience rank k "fst c" "snd c" "fst c1" "snd c1"] Suc.prems(1) b by simp
  have "rounds os ous k 1 c = Inr c1" using b by simp
  from prompt_bus.stays_lower [OF graceful_ok [OF Suc.prems(1)] this] Suc.prems(2)
  have "\<forall>d. rank d < rank n \<longrightarrow> rank_of (fst c1) d = 0" by (metis freed_def le_zero_eq)
  from Suc.IH [OF I freed_next [OF Suc.prems(1) b this] r] show ?case .
qed simp

text \<open>In a delay it comes down, unless it is being killed.\<close>

lemma freed_in_time:
  assumes I: "graceful_inv os ous delay patience rank k c" and "freed rank n c" and "rank_of (fst c) n \<noteq> 0"
    and "status_of (fst c) n \<noteq> Some InKilling" and r: "rounds os ous k delay c = Inr c'"
  shows "level_of (fst c') n < level_of (fst c) n \<and> status_of (fst c') n \<noteq> Some Initial"
proof -
  from assms(2-4) obtain e where "e \<in> set (snd c)" "brings_down e n (rank_of (fst c) n)" by (auto simp: freed_def)
  from prompt_bus.pending_in_time [of os ous Gracefully delay k "fst c" "snd c", OF _ this] graceful_ok [OF I] r
  have "rank_of (fst c') n < rank_of (fst c) n" by simp
  with comes_down_rounds [OF graceful_ok [OF I] r, of n] show ?thesis by (auto simp: comes_down_def rank_of_def)
qed

lemma level_status:
  "level_of st n = 0 \<longleftrightarrow> rank_of st n = 0"
  "rank_of st n < srank InKilling \<Longrightarrow> status_of st n \<noteq> Some Initial \<Longrightarrow> level_of st n \<le> 1"
  "level_of st n \<le> 1 \<Longrightarrow> status_of st n \<noteq> Some InKilling"
  "status_of st n = Some Initial \<Longrightarrow> level_of st n = 2"
  "status_of st n = Some InKilling \<Longrightarrow> level_of st n = 2"
  "level_of st n < 3 \<Longrightarrow> status_of st n = Some Initial \<or> status_of st n = Some InKilling \<or> level_of st n \<le> 1"
  "level_of st n \<le> 3"
  unfolding level_of_def rank_of_def
  by (cases "status_of st n"; cases "the (status_of st n)"; simp)+

lemma freed_finishes:
  assumes I: "graceful_inv os ous delay patience rank k c" and f: "freed rank n c"
    and "rounds os ous k (delay + ((delay + (patience + (1 + delay))) + delay)) c = Inr c'"
  shows "rank_of (fst c') n = 0"
proof -
  from graceful_split [OF I assms(3)] obtain c1 where c1: "rounds os ous k delay c = Inr c1"
    "graceful_inv os ous delay patience rank (k + delay) c1"
    "rounds os ous (k + delay) ((delay + (patience + (1 + delay))) + delay) c1 = Inr c'" .
  from graceful_split [OF c1(2,3)] obtain k2 c2 where
    c2: "rounds os ous (k + delay) (delay + (patience + (1 + delay))) c1 = Inr c2"
    "graceful_inv os ous delay patience rank k2 c2" "rounds os ous k2 delay c2 = Inr c'" by metis
  note down = comes_down_rounds [OF graceful_ok [OF I] c1(1), of n] comes_down_rounds [OF graceful_ok [OF c1(2)] c2(1), of n]
    comes_down_rounds [OF graceful_ok [OF c2(2)] c2(3), of n]
  have "status_of (fst c1) n = Some InKilling \<or> level_of (fst c1) n \<le> 1"
    using freed_in_time [OF I f _ _ c1(1)] down(1) level_status [of "fst c" n] level_status [of "fst c1" n]
    by (cases "rank_of (fst c) n = 0"; cases "status_of (fst c) n = Some InKilling") (auto simp: comes_down_def level_of_def)
  then have l2: "level_of (fst c2) n \<le> 1"
  proof
    assume "status_of (fst c1) n = Some InKilling"
    with killing_in_time [OF c1(2) _ c2(1), of n] down(2) level_status [of "fst c1" n] level_status [of "fst c2" n]
    show ?thesis by (auto simp: comes_down_def rank_of_def)
  qed (use down(2) in \<open>auto simp: comes_down_def level_of_def\<close>)
  have f2: "freed rank n c2" using freed_rounds [OF c1(2) freed_rounds [OF I f c1(1)] c2(1)] .
  show ?thesis
  proof (cases "rank_of (fst c2) n = 0")
    case True
    with prompt_bus.stays_lower [OF graceful_ok [OF c2(2)] c2(3), of n] show ?thesis by simp
  next
    case False
    from freed_in_time [OF c2(2) f2 False level_status(3) [OF l2] c2(3)] l2 level_status(1) [of "fst c'" n] show ?thesis by simp
  qed
qed

lemma ranks_finish:
  assumes I: "graceful_inv os ous delay patience rank k c" and "rank n < r"
    and "rounds os ous k (1 + r * (4 * delay + patience + 1)) c = Inr c'"
  shows "rank_of (fst c') n = 0"
  using assms(2,3)
proof (induction r arbitrary: n c')
  case (Suc r)
  let ?B = "4 * delay + patience + 1"
  have B: "?B = delay + ((delay + (patience + (1 + delay))) + delay)" by simp
  have "1 + Suc r * ?B = (1 + r * ?B) + ?B" by simp
  with Suc.prems(2) have "rounds os ous k ((1 + r * ?B) + ?B) c = Inr c'" by (simp only:)
  from graceful_split [OF I this] obtain c2 where c2: "rounds os ous k (1 + r * ?B) c = Inr c2"
    "graceful_inv os ous delay patience rank (k + (1 + r * ?B)) c2" "rounds os ous (k + (1 + r * ?B)) ?B c2 = Inr c'" .
  show ?case
  proof (cases "rank n < r")
    case True
    from Suc.IH [OF this c2(1)] prompt_bus.stays_lower [OF graceful_ok [OF c2(2)] c2(3), of n] show ?thesis by simp
  next
    case False
    with Suc.prems(1) Suc.IH [OF _ c2(1)] have low: "\<forall>d. rank d < rank n \<longrightarrow> rank_of (fst c2) d = 0" by simp
    from c2(1) obtain c1 where c1: "rounds os ous k (r * ?B) c = Inr c1" "bus_round os (ous (k + r * ?B)) c1 = Inr c2"
      using rounds_Suc_Inr [of os ous k "r * ?B" c c2] by (auto simp del: rounds.simps)
    from graceful_rounds [OF I, of "r * ?B"] c1(1) have "graceful_inv os ous delay patience rank (k + r * ?B) c1" by auto
    from freed_finishes [OF c2(2) freed_next [OF this c1(2) low]] c2(3) show ?thesis by (simp only: B)
  qed
qed simp

section \<open>Properties\<close>


text \<open>
  Two running services, the second stopped after the first, whose processes ignore their signals; ten seconds
  pass in each round.
\<close>

definition ex_slow_outside :: "nat \<Rightarrow> outside" where
  "ex_slow_outside k = (ex_outside k)\<lparr>ou_times := (\<lambda>_. k * 10 * nanos_per_sec), ou_clock := (\<lambda>_. k * 10 * nanos_per_sec)\<rparr>"

definition ex_chained :: supervisor where
  "ex_chained = ex_sup (ShuttingDown Gracefully)
     [ex_handler (ex_service ''a'') Running (Some 7), ex_handler (ex_shutdown_after ''b'' [''a'']) Running (Some 8)]"

lemma ex_chained_rounds:
  "list_all (delivered_at_once ex_os ex_slow_outside (ex_chained, [])) [0..<9]" "ends_by ex_os ex_slow_outside (ex_chained, []) 9"
  by code_simp+

lemma ex_chained_svc: "svc (su_repo ex_chained) n = Some sh \<longleftrightarrow>
    n = ''a'' \<and> sh = ex_handler (ex_service ''a'') Running (Some 7)
    \<or> n = ''b'' \<and> sh = ex_handler (ex_shutdown_after ''b'' [''a'']) Running (Some 8)"
  by (auto simp: ex_chained_def svc_ex_sup)

lemma ex_chained_draining:
  "draining Gracefully ex_chained" "drainable Gracefully ex_chained []" "stop_noted ex_chained []"
proof -
  have wf: "sup_wf ex_chained" unfolding ex_chained_def by (rule ex_two_sup_wf) simp_all
  have "pids_agree (su_repo ex_chained)"
    by (auto simp: pids_agree_def get_service_by_pid_def ex_chained_def ex_sup_def svc_def hm_get_def List.map_filter_def)
  with wf show "draining Gracefully ex_chained"
    by (auto simp: draining_def settled_def ex_chained_svc) (simp_all add: ex_chained_def)
qed (auto simp: drainable_def stop_noted_def ex_chained_svc)

lemma ex_slow_env:
  "shutdown_env sd st ex_slow_outside" "exits_fresh ex_slow_outside k c" "waits_end 0 ex_slow_outside ex_chained"
  "stops_due 0 ex_slow_outside 0 ex_chained"
proof -
  show "waits_end 0 ex_slow_outside ex_chained"
    by (auto simp: waits_end_def ex_chained_svc ex_slow_outside_def wait_nanos_def ex_shutdown_after_def default_termination_def
        default_wait_def as_secs_def from_secs_def nanos_per_sec_def)
qed (auto simp: shutdown_env_def reaped_once_def delivers_def calm_def exits_fresh_def stops_due_def ex_chained_svc
    ex_slow_outside_def ex_outside_def reports_def)


end
