(* ===== verification/Horust_End.thy ===== *)
theory Horust_End
  imports Loop_Safe "HOL-Library.Code_Target_Nat"
begin

text \<open>
  The end of \<open>Horust::run\<close>: it returns when the bus has ended, and the bus ends when every connector is
  gone (\<open>bus_ends_last\<close>). The supervisor announces its end on the bus; here the other two threads, which
  end at that announcement.
\<close>

section \<open>Turns in sequence\<close>

fun system_turns :: "os \<Rightarrow> service list \<Rightarrow> turn list \<Rightarrow> system \<Rightarrow> system res" where
  "system_turns os services [] sy = Inr sy"
| "system_turns os services (t # ts) sy = res_bind (system_turn os services t sy) (system_turns os services ts)"

text \<open>How many events the two threads may take.\<close>

fun commands_reads :: "turn \<Rightarrow> nat" where
  "commands_reads (CommandsTurn d) = d"
| "commands_reads _ = 0"

fun manager_reads :: "turn \<Rightarrow> nat" where
  "manager_reads ManagerTurn = 1"
| "manager_reads _ = 0"

section \<open>A thread that has read the announcement has ended\<close>

definition observers_inv :: "system \<Rightarrow> bool" where
  "observers_inv sy \<longleftrightarrow>
    (cm_done (sy_cmd sy) \<longleftrightarrow> \<not> cm_socket_file (sy_cmd sy))
    \<and> (cm_done (sy_cmd sy) \<or> no_shutdown (take (sy_cmd_pos sy) (sy_log sy)))
    \<and> (if mg_done (sy_mgr sy) then mg_workers (sy_mgr sy) = hm_empty else no_shutdown (take (sy_mgr_pos sy) (sy_log sy)))
    \<and> sy_cmd_pos sy \<le> length (sy_log sy) \<and> sy_mgr_pos sy \<le> length (sy_log sy)"

lemma commands_events_done:
  "commands_events h evs = Inr h' \<Longrightarrow> \<not> cm_done h \<Longrightarrow> cm_socket_file h \<Longrightarrow>
    (cm_done h' \<longleftrightarrow> \<not> no_shutdown evs) \<and> (cm_socket_file h' \<longleftrightarrow> no_shutdown evs)"
  by (induction h evs rule: commands_events.induct)
    (auto simp: no_shutdown_def split: option.splits if_splits)

lemma manager_step_ends:
  "manager_step services m ev = Inr (m', sent, acts) \<Longrightarrow> \<not> mg_done m \<Longrightarrow>
    (mg_done m' \<longleftrightarrow> \<not> no_shutdown [ev]) \<and> (mg_done m' \<longrightarrow> mg_workers m' = hm_empty)"
  by (cases "(services, m, ev)" rule: manager_step.cases) (auto simp: no_shutdown_def split: if_splits)

lemma observers_inv_grow:
  assumes "observers_inv sy" and "sy_cmd sy' = sy_cmd sy" and "sy_cmd_pos sy' = sy_cmd_pos sy"
    and "sy_mgr sy' = sy_mgr sy" and "sy_mgr_pos sy' = sy_mgr_pos sy" and "sy_log sy' = sy_log sy @ evs"
  shows "observers_inv sy'"
  using assms by (auto simp: observers_inv_def split: if_splits)

lemma observers_turn:
  assumes "system_turn os services t sy = Inr sy'" and "observers_inv sy"
  shows "observers_inv sy' \<and> (\<exists>evs. sy_log sy' = sy_log sy @ evs)
    \<and> (cm_done (sy_cmd sy) \<longrightarrow> cm_done (sy_cmd sy')) \<and> (mg_done (sy_mgr sy) \<longrightarrow> mg_done (sy_mgr sy'))
    \<and> (cm_done (sy_cmd sy') \<or> min (length (sy_log sy)) (sy_cmd_pos sy + commands_reads t) \<le> sy_cmd_pos sy')
    \<and> (mg_done (sy_mgr sy') \<or> min (length (sy_log sy)) (sy_mgr_pos sy + manager_reads t) \<le> sy_mgr_pos sy')"
proof (cases t)
  case (SupervisorTurn ou)
  with assms(1) have "supervisor_turn os ou sy = Inr sy'" by simp
  from supervisor_turn_Inr [OF this] obtain evs where
    e: "sy_log sy' = sy_log sy @ evs" "sy_cmd sy' = sy_cmd sy" "sy_cmd_pos sy' = sy_cmd_pos sy"
      "sy_mgr sy' = sy_mgr sy" "sy_mgr_pos sy' = sy_mgr_pos sy" by metis
  from observers_inv_grow [OF assms(2) e(2-5,1)] e SupervisorTurn show ?thesis by auto
next
  case (ThreadSends ev)
  with assms(1) have e: "sy_log sy' = sy_log sy @ [ev]" "sy_cmd sy' = sy_cmd sy" "sy_cmd_pos sy' = sy_cmd_pos sy"
    "sy_mgr sy' = sy_mgr sy" "sy_mgr_pos sy' = sy_mgr_pos sy" by auto
  from observers_inv_grow [OF assms(2) e(2-5,1)] e ThreadSends show ?thesis by auto
next
  case (CommandsTurn d)
  show ?thesis
  proof (cases "cm_done (sy_cmd sy)")
    case True
    with CommandsTurn assms show ?thesis by (auto simp: commands_turn_def)
  next
    case False
    let ?pos = "min (sy_cmd_pos sy + d) (length (sy_log sy))"
    from False CommandsTurn assms(1) obtain h where
      h: "commands_events (sy_cmd sy) (take d (drop (sy_cmd_pos sy) (sy_log sy))) = Inr h"
        "sy' = sy\<lparr>sy_cmd := h, sy_cmd_pos := ?pos\<rparr>" by (auto simp: commands_turn_def)
    have "take ?pos (sy_log sy) = take (sy_cmd_pos sy) (sy_log sy) @ take d (drop (sy_cmd_pos sy) (sy_log sy))"
      by (metis min.commute take_add take_all_iff take_take nle_le)
    with commands_events_done [OF h(1) False] False assms(2) h(2) CommandsTurn show ?thesis
      by (auto simp: observers_inv_def)
  qed
next
  case ManagerTurn
  show ?thesis
  proof (cases "mg_done (sy_mgr sy) \<or> sy_mgr_pos sy = length (sy_log sy)")
    case True
    with ManagerTurn assms show ?thesis by (auto simp: manager_turn_def split: list.splits)
  next
    case False
    with assms(2) have less: "sy_mgr_pos sy < length (sy_log sy)" by (simp add: observers_inv_def)
    then have d: "drop (sy_mgr_pos sy) (sy_log sy) = sy_log sy ! sy_mgr_pos sy # drop (Suc (sy_mgr_pos sy)) (sy_log sy)"
      by (simp add: Cons_nth_drop_Suc)
    from False ManagerTurn assms(1) d obtain m sent acts where
      m: "manager_step services (sy_mgr sy) (sy_log sy ! sy_mgr_pos sy) = Inr (m, sent, acts)"
        "sy' = sy\<lparr>sy_mgr := m, sy_mgr_pos := Suc (sy_mgr_pos sy), sy_log := sy_log sy @ sent\<rparr>"
      by (auto simp: manager_turn_def)
    from manager_step_ends [OF m(1)] False assms(2) m(2) ManagerTurn less show ?thesis
      by (auto simp: observers_inv_def take_Suc_conv_app_nth)
  qed
qed

lemma observers_turns:
  assumes "system_turns os services ts sy = Inr sy'" and "observers_inv sy"
  shows "observers_inv sy' \<and> (\<exists>evs. sy_log sy' = sy_log sy @ evs)
    \<and> (cm_done (sy_cmd sy) \<longrightarrow> cm_done (sy_cmd sy')) \<and> (mg_done (sy_mgr sy) \<longrightarrow> mg_done (sy_mgr sy'))
    \<and> (cm_done (sy_cmd sy') \<or> min (length (sy_log sy)) (sy_cmd_pos sy + sum_list (map commands_reads ts)) \<le> sy_cmd_pos sy')
    \<and> (mg_done (sy_mgr sy') \<or> min (length (sy_log sy)) (sy_mgr_pos sy + sum_list (map manager_reads ts)) \<le> sy_mgr_pos sy')"
  using assms
proof (induction ts arbitrary: sy)
  case (Cons t ts)
  from Cons.prems(1) obtain sy1 where t: "system_turn os services t sy = Inr sy1"
    and ts: "system_turns os services ts sy1 = Inr sy'" by auto
  from observers_turn [OF t Cons.prems(2)] Cons.IH [OF ts] show ?case by fastforce
qed simp

lemma observers_inv_reached: "system_reaches os w services sy \<Longrightarrow> observers_inv sy"
proof (induction rule: system_reaches.induct)
  case start
  then show ?case
    by (simp add: observers_inv_def system_start_def commands_handler_new_def manager_init_def no_shutdown_def)
next
  case (turn sy t sy')
  with observers_turn [OF turn(3)] show ?case by blast
qed

section \<open>Properties\<close>


definition ex_signalled :: outside where
  "ex_signalled = (ex_outside 0)\<lparr>ou_signal := True\<rparr>"

definition ex_last_turns :: "turn list" where
  "ex_last_turns = CommandsTurn 4 # replicate 4 ManagerTurn"

lemma ex_signalled_turns:
  "case system_turn ex_os [ex_service ''a''] (SupervisorTurn ex_signalled) (system_start ex_world [ex_service ''a'']) of
     Inl _ \<Rightarrow> False
   | Inr sy \<Rightarrow> sy_log sy = [ShuttingDownInitiated Gracefully, Run ''a'']
       \<and> \<not> isl (system_turns ex_os [ex_service ''a''] ex_last_turns sy)"
  by code_simp


text \<open>
  A shutdown does not stop a start that is on its way: when \<open>SIGTERM\<close> arrives in the round in which a
  service becomes runnable, the shutdown is announced before the \<open>Run\<close> of the same round, and the
  service is started after it. Its spawner joins the bus only then and never hears of the shutdown,
  which waits for the whole \<open>start-delay\<close>.
\<close>

lemma started_after_shutdown:
  "case system_turns ex_os [ex_service ''a''] [SupervisorTurn ex_signalled, SupervisorTurn (ex_outside 1)]
       (system_start ex_world [ex_service ''a'']) of
     Inl _ \<Rightarrow> False
   | Inr sy \<Rightarrow> su_status (sy_sup sy) = ShuttingDown Gracefully
       \<and> map_option sh_status (svc (su_repo (sy_sup sy)) ''a'') = Some Starting"
  by code_simp

end
