(* ===== verification/Bus.thy ===== *)
theory Bus
  imports Prelude
begin

text \<open>
  \<open>bus.rs\<close>: one input channel shared by all publishers, one output channel per connector. The channels
  are those of the \<open>crossbeam\<close> crate, which is not part of this program: their operations are the
  arguments \<open>new\<close>, \<open>send\<close>, \<open>recv\<close> and \<open>drain\<close> of the definitions, and what the bus relies on, a queue in
  order that loses nothing, is the locale \<open>fifo_channel\<close>. The bus thread's loop is taken apart into
  single dispatches, so that the other threads' operations come between them in any order.
\<close>

section \<open>The interface of a channel\<close>

locale fifo_channel =
  fixes new :: "'q"
    and send :: "'a \<Rightarrow> 'q \<Rightarrow> 'q"
    and recv :: "'q \<Rightarrow> ('a \<times> 'q) option"
    and drain :: "'q \<Rightarrow> 'a list \<times> 'q"
    and items :: "'q \<Rightarrow> 'a list"
  assumes items_new: "items new = []"
    and items_send: "items (send a q) = items q @ [a]"
    and recv_empty: "recv q = None \<longleftrightarrow> items q = []"
    and recv_front: "recv q = Some (a, q') \<Longrightarrow> items q = a # items q'"
    and drain_all: "drain q = (as, q') \<Longrightarrow> as = items q \<and> items q' = []"

section \<open>State and operations\<close>

text \<open>
  A connector is known by a number; \<open>bs_senders\<close> is the shared vector of output senders with their
  queues, \<open>bs_dropped\<close> the connectors whose receiver is gone.
\<close>

record 'q bus =
  bs_input :: "'q"
  bs_senders :: "(nat \<times> 'q) list"
  bs_next :: nat
  bs_dropped :: "nat list"

definition bus_new :: "'q \<Rightarrow> 'q bus" where
  "bus_new new = \<lparr>bs_input = new, bs_senders = [], bs_next = 0, bs_dropped = []\<rparr>"

definition join_bus :: "'q \<Rightarrow> 'q bus \<Rightarrow> 'q bus" where
  "join_bus new b =
    b\<lparr>bs_senders := bs_senders b @ [(bs_next b, new)], bs_next := Suc (bs_next b)\<rparr>"

definition send_event :: "('a \<Rightarrow> 'q \<Rightarrow> 'q) \<Rightarrow> 'a \<Rightarrow> 'q bus \<Rightarrow> 'q bus" where
  "send_event send ev b = b\<lparr>bs_input := send ev (bs_input b)\<rparr>"

text \<open>One turn of the dispatching loop; \<open>retain\<close> forgets the senders whose receiver is gone.\<close>

definition dispatch_one ::
  "('a \<Rightarrow> 'q \<Rightarrow> 'q) \<Rightarrow> ('q \<Rightarrow> ('a \<times> 'q) option) \<Rightarrow> 'q bus \<Rightarrow> 'q bus" where
  "dispatch_one send recv b =
    (case recv (bs_input b) of
      None \<Rightarrow> b
    | Some (ev, rest) \<Rightarrow>
        b\<lparr>bs_input := rest,
          bs_senders := map (\<lambda>(i, q). (i, send ev q))
            (filter (\<lambda>(i, q). i \<notin> set (bs_dropped b)) (bs_senders b))\<rparr>)"

definition try_get_events :: "('q \<Rightarrow> 'a list \<times> 'q) \<Rightarrow> nat \<Rightarrow> 'q bus \<Rightarrow> 'a list \<times> 'q bus" where
  "try_get_events drain i b =
    (case map_of (bs_senders b) i of
      None \<Rightarrow> ([], b)
    | Some q \<Rightarrow>
        (let (evs, q') = drain q
         in (evs, b\<lparr>bs_senders := map (\<lambda>(j, r). (j, if j = i then q' else r)) (bs_senders b)\<rparr>)))"

definition drop_connector :: "nat \<Rightarrow> 'q bus \<Rightarrow> 'q bus" where
  "drop_connector i b = b\<lparr>bs_dropped := i # bs_dropped b\<rparr>"

text \<open>An operation of some thread, and what it received, for which connector.\<close>

datatype 'a bus_op = Join | Send 'a | Dispatch | Get nat | Drop nat

fun bus_step ::
  "'q \<Rightarrow> ('a \<Rightarrow> 'q \<Rightarrow> 'q) \<Rightarrow> ('q \<Rightarrow> ('a \<times> 'q) option) \<Rightarrow> ('q \<Rightarrow> 'a list \<times> 'q)
    \<Rightarrow> 'a bus_op \<Rightarrow> 'q bus \<Rightarrow> (nat \<times> 'a) list \<times> 'q bus" where
  "bus_step new send recv drain Join b = ([], join_bus new b)"
| "bus_step new send recv drain (Send ev) b = ([], send_event send ev b)"
| "bus_step new send recv drain Dispatch b = ([], dispatch_one send recv b)"
| "bus_step new send recv drain (Get i) b =
    (let (evs, b') = try_get_events drain i b in (map (\<lambda>ev. (i, ev)) evs, b'))"
| "bus_step new send recv drain (Drop i) b = ([], drop_connector i b)"

fun bus_run ::
  "'q \<Rightarrow> ('a \<Rightarrow> 'q \<Rightarrow> 'q) \<Rightarrow> ('q \<Rightarrow> ('a \<times> 'q) option) \<Rightarrow> ('q \<Rightarrow> 'a list \<times> 'q)
    \<Rightarrow> 'a bus_op list \<Rightarrow> 'q bus \<Rightarrow> (nat \<times> 'a) list \<times> 'q bus" where
  "bus_run new send recv drain [] b = ([], b)"
| "bus_run new send recv drain (op # ops) b =
    (let (got, b1) = bus_step new send recv drain op b;
         (gots, b2) = bus_run new send recv drain ops b1
     in (got @ gots, b2))"

section \<open>Lemmas\<close>

definition bus_wf :: "'q bus \<Rightarrow> bool" where
  "bus_wf b \<longleftrightarrow> distinct (map fst (bs_senders b)) \<and> (\<forall>i \<in> fst ` set (bs_senders b). i < bs_next b)"

definition connected :: "nat \<Rightarrow> 'q bus \<Rightarrow> bool" where
  "connected i b \<longleftrightarrow> i \<in> fst ` set (bs_senders b) \<and> i \<notin> set (bs_dropped b)"

fun sent_events :: "'a bus_op list \<Rightarrow> 'a list" where
  "sent_events [] = []"
| "sent_events (Send ev # ops) = ev # sent_events ops"
| "sent_events (_ # ops) = sent_events ops"

definition received_by :: "nat \<Rightarrow> (nat \<times> 'a) list \<Rightarrow> 'a list" where
  "received_by i got = map snd (filter (\<lambda>(j, _). j = i) got)"

text \<open>What is on its way to connector \<open>i\<close>: its own queue, then the input of the bus.\<close>

definition in_flight :: "('q \<Rightarrow> 'a list) \<Rightarrow> nat \<Rightarrow> 'q bus \<Rightarrow> 'a list" where
  "in_flight items i b =
    (case map_of (bs_senders b) i of None \<Rightarrow> [] | Some q \<Rightarrow> items q) @ items (bs_input b)"

lemma received_by_append: "received_by i (got @ gots) = received_by i got @ received_by i gots"
  by (simp add: received_by_def)

lemma received_by_map: "received_by i (map (\<lambda>ev. (j, ev)) evs) = (if i = j then evs else [])"
  by (induction evs) (auto simp: received_by_def)

lemma map_of_map_snd: "map_of (map (\<lambda>(j, r). (j, f j r)) xs) i = map_option (f i) (map_of xs i)"
  by (induction xs) auto

lemma map_of_filter_fst: "P i \<Longrightarrow> map_of (filter (\<lambda>(j, r). P j) xs) i = map_of xs i"
  by (induction xs) auto

lemma fst_filter_sub: "fst ` set (filter P xs) \<subseteq> fst ` set xs"
  by auto

lemma bus_step_wf:
  assumes "bus_wf b"
  shows "bus_wf (snd (bus_step new send recv drain op b))"
proof (cases op)
  case Join
  with assms show ?thesis by (auto simp: bus_wf_def join_bus_def)
next
  case Dispatch
  have keys: "fst \<circ> (\<lambda>(i, q). (i, send ev q)) = fst" for ev by auto
  show ?thesis
    using assms Dispatch
    by (auto simp: bus_wf_def dispatch_one_def keys distinct_map_filter split: option.split)
next
  case (Get i)
  have keys: "fst \<circ> (\<lambda>p. (fst p, f p)) = fst" for f :: "nat \<times> 'a \<Rightarrow> 'a" by auto
  show ?thesis
    using assms Get
    by (auto simp: bus_wf_def try_get_events_def Let_def case_prod_unfold keys split: option.split)
qed (use assms in \<open>auto simp: bus_wf_def send_event_def drop_connector_def\<close>)

lemma bus_step_connected:
  "connected i b \<Longrightarrow> op \<noteq> Drop i \<Longrightarrow> connected i (snd (bus_step new send recv drain op b))"
  by (cases op)
    (auto simp: connected_def join_bus_def send_event_def dispatch_one_def try_get_events_def
      drop_connector_def Let_def case_prod_unfold image_iff split: option.split; force)+

context fifo_channel
begin

text \<open>One operation moves events towards connector \<open>i\<close> and loses none.\<close>

lemma step_delivers:
  assumes "bus_wf b" and "connected i b" and "op \<noteq> Drop i"
  shows "received_by i (fst (bus_step new send recv drain op b))
      @ in_flight items i (snd (bus_step new send recv drain op b))
    = in_flight items i b @ sent_events [op]"
proof -
  from assms(2) obtain q where q: "map_of (bs_senders b) i = Some q" and up: "i \<notin> set (bs_dropped b)"
    unfolding connected_def by (metis map_of_eq_None_iff not_None_eq)
  show ?thesis
  proof (cases op)
    case Join
    with q show ?thesis
      by (simp add: join_bus_def in_flight_def received_by_def map_add_def)
  next
    case (Send a)
    with q show ?thesis
      by (simp add: send_event_def in_flight_def received_by_def items_send)
  next
    case Dispatch
    show ?thesis
    proof (cases "recv (bs_input b)")
      case None
      with Dispatch show ?thesis by (simp add: dispatch_one_def received_by_def)
    next
      case (Some r)
      then obtain ev rest where r: "recv (bs_input b) = Some (ev, rest)" by (cases r) auto
      have "map_of (map (\<lambda>(j, r). (j, send ev r))
          (filter (\<lambda>(j, r). j \<notin> set (bs_dropped b)) (bs_senders b))) i = Some (send ev q)"
        using q up by (simp add: map_of_map_snd [of "\<lambda>_ r. send ev r"] map_of_filter_fst)
      with Dispatch r q recv_front [OF r] show ?thesis
        by (simp add: dispatch_one_def in_flight_def received_by_def items_send)
    qed
  next
    case (Get j)
    show ?thesis
    proof (cases "map_of (bs_senders b) j")
      case None
      with Get show ?thesis by (simp add: try_get_events_def received_by_def)
    next
      case (Some r)
      obtain evs q' where d: "drain r = (evs, q')" by fastforce
      with Get Some q drain_all [OF d] show ?thesis
        by (auto simp: try_get_events_def in_flight_def received_by_map
            map_of_map_snd [of "\<lambda>k r. if k = j then q' else r"])
    qed
  next
    case (Drop j)
    with q show ?thesis
      by (simp add: drop_connector_def in_flight_def received_by_def)
  qed
qed

lemma run_delivers:
  assumes "bus_wf b" and "connected i b" and "Drop i \<notin> set ops"
  shows "received_by i (fst (bus_run new send recv drain ops b))
      @ in_flight items i (snd (bus_run new send recv drain ops b))
    = in_flight items i b @ sent_events ops"
  using assms
proof (induction ops arbitrary: b)
  case Nil
  then show ?case by (simp add: received_by_def)
next
  case (Cons op ops)
  obtain got b1 where s: "bus_step new send recv drain op b = (got, b1)" by fastforce
  obtain gots b2 where r: "bus_run new send recv drain ops b1 = (gots, b2)" by fastforce
  have "received_by i gots @ in_flight items i b2 = in_flight items i b1 @ sent_events ops"
    using Cons.IH [of b1] Cons.prems bus_step_wf [of b] bus_step_connected [of i b op] s r
    by (metis fst_conv snd_conv list.set_intros(1,2))
  moreover have "received_by i got @ in_flight items i b1 = in_flight items i b @ sent_events [op]"
    using step_delivers [OF Cons.prems(1,2), of op] Cons.prems(3) s by auto
  moreover have "sent_events (op # ops) = sent_events [op] @ sent_events ops"
    by (cases op) auto
  ultimately show ?case
    by (simp add: s r received_by_append)
qed

end

section \<open>Lists as channels\<close>

text \<open>An unbounded channel whose queue is a list, on which the laws hold.\<close>

definition list_send :: "'a \<Rightarrow> 'a list \<Rightarrow> 'a list" where
  "list_send a q = q @ [a]"

definition list_recv :: "'a list \<Rightarrow> ('a \<times> 'a list) option" where
  "list_recv q = (case q of [] \<Rightarrow> None | a # q' \<Rightarrow> Some (a, q'))"

definition list_drain :: "'a list \<Rightarrow> 'a list \<times> 'a list" where
  "list_drain q = (q, [])"

interpretation list_channel: fifo_channel "[]" list_send list_recv list_drain "\<lambda>q. q"
  by unfold_locales (auto simp: list_send_def list_recv_def list_drain_def split: list.splits)

section \<open>Properties\<close>

text \<open>
  C31. Delivery: whatever the threads do, in any order, a connector that stays connected receives every
  event sent from then on, once and in the order they were sent, after those already on their way. So
  what two connectors have received, with what is in flight to each, is the same sequence.
\<close>

theorem bus_delivers:
  assumes "fifo_channel new send recv drain items"
    and "bus_wf b" and "connected i b" and "Drop i \<notin> set ops"
  shows "received_by i (fst (bus_run new send recv drain ops b))
      @ in_flight items i (snd (bus_run new send recv drain ops b))
    = in_flight items i b @ sent_events ops"
  by (rule fifo_channel.run_delivers [OF assms])

theorem bus_delivers_witness:
  "received_by 0 (fst (bus_run [] list_send list_recv list_drain
      [Send 1, Dispatch, Join, Send 2, Get 0, Dispatch, Get 0 :: nat bus_op] (join_bus [] (bus_new []))))
    = [1, 2 :: nat]"
proof -
  have "bus_wf (join_bus [] (bus_new ([] :: nat list)))" and "connected 0 (join_bus [] (bus_new ([] :: nat list)))"
    by (simp_all add: bus_wf_def connected_def join_bus_def bus_new_def)
  from bus_delivers [OF list_channel.fifo_channel_axioms this,
      of "[Send 1, Dispatch, Join, Send 2, Get 0, Dispatch, Get 0]"]
  show ?thesis
    by (simp add: join_bus_def bus_new_def in_flight_def send_event_def dispatch_one_def
        try_get_events_def list_send_def list_recv_def list_drain_def)
qed

end
