(* ===== verification/Signal_Safe.thy ===== *)
theory Signal_Safe
  imports Decimal
begin

text \<open>
  \<open>signal_safe.rs\<close>: what a forked child may call before \<open>exec\<close>. The integer printer works in a fixed
  buffer of eleven bytes filled from the right; the reference is the decimal rendering of theory
  \<open>Decimal\<close>. Printing goes through \<open>stderr()\<close>, which makes an owner of descriptor 2 for each call.
\<close>

section \<open>Printing an integer\<close>

type_synonym u8 = "8 word"

definition i32_str_len :: nat where
  "i32_str_len = 11"

definition base_ascii :: u8 where
  "base_ascii = 48"

definition minus_sign :: u8 where
  "minus_sign = 45"

text \<open>
  \<open>ret[I32_STR_LEN - 1 - digits] = b\<close>: with more than ten digits the subtraction leaves the buffer,
  a panic either way.
\<close>

definition put_digit :: "u8 list \<Rightarrow> nat \<Rightarrow> u8 \<Rightarrow> u8 list res" where
  "put_digit ret digits b =
    (if digits < i32_str_len then Inr (ret[i32_str_len - 1 - digits := b]) else Inl IndexOutOfBounds)"

text \<open>The loop over the digits; \<open>num\<close> is not negative here and fits an \<open>i64\<close>.\<close>

function digits_loop :: "nat \<Rightarrow> u8 list \<Rightarrow> nat \<Rightarrow> (u8 list \<times> nat) res" where
  "digits_loop num ret digits =
    (if num = 0 then Inr (ret, digits)
     else
       let n = word_of_nat (num mod 10) :: u8
       in res_bind (put_digit ret digits (n + base_ascii))
            (\<lambda>ret'. digits_loop ((num - unat n) div 10) ret' (digits + 1)))"
  by pat_completeness auto
termination
  by (relation "measure (\<lambda>(num, _, _). num)") (auto intro: le_less_trans [OF div_le_mono div_less_dividend])

declare digits_loop.simps [simp del]

definition i32_to_str_bytes :: "i32 \<Rightarrow> (u8 list \<times> nat) res" where
  "i32_to_str_bytes num32 =
    (let num = sint num32;
         ret = replicate i32_str_len 0;
         is_negative = num < 0;
         num = nat (if is_negative then num * (- 1) else num)
     in res_bind
          (if num = 0 then res_map (\<lambda>ret'. (ret', 1)) (put_digit ret 0 base_ascii) else Inr (ret, 0))
          (\<lambda>(ret, digits).
        res_bind (digits_loop num ret digits) (\<lambda>(ret, digits).
        res_map (\<lambda>(ret, digits). (ret, i32_str_len - digits))
          (if is_negative then res_map (\<lambda>ret'. (ret', digits + 1)) (put_digit ret digits minus_sign)
           else Inr (ret, digits)))))"

section \<open>Printing to standard error\<close>

text \<open>
  \<open>stderr()\<close> is an \<open>OwnedFd\<close> of descriptor 2, dropped after the \<open>write\<close> it is made for: the drop
  closes the descriptor. A write to a closed descriptor fails, and the result is ignored. A write to
  an open one is taken to write everything.
\<close>

record child_stderr =
  ce_open :: bool
  ce_written :: string

definition write_stderr :: "string \<Rightarrow> child_stderr \<Rightarrow> child_stderr" where
  "write_stderr s st =
    (let st1 = (if ce_open st then st\<lparr>ce_written := ce_written st @ s\<rparr> else st)
     in st1\<lparr>ce_open := False\<rparr>)"

definition eprint_ssafe :: "string \<Rightarrow> child_stderr \<Rightarrow> child_stderr" where
  "eprint_ssafe s st = write_stderr s st"

definition byte_char :: "u8 \<Rightarrow> char" where
  "byte_char b = char_of (unat b)"

definition eprint_ssafe_errno :: "i32 \<Rightarrow> string \<Rightarrow> child_stderr \<Rightarrow> child_stderr res" where
  "eprint_ssafe_errno errno desc st =
    (let st1 = eprint_ssafe ''Errno: ('' (eprint_ssafe [CHR 10] st)
     in res_map (\<lambda>(bytes, digits).
          eprint_ssafe [CHR 10]
            (eprint_ssafe desc
              (eprint_ssafe '') '' (write_stderr (map byte_char (drop digits bytes)) st1))))
        (i32_to_str_bytes errno))"

text \<open>The end of a process: what it printed and its exit status.\<close>

definition panic_ssafe ::
  "string \<Rightarrow> string option \<Rightarrow> i32 \<Rightarrow> string \<Rightarrow> int \<Rightarrow> child_stderr \<Rightarrow> (child_stderr \<times> int) res" where
  "panic_ssafe message service errno desc status st =
    (let st1 = (case service of
         Some serv_name \<Rightarrow> eprint_ssafe '': '' (eprint_ssafe serv_name st)
       | None \<Rightarrow> st)
     in res_map (\<lambda>st2. (st2, status)) (eprint_ssafe_errno errno desc (eprint_ssafe message st1)))"

section \<open>Lemmas\<close>

definition bytes_of :: "string \<Rightarrow> u8 list" where
  "bytes_of s = map (\<lambda>c. word_of_nat (of_char c)) s"

lemma bytes_of_append: "bytes_of (s @ t) = bytes_of s @ bytes_of t"
  by (simp add: bytes_of_def)

lemma digit_byte: "d < 10 \<Longrightarrow> (word_of_nat d + base_ascii :: u8) = word_of_nat (of_char (digit_char d))"
proof -
  assume "d < 10"
  then have "d \<in> {0, 1, 2, 3, 4, 5, 6, 7, 8, 9}" by auto
  then show ?thesis by (auto simp: base_ascii_def digit_char_def)
qed

lemma drop_update: "k < length xs \<Longrightarrow> drop k (xs[k := b]) = b # drop (Suc k) xs"
  by (subst Cons_nth_drop_Suc [symmetric]) simp_all

lemma put_digit_ok:
  assumes "digits < 11" and "length ret = 11"
  shows "\<exists>ret'. put_digit ret digits b = Inr ret' \<and> length ret' = 11
    \<and> drop (11 - Suc digits) ret' = b # drop (11 - digits) ret"
proof -
  have "Suc (10 - digits) = 11 - digits" using assms by simp
  with assms drop_update [of "10 - digits" ret b] show ?thesis
    by (simp add: put_digit_def i32_str_len_def Suc_diff_le)
qed

lemma digits_loop_ok:
  assumes "length ret = 11" and "digits + length (show_nat num) \<le> 11" and "0 < num"
  shows "\<exists>ret'. digits_loop num ret digits = Inr (ret', digits + length (show_nat num))
    \<and> length ret' = 11
    \<and> drop (11 - (digits + length (show_nat num))) ret' = bytes_of (show_nat num) @ drop (11 - digits) ret"
  using assms
proof (induction num arbitrary: ret digits rule: show_nat.induct)
  case (1 num)
  let ?n = "word_of_nat (num mod 10) :: u8"
  have n: "unat ?n = num mod 10" by (simp add: unat_of_nat)
  have "digits < 11"
    using "1.prems"(2) by (cases "show_nat num") auto
  from put_digit_ok [OF this "1.prems"(1), of "?n + base_ascii"] obtain r
    where r: "put_digit ret digits (?n + base_ascii) = Inr r" "length r = 11"
      "drop (11 - Suc digits) r = (?n + base_ascii) # drop (11 - digits) ret" by blast
  have step: "digits_loop num ret digits = digits_loop (num div 10) r (Suc digits)"
    using "1.prems"(3) by (subst digits_loop.simps) (simp add: r(1) n Let_def minus_mod_eq_mult_div)
  show ?case
  proof (cases "num < 10")
    case True
    then have "show_nat num = [digit_char num]" by (simp add: show_nat.simps [of num])
    with True r step digit_byte [of num] show ?thesis
      by (simp add: digits_loop.simps [of 0] bytes_of_def)
  next
    case False
    then have sn: "show_nat num = show_nat (num div 10) @ [digit_char (num mod 10)]"
      by (simp add: show_nat.simps [of num])
    have "0 < num div 10" using False by (simp add: div_greater_zero_iff)
    with "1.IH" [OF False r(2), of "Suc digits"] "1.prems"(2) False obtain r'
      where "digits_loop (num div 10) r (Suc digits) = Inr (r', Suc digits + length (show_nat (num div 10)))"
        "length r' = 11"
        "drop (11 - (Suc digits + length (show_nat (num div 10)))) r'
          = bytes_of (show_nat (num div 10)) @ drop (11 - Suc digits) r"
      by (auto simp: sn)
    with r step digit_byte [of "num mod 10"] show ?thesis
      by (simp add: sn bytes_of_append) (simp add: bytes_of_def)
  qed
qed

lemma i32_to_str_bytes_ok:
  "\<exists>ret digits. i32_to_str_bytes num = Inr (ret, digits) \<and> length ret = 11
    \<and> drop digits ret = bytes_of (show_int (sint num))"
proof -
  let ?n = "nat \<bar>sint num\<bar>"
  have range: "- (2 ^ 31) \<le> sint num" "sint num < 2 ^ 31"
    using sint_ge [of num] sint_lt [of num] by simp_all
  then have "length (show_nat ?n) \<le> 10" by (intro show_nat_length) auto
  have abs: "nat (if sint num < 0 then sint num * (- 1) else sint num) = ?n" by simp
  show ?thesis
  proof (cases "sint num = 0")
    case True
    from put_digit_ok [of 0 "replicate i32_str_len 0" base_ascii] obtain r
      where "put_digit (replicate i32_str_len 0) 0 base_ascii = Inr r" "length r = 11"
        "drop 10 r = [base_ascii]" by (auto simp: i32_str_len_def)
    then show ?thesis
      by (simp add: i32_to_str_bytes_def Let_def True digits_loop.simps [of 0] i32_str_len_def
          show_int_def show_nat.simps [of 0] bytes_of_def digit_byte [of 0, symmetric] del: replicate.simps)
  next
    case False
    from digits_loop_ok [of "replicate i32_str_len 0" 0 ?n] False \<open>length (show_nat ?n) \<le> 10\<close> obtain r
      where loop: "digits_loop ?n (replicate i32_str_len 0) 0 = Inr (r, length (show_nat ?n))"
        and r: "length r = 11" "drop (11 - length (show_nat ?n)) r = bytes_of (show_nat ?n)"
      by (auto simp: i32_str_len_def)
    from put_digit_ok [OF _ r(1), of "length (show_nat ?n)" minus_sign] \<open>length (show_nat ?n) \<le> 10\<close> obtain r'
      where r': "put_digit r (length (show_nat ?n)) minus_sign = Inr r'" "length r' = 11"
        "drop (11 - Suc (length (show_nat ?n))) r' = minus_sign # drop (11 - length (show_nat ?n)) r" by auto
    show ?thesis
    proof (cases "sint num < 0")
      case True
      with loop r r' False show ?thesis
        unfolding i32_to_str_bytes_def Let_def abs
        by (simp add: i32_str_len_def show_int_def bytes_of_def minus_sign_def del: replicate.simps)
    next
      case pos: False
      with loop r False show ?thesis
        unfolding i32_to_str_bytes_def Let_def abs
        by (simp add: i32_str_len_def show_int_def del: replicate.simps)
    qed
  qed
qed

lemma panic_ssafe_total: "\<exists>out. panic_ssafe message service errno desc status st = Inr (out, status)"
  using i32_to_str_bytes_ok [of errno] by (auto simp: panic_ssafe_def eprint_ssafe_errno_def)

section \<open>Properties\<close>

text \<open>
  C39. For every \<open>i32\<close>, the least one included, the printer stays inside its eleven bytes and the bytes
  from the returned position on are the decimal rendering of the number.
\<close>

theorem i32_to_str_bytes_correct:
  "case i32_to_str_bytes num of
    Inl _ \<Rightarrow> False
  | Inr (ret, digits) \<Rightarrow> length ret = 11 \<and> drop digits ret = bytes_of (show_int (sint num))"
  using i32_to_str_bytes_ok [of num] by (auto split: sum.split)

text \<open>
  C40. The panic of a forked child always ends with the given status, but prints one string only: each
  \<open>eprint_ssafe\<close> closes descriptor 2 behind it, so of the service name, the message, the error number
  and its description only the first reaches standard error.
\<close>

theorem panic_prints_first_only:
  "panic_ssafe message service errno desc status \<lparr>ce_open = True, ce_written = out\<rparr>
    = Inr (\<lparr>ce_open = False,
            ce_written = out @ (case service of Some serv_name \<Rightarrow> serv_name | None \<Rightarrow> message)\<rparr>, status)"
proof -
  obtain ret digits where "i32_to_str_bytes errno = Inr (ret, digits)"
    using i32_to_str_bytes_ok [of errno] by blast
  then show ?thesis
    by (cases service)
      (simp_all add: panic_ssafe_def eprint_ssafe_errno_def eprint_ssafe_def write_stderr_def)
qed

end
