(* ===== verification/Horust_Setup.thy ===== *)
theory Horust_Setup
  imports Bus Signal_Safe Formats
begin

text \<open>
  What \<open>Horust::run\<close> (\<open>horust/mod.rs\<close>) does before the threads run: the signal handlers
  (\<open>supervisor/signal_handling.rs\<close>) and the connectors of the three threads. Theory \<open>System\<close> takes over
  from there.
\<close>

section \<open>Signal handlers\<close>

text \<open>
  The two calls of \<open>sigaction\<close>, each \<open>None\<close> or the error it returned, with its description. The result
  is the end of the process, if it ends.
\<close>

definition signal_init ::
  "(i32 \<times> string) option \<Rightarrow> (i32 \<times> string) option \<Rightarrow> child_stderr \<Rightarrow> (child_stderr \<times> int) option res" where
  "signal_init sigterm_error sigint_error st =
    (case sigterm_error of
      Some (err, desc) \<Rightarrow>
        res_map Some (panic_ssafe ''signal_handling: sigaction() SIGTERM failed.'' None err desc 103 st)
    | None \<Rightarrow>
        (case sigint_error of
          Some (err, desc) \<Rightarrow>
            res_map Some (panic_ssafe ''signal_handling: sigaction() SIGINT failed .'' None err desc 104 st)
        | None \<Rightarrow> Inr None))"

section \<open>Connectors\<close>

record 'q horust =
  ho_services :: "service list"
  ho_uds_path :: string
  ho_bus :: "'q bus option"     \<comment> \<open>\<open>None\<close> once \<open>run\<close> has taken it\<close>

definition horust_new :: "'q \<Rightarrow> service list \<Rightarrow> string \<Rightarrow> 'q horust" where
  "horust_new new services uds_path =
    \<lparr>ho_services = services, ho_uds_path = uds_path, ho_bus = Some (bus_new new)\<rparr>"

definition horust_from_command :: "'q \<Rightarrow> string \<Rightarrow> nat \<Rightarrow> string \<Rightarrow> string \<Rightarrow> 'q horust" where
  "horust_from_command new current_dir uid cmd uds_path = horust_new new [from_command current_dir uid cmd] uds_path"

definition horust_from_services :: "'q \<Rightarrow> service list \<Rightarrow> string \<Rightarrow> 'q horust" where
  "horust_from_services new services uds_path = horust_new new services uds_path"

text \<open>The connector made, known by its number.\<close>

definition horust_join_bus :: "'q \<Rightarrow> 'q horust \<Rightarrow> (nat \<times> 'q horust) res" where
  "horust_join_bus new ho =
    res_map (\<lambda>b. (bs_next b, ho\<lparr>ho_bus := Some (join_bus new b)\<rparr>)) (ok_or UnwrapNone (ho_bus ho))"

text \<open>\<open>self.bus.take().expect(..)\<close>.\<close>

definition horust_take_bus :: "'q horust \<Rightarrow> ('q bus \<times> 'q horust) res" where
  "horust_take_bus ho = res_map (\<lambda>b. (b, ho\<lparr>ho_bus := None\<rparr>)) (ok_or UnwrapNone (ho_bus ho))"

text \<open>
  The health manager, the commands handler and the supervisor join in this order, then the bus is taken.
\<close>

definition run_connect :: "'q \<Rightarrow> 'q horust \<Rightarrow> ((nat \<times> nat \<times> nat) \<times> 'q bus \<times> 'q horust) res" where
  "run_connect new ho =
    res_bind (horust_join_bus new ho) (\<lambda>(manager, ho1).
    res_bind (horust_join_bus new ho1) (\<lambda>(commands, ho2).
    res_bind (horust_join_bus new ho2) (\<lambda>(sup, ho3).
    res_map (\<lambda>(b, ho4). ((manager, commands, sup), b, ho4)) (horust_take_bus ho3))))"

section \<open>Properties\<close>

text \<open>
  The handlers are installed, or the process ends with 103 for \<open>SIGTERM\<close> and 104 for \<open>SIGINT\<close>; the printing
  of the message does not panic.
\<close>

lemma signal_init_ends:
  "\<exists>r. signal_init t i st = Inr r \<and> (r = None \<longleftrightarrow> t = None \<and> i = None)
    \<and> map_option snd r = (if t \<noteq> None then Some 103 else if i \<noteq> None then Some 104 else None)"
  using panic_ssafe_total [of "''signal_handling: sigaction() SIGTERM failed.''" None "fst (the t)" "snd (the t)" 103 st]
    panic_ssafe_total [of "''signal_handling: sigaction() SIGINT failed .''" None "fst (the i)" "snd (the i)" 104 st]
  by (auto simp: signal_init_def split: option.split)

text \<open>
  A Horust runs once: the first \<open>run\<close> hands out three connectors of its own bus, all connected, and a
  second one, like a later \<open>join_bus\<close>, panics.
\<close>

lemma run_connects_once:
  "\<exists>m c s b ho. run_connect new (horust_new new services uds_path) = Inr ((m, c, s), b, ho)
    \<and> distinct [m, c, s] \<and> connected m b \<and> connected c b \<and> connected s b \<and> bus_wf b
    \<and> horust_join_bus new ho = Inl UnwrapNone \<and> run_connect new ho = Inl UnwrapNone"
  by (simp add: run_connect_def horust_join_bus_def horust_take_bus_def horust_new_def bus_new_def join_bus_def
      connected_def bus_wf_def)

text \<open>
  After \<open>run\<close> has connected the threads, what a connector has received, whatever all threads did since, is a
  beginning of the events sent, and the rest is on its way: a connector is a position in the sequence of
  all events, as theory \<open>System\<close> has it.
\<close>

lemma connector_is_position:
  assumes channel: "fifo_channel new send recv drain items"
    and run: "run_connect new (horust_new new services uds_path) = Inr ((m, c, s), b, ho)"
    and i: "i \<in> {m, c, s}" "Drop i \<notin> set ops"
    and ops: "bus_run new send recv drain ops b = (got, b')"
  shows "received_by i got = take (length (received_by i got)) (sent_events ops)
    \<and> in_flight items i b' = drop (length (received_by i got)) (sent_events ops)"
proof -
  from run run_connects_once [of new services uds_path] i(1) have wf: "bus_wf b" "connected i b" by auto
  from run have b: "b = join_bus new (join_bus new (join_bus new (bus_new new)))" "{m, c, s} = {0, 1, 2}"
    by (auto simp: run_connect_def horust_join_bus_def horust_take_bus_def horust_new_def bus_new_def join_bus_def)
  with i(1) have "in_flight items i b = []"
    by (auto simp: in_flight_def join_bus_def bus_new_def fifo_channel.items_new [OF channel])
  with fifo_channel.run_delivers [OF channel wf i(2)] ops
  have "received_by i got @ in_flight items i b' = sent_events ops" by simp
  then show ?thesis by (metis append_eq_conv_conj)
qed

end
