(* ===== verification/Bus_End.thy ===== *)
theory Bus_End
  imports Horust_Setup
begin

text \<open>
  The end of the bus (\<open>bus.rs\<close>): the thread that dispatches ends when every connector is gone and the
  input is empty, and not before, so the \<open>expect\<close> of \<open>send_event\<close> never fails. \<open>Horust::run\<close> returns only
  after it. Then the unit tests of the bus.
\<close>

section \<open>The thread that dispatches\<close>

text \<open>A connector holds a sender of the input as long as it lives; the bus has given its own away.\<close>

definition alive :: "nat \<Rightarrow> 'q bus \<Rightarrow> bool" where
  "alive i b \<longleftrightarrow> i < bs_next b \<and> i \<notin> set (bs_dropped b)"

definition input_open :: "'q bus \<Rightarrow> bool" where
  "input_open b \<longleftrightarrow> list_ex (\<lambda>i. alive i b) [0..<bs_next b]"

text \<open>
  One turn of \<open>for ev in self.receiver\<close>: an event is dispatched, or the thread waits for one, or the loop
  ends as no sender of the input is left. The flag says that it has ended.
\<close>

fun bus_turn :: "('a \<Rightarrow> 'q \<Rightarrow> 'q) \<Rightarrow> ('q \<Rightarrow> ('a \<times> 'q) option) \<Rightarrow> 'q bus \<times> bool \<Rightarrow> 'q bus \<times> bool" where
  "bus_turn send recv (b, ended) =
    (if ended then (b, True)
     else (case recv (bs_input b) of
       Some _ \<Rightarrow> (dispatch_one send recv b, False)
     | None \<Rightarrow> (b, \<not> input_open b)))"

definition bus_turns :: "('a \<Rightarrow> 'q \<Rightarrow> 'q) \<Rightarrow> ('q \<Rightarrow> ('a \<times> 'q) option) \<Rightarrow> nat \<Rightarrow> 'q bus \<times> bool \<Rightarrow> 'q bus \<times> bool" where
  "bus_turns send recv n = bus_turn send recv ^^ n"

text \<open>
  What the holder of a connector does with it, and the turns of the bus. A send fails, and its \<open>expect\<close>
  panics, once the receiving side of the input is gone.
\<close>

datatype 'a life_op = JoinVia nat | SendVia nat 'a | GetVia nat | DropVia nat | BusTurn

fun life_step ::
  "'q \<Rightarrow> ('a \<Rightarrow> 'q \<Rightarrow> 'q) \<Rightarrow> ('q \<Rightarrow> ('a \<times> 'q) option) \<Rightarrow> ('q \<Rightarrow> 'a list \<times> 'q)
    \<Rightarrow> 'a life_op \<Rightarrow> 'q bus \<times> bool \<Rightarrow> ('q bus \<times> bool) res" where
  "life_step new send recv drain (JoinVia i) (b, ended) = Inr (join_bus new b, ended)"
| "life_step new send recv drain (SendVia i ev) (b, ended) =
    (if ended then Inl UnwrapNone else Inr (send_event send ev b, ended))"
| "life_step new send recv drain (GetVia i) (b, ended) = Inr (snd (try_get_events drain i b), ended)"
| "life_step new send recv drain (DropVia i) (b, ended) = Inr (drop_connector i b, ended)"
| "life_step new send recv drain BusTurn (b, ended) = Inr (bus_turn send recv (b, ended))"

text \<open>A connector that has been dropped cannot be used.\<close>

fun owned :: "'q bus \<Rightarrow> 'a life_op \<Rightarrow> bool" where
  "owned b (JoinVia i) \<longleftrightarrow> alive i b"
| "owned b (SendVia i ev) \<longleftrightarrow> alive i b"
| "owned b (GetVia i) \<longleftrightarrow> alive i b"
| "owned b (DropVia i) \<longleftrightarrow> alive i b"
| "owned b BusTurn \<longleftrightarrow> True"

text \<open>The bus of \<open>n\<close> connectors that joined before it runs, and what it comes to.\<close>

inductive bus_lives ::
  "'q \<Rightarrow> ('a \<Rightarrow> 'q \<Rightarrow> 'q) \<Rightarrow> ('q \<Rightarrow> ('a \<times> 'q) option) \<Rightarrow> ('q \<Rightarrow> 'a list \<times> 'q) \<Rightarrow> nat \<Rightarrow> 'q bus \<times> bool \<Rightarrow> bool"
  for new send recv drain n
where
  runs: "bus_lives new send recv drain n ((join_bus new ^^ n) (bus_new new), False)"
| lives: "bus_lives new send recv drain n s \<Longrightarrow> owned (fst s) op \<Longrightarrow> life_step new send recv drain op s = Inr s'
    \<Longrightarrow> bus_lives new send recv drain n s'"

section \<open>Lemmas\<close>

lemma input_open_iff: "input_open b \<longleftrightarrow> (\<exists>i. alive i b)"
  by (auto simp: input_open_def list_ex_iff alive_def)

lemma alive_simps [simp]:
  "alive i (send_event send ev b) = alive i b"
  "alive i (dispatch_one send recv b) = alive i b"
  "alive i (snd (try_get_events drain j b)) = alive i b"
  by (auto simp: alive_def send_event_def dispatch_one_def try_get_events_def Let_def case_prod_unfold
      split: option.split)

lemma dispatch_one_input: "recv (bs_input b) = Some (ev, rest) \<Longrightarrow> bs_input (dispatch_one send recv b) = rest"
  by (simp add: dispatch_one_def)

text \<open>No connector is left when the thread has ended, and those left still have their output queue.\<close>

definition life_inv :: "'q bus \<times> bool \<Rightarrow> bool" where
  "life_inv s \<longleftrightarrow> (snd s \<longrightarrow> \<not> input_open (fst s)) \<and> bus_wf (fst s)
    \<and> (\<forall>i. alive i (fst s) \<longrightarrow> connected i (fst s))"

lemma alive_connected:
  assumes "\<forall>i. alive i b \<longrightarrow> connected i b" and "bus_wf b"
  shows "\<forall>i. alive i (snd (bus_step new send recv drain op b)) \<longrightarrow> connected i (snd (bus_step new send recv drain op b))"
proof (cases op)
  case Join
  with assms show ?thesis by (auto simp: join_bus_def alive_def connected_def less_Suc_eq)
next
  case (Drop j)
  with assms show ?thesis by (auto simp: drop_connector_def alive_def connected_def)
next
  case (Send ev)
  with assms show ?thesis using bus_step_connected [of _ b op new send recv drain] by auto
next
  case Dispatch
  with assms show ?thesis using bus_step_connected [of _ b op new send recv drain] by auto
next
  case (Get j)
  have "snd (bus_step new send recv drain op b) = snd (try_get_events drain j b)"
    using Get by (simp add: Let_def case_prod_unfold)
  with Get assms show ?thesis using bus_step_connected [of _ b op new send recv drain] by auto
qed

lemma joined_inv: "life_inv ((join_bus new ^^ n) (bus_new new), False)"
proof (induction n)
  case 0
  then show ?case by (simp add: life_inv_def bus_new_def bus_wf_def alive_def)
next
  case (Suc n)
  let ?b = "(join_bus new ^^ n) (bus_new new)"
  from Suc alive_connected [of ?b new undefined undefined undefined Join]
    bus_step_wf [of ?b new undefined undefined undefined Join]
  show ?case by (simp add: life_inv_def)
qed

lemma bus_op_inv:
  assumes "life_inv (b, ended)" and "b' = snd (bus_step new send recv drain op b)"
    and "ended' \<Longrightarrow> \<not> input_open b'"
  shows "life_inv (b', ended')"
  using assms alive_connected [of b new send recv drain op] bus_step_wf [of b new send recv drain op]
  by (auto simp: life_inv_def)

lemma life_inv_step:
  fixes b :: "'q bus" and op :: "'a life_op"
  assumes "life_inv (b, ended)" and "owned b op" and "life_step new send recv drain op (b, ended) = Inr s'"
  shows "life_inv s'"
proof (cases op)
  case (JoinVia i)
  with assms have "\<not> ended" by (auto simp: life_inv_def input_open_iff)
  with assms JoinVia bus_op_inv [OF assms(1), of _ new send recv drain Join] show ?thesis by auto
next
  case (SendVia i ev)
  with assms bus_op_inv [OF assms(1), of _ new send recv drain "Send ev"] show ?thesis by (auto split: if_splits)
next
  case (GetVia i)
  with assms bus_op_inv [OF assms(1), of _ new send recv drain "Get i"] show ?thesis
    by (auto simp: life_inv_def input_open_iff Let_def case_prod_unfold)
next
  case (DropVia i)
  with assms bus_op_inv [OF assms(1), of _ new send recv drain "Drop i"] show ?thesis
    by (auto simp: life_inv_def input_open_iff drop_connector_def alive_def)
next
  case BusTurn
  with assms bus_op_inv [OF assms(1), of _ new send recv drain Dispatch] show ?thesis
    by (auto split: if_splits option.splits) (auto simp: life_inv_def)
qed

lemma bus_lives_inv: "bus_lives new send recv drain n s \<Longrightarrow> life_inv s"
proof (induction rule: bus_lives.induct)
  case runs
  then show ?case by (rule joined_inv)
next
  case (lives s op s')
  then show ?case by (cases s) (auto intro: life_inv_step)
qed

context fifo_channel
begin

text \<open>Once no connector is left, the thread empties its input and ends.\<close>

lemma last_turns:
  "\<not> input_open b \<Longrightarrow> snd (bus_turns send recv (Suc (length (items (bs_input b)))) (b, ended))"
proof (induction "items (bs_input b)" arbitrary: b ended)
  case Nil
  then have "recv (bs_input b) = None" by (simp add: recv_empty)
  with Nil show ?case by (simp add: bus_turns_def)
next
  case (Cons ev evs)
  then obtain rest where r: "recv (bs_input b) = Some (ev, rest)" "items rest = evs"
    by (metis list.distinct(1) list.inject not_None_eq recv_empty recv_front surj_pair)
  have ended: "snd ((bus_turn send recv ^^ m) (b', True))" for m b'
    by (induction m arbitrary: b') (simp_all add: funpow_swap1)
  let ?b = "dispatch_one send recv b"
  have "snd (bus_turns send recv (Suc (length (items (bs_input ?b)))) (?b, False))"
    using Cons(1) [of ?b] Cons(2,3) r by (simp add: dispatch_one_input input_open_iff)
  with r Cons(2) ended [of "Suc (length evs)" b] show ?case
    by (cases ended) (simp_all add: bus_turns_def dispatch_one_input funpow_swap1 flip: Cons(2))
qed

end

section \<open>Properties\<close>

text \<open>
  C32. The bus runs as long as it is needed: whatever its connectors do, the thread that dispatches has
  not ended while one of them lives, so a send never fails; and once the last one is dropped it delivers
  what is left and ends.
\<close>

theorem bus_ends_last:
  assumes "fifo_channel new send recv drain items" and "bus_lives new send recv drain n (b, ended)"
  shows "(alive i b \<longrightarrow> \<not> ended \<and> life_step new send recv drain (SendVia i ev) (b, ended) = Inr (send_event send ev b, False))
    \<and> ((\<forall>i. \<not> alive i b) \<longrightarrow> snd (bus_turns send recv (Suc (length (items (bs_input b)))) (b, ended)))"
  using bus_lives_inv [OF assms(2)] fifo_channel.last_turns [OF assms(1), of b ended]
  by (auto simp: life_inv_def input_open_iff)

text \<open>One connector sends and is dropped; the event is delivered and the thread ends.\<close>

definition ex_life :: "nat list bus" where
  "ex_life = drop_connector 0 (send_event list_send 7 ((join_bus [] ^^ 1) (bus_new [])))"

theorem bus_ends_last_witness:
  "snd (bus_turns list_send list_recv 2 (ex_life, False))"
proof -
  have start: "bus_lives [] list_send list_recv list_drain 1 ((join_bus [] ^^ 1) (bus_new []), False)"
    by (rule bus_lives.runs)
  have sent: "bus_lives [] list_send list_recv list_drain 1 (send_event list_send (7 :: nat) ((join_bus [] ^^ 1) (bus_new [])), False)"
    by (rule bus_lives.lives [OF start, where op = "SendVia 0 7"]) (simp_all add: alive_def join_bus_def bus_new_def)
  have lives: "bus_lives [] list_send list_recv list_drain 1 (ex_life, False)"
    unfolding ex_life_def
    by (rule bus_lives.lives [OF sent, where op = "DropVia 0"]) (simp_all add: alive_def join_bus_def bus_new_def send_event_def)
  have "\<forall>i. \<not> alive i ex_life" "length (bs_input ex_life) = 1"
    by (auto simp: ex_life_def alive_def join_bus_def bus_new_def send_event_def drop_connector_def list_send_def)
  then show ?thesis
    using bus_ends_last [OF list_channel.fifo_channel_axioms lives] by (simp add: numeral_2_eq_2)
qed

section \<open>Unit tests\<close>

text \<open>
  \<open>recv\<close> blocks until the connector has an event: when its queue is empty the bus takes a turn, which
  delivers the next event to every connector, and with an empty input the call never returns (\<open>None\<close>).
\<close>

definition recv_blocking ::
  "('a \<Rightarrow> 'q \<Rightarrow> 'q) \<Rightarrow> ('q \<Rightarrow> ('a \<times> 'q) option) \<Rightarrow> nat \<Rightarrow> 'q bus \<Rightarrow> ('a \<times> 'q bus) option" where
  "recv_blocking send recv i b =
    (let take_front = (\<lambda>b. Option.bind (map_of (bs_senders b) i) (\<lambda>q.
           map_option (\<lambda>(ev, q'). (ev, b\<lparr>bs_senders := map (\<lambda>(j, r). (j, if j = i then q' else r)) (bs_senders b)\<rparr>)) (recv q)))
     in case take_front b of
          Some r \<Rightarrow> Some r
        | None \<Rightarrow> take_front (dispatch_one send recv b))"

fun get_n_events_blocking ::
  "('a \<Rightarrow> 'q \<Rightarrow> 'q) \<Rightarrow> ('q \<Rightarrow> ('a \<times> 'q) option) \<Rightarrow> nat \<Rightarrow> nat \<Rightarrow> 'q bus \<Rightarrow> ('a list \<times> 'q bus) option" where
  "get_n_events_blocking send recv i 0 b = Some ([], b)"
| "get_n_events_blocking send recv i (Suc n) b =
    Option.bind (recv_blocking send recv i b) (\<lambda>(ev, b1).
      map_option (\<lambda>(evs, b2). (ev # evs, b2)) (get_n_events_blocking send recv i n b1))"

text \<open>Every connector of the list receives \<open>ev\<close> next: the assertions of the tests, one after the other.\<close>

fun all_receive ::
  "('a \<Rightarrow> 'q \<Rightarrow> 'q) \<Rightarrow> ('q \<Rightarrow> ('a \<times> 'q) option) \<Rightarrow> 'a \<Rightarrow> nat list \<Rightarrow> 'q bus \<Rightarrow> 'q bus option" where
  "all_receive send recv ev [] b = Some b"
| "all_receive send recv ev (i # is) b =
    Option.bind (recv_blocking send recv i b) (\<lambda>(got, b1). if got = ev then all_receive send recv ev is b1 else None)"

text \<open>Two connectors, and what the tests await at their end: the thread of the bus ends.\<close>

definition init_bus :: "'q \<Rightarrow> 'q bus" where
  "init_bus new = join_bus new (join_bus new (bus_new new))"

definition bus_thread_ends :: "('a \<Rightarrow> 'a list \<Rightarrow> 'a list) \<Rightarrow> ('a list \<Rightarrow> ('a \<times> 'a list) option) \<Rightarrow> 'a list bus \<Rightarrow> bool" where
  "bus_thread_ends send recv b \<longleftrightarrow> snd (bus_turns send recv (Suc (length (bs_input b))) (b, False))"

definition test_bus_simple :: bool where
  "test_bus_simple \<longleftrightarrow>
    (let ev = new_status_changed ''sample'' Initial;
         b = send_event list_send ev (init_bus [])
     in case all_receive list_send list_recv ev [0, 1] b of
          None \<Rightarrow> False
        | Some b1 \<Rightarrow> bus_thread_ends list_send list_recv (drop_connector 1 (drop_connector 0 b1)))"

definition test_bus_nested :: bool where
  "test_bus_nested \<longleftrightarrow>
    (let ev = new_status_changed ''sample'' Initial;
         b = send_event list_send ev (join_bus [] (init_bus []))
     in case all_receive list_send list_recv ev [0, 1, 2] b of
          None \<Rightarrow> False
        | Some b1 \<Rightarrow> bus_thread_ends list_send list_recv (drop_connector 2 (drop_connector 1 (drop_connector 0 b1))))"

text \<open>The loop that waits until both connectors have an event is one turn of the bus.\<close>

definition test_get_events :: bool where
  "test_get_events \<longleftrightarrow>
    (let ev = new_status_changed ''sample'' Initial;
         sends = (\<lambda>b. send_event list_send ev b);
         b = sends (sends (sends (init_bus [])))
     in case Option.bind (get_n_events_blocking list_send list_recv 0 3 b)
               (\<lambda>(_, b1). get_n_events_blocking list_send list_recv 1 3 b1) of
          None \<Rightarrow> False
        | Some (_, b2) \<Rightarrow>
            (let (got_a, b3) = try_get_events list_drain 0 (dispatch_one list_send list_recv (sends b2));
                 (got_b, b4) = try_get_events list_drain 1 b3
             in length got_a = 1 \<and> length got_b = 1
                \<and> bus_thread_ends list_send list_recv (drop_connector 1 (drop_connector 0 b4))))"

text \<open>The test of a hundred connectors, with their number as its argument: each round one is stopped.\<close>

fun stress_rounds :: "event \<Rightarrow> event \<Rightarrow> nat list \<Rightarrow> event list bus \<Rightarrow> event list bus option" where
  "stress_rounds ev exit_ev [] b = Some b"
| "stress_rounds ev exit_ev (to_stop # connectors) b =
    Option.bind (all_receive list_send list_recv ev (rev (to_stop # connectors)) (send_event list_send ev b)) (\<lambda>b1.
    Option.bind (all_receive list_send list_recv exit_ev (rev connectors) (send_event list_send exit_ev b1)) (\<lambda>b2.
      stress_rounds ev exit_ev connectors (drop_connector to_stop b2)))"

definition test_stress :: "nat \<Rightarrow> bool" where
  "test_stress n \<longleftrightarrow>
    (let ev = new_status_changed ''sample'' Initial;
         exit_ev = ShuttingDownInitiated Gracefully
     in case stress_rounds ev exit_ev (rev [1..<Suc n]) ((join_bus [] ^^ Suc n) (bus_new [])) of
          None \<Rightarrow> False
        | Some b \<Rightarrow> bus_thread_ends list_send list_recv (drop_connector 0 (send_event list_send exit_ev b)))"

lemma recv_queued:
  "map_of (bs_senders b) i = Some (ev # q) \<Longrightarrow> recv_blocking list_send list_recv i b
    = Some (ev, b\<lparr>bs_senders := map (\<lambda>(j, r). (j, if j = i then q else r)) (bs_senders b)\<rparr>)"
  by (simp add: recv_blocking_def list_recv_def Let_def)

lemma all_receive_queued:
  "distinct is \<Longrightarrow> \<forall>i \<in> set is. map_of (bs_senders b) i = Some [ev] \<Longrightarrow>
    \<exists>b'. all_receive list_send list_recv ev is b = Some b' \<and> bs_input b' = bs_input b \<and> bs_next b' = bs_next b
      \<and> bs_dropped b' = bs_dropped b \<and> (\<forall>i \<in> set is. map_of (bs_senders b') i = Some [])
      \<and> (\<forall>i. i \<notin> set is \<longrightarrow> map_of (bs_senders b') i = map_of (bs_senders b) i)"
proof (induction "is" arbitrary: b)
  case (Cons i "is")
  let ?b = "b\<lparr>bs_senders := map (\<lambda>(j, r). (j, if j = i then [] else r)) (bs_senders b)\<rparr>"
  have m: "map_of (bs_senders ?b) j = (if j = i then Some [] else map_of (bs_senders b) j)" for j
    using Cons.prems(2) map_of_map_snd [of "\<lambda>j r. if j = i then [] else r" "bs_senders b" j]
    by (cases "map_of (bs_senders b) j") auto
  have d: "distinct is" "i \<notin> set is" using Cons.prems(1) by simp_all
  moreover have "\<forall>j \<in> set is. map_of (bs_senders ?b) j = Some [ev]" unfolding m using Cons.prems(2) d(2) by auto
  ultimately obtain b' where b': "all_receive list_send list_recv ev is ?b = Some b'" "bs_input b' = bs_input ?b"
      "bs_next b' = bs_next ?b" "bs_dropped b' = bs_dropped ?b" "\<forall>j \<in> set is. map_of (bs_senders b') j = Some []"
      "\<And>j. j \<notin> set is \<Longrightarrow> map_of (bs_senders b') j = map_of (bs_senders ?b) j"
    using Cons.IH [of ?b] by blast
  have "recv_blocking list_send list_recv i b = Some (ev, ?b)" using recv_queued [of b i ev "[]"] Cons.prems(2) by simp
  with b'(1) have "all_receive list_send list_recv ev (i # is) b = Some b'" by simp
  moreover have "map_of (bs_senders b') i = Some []" using b'(6) [OF d(2)] unfolding m by simp
  moreover have "map_of (bs_senders b') j = map_of (bs_senders b) j" if "j \<notin> set (i # is)" for j
    using b'(6) [of j] that unfolding m by simp
  ultimately show ?case using b'(2-5) by simp
qed simp

text \<open>Nothing on the way, and the connectors of the list are there with an empty queue.\<close>

definition quiet :: "nat list \<Rightarrow> 'a list bus \<Rightarrow> bool" where
  "quiet is b \<longleftrightarrow> bs_input b = [] \<and> (\<forall>i \<in> set is. map_of (bs_senders b) i = Some [] \<and> i \<notin> set (bs_dropped b))"

lemma all_receive_sent:
  assumes "quiet is b" and "distinct is" and "is \<noteq> []"
  shows "\<exists>b'. all_receive list_send list_recv ev is (send_event list_send ev b) = Some b' \<and> quiet is b'
    \<and> bs_next b' = bs_next b \<and> bs_dropped b' = bs_dropped b"
proof -
  let ?b = "dispatch_one list_send list_recv (send_event list_send ev b)"
  from assms(3) obtain i is' where "is": "is = i # is'" by (cases "is") auto
  have same: "bs_input ?b = []" "bs_next ?b = bs_next b" "bs_dropped ?b = bs_dropped b"
    using assms(1) by (auto simp: quiet_def dispatch_one_def send_event_def list_send_def list_recv_def)
  have q: "map_of (bs_senders ?b) j = Some [ev]" if "j \<in> set is" for j
  proof -
    have "map_of (map (\<lambda>(j, r). (j, list_send ev r)) (filter (\<lambda>(j, r). j \<notin> set (bs_dropped b)) (bs_senders b))) j
        = Some (list_send ev [])"
      using assms(1) that map_of_filter_fst [of "\<lambda>j. j \<notin> set (bs_dropped b)" j "bs_senders b"]
      unfolding map_of_map_snd [of "\<lambda>_. list_send ev"] by (simp add: quiet_def)
    then show ?thesis using assms(1) by (simp add: quiet_def dispatch_one_def send_event_def list_send_def list_recv_def)
  qed
  have "recv_blocking list_send list_recv i (send_event list_send ev b) = recv_blocking list_send list_recv i ?b"
    using assms(1) q [of i] by (auto simp: recv_blocking_def quiet_def "is" send_event_def list_recv_def Let_def)
  then have "all_receive list_send list_recv ev is (send_event list_send ev b) = all_receive list_send list_recv ev is ?b"
    by (simp add: "is")
  with all_receive_queued [OF assms(2), of ?b ev] q assms(1) same show ?thesis
    by (auto simp: quiet_def)
qed

lemma stress_rounds_pass:
  "quiet is b \<Longrightarrow> distinct is \<Longrightarrow> \<exists>b'. stress_rounds ev exit_ev is b = Some b' \<and> bs_next b' = bs_next b
    \<and> set (bs_dropped b') = set is \<union> set (bs_dropped b)"
proof (induction "is" arbitrary: b)
  case (Cons i "is")
  have all: "quiet (rev (i # is)) b" "distinct (rev (i # is))" using Cons.prems by (auto simp: quiet_def)
  from all_receive_sent [OF all, of ev] obtain b1 where
    b1: "all_receive list_send list_recv ev (rev (i # is)) (send_event list_send ev b) = Some b1"
      "quiet (rev (i # is)) b1" "bs_next b1 = bs_next b" "bs_dropped b1 = bs_dropped b" by auto
  show ?case
  proof (cases "is")
    case Nil
    with b1 show ?thesis by (auto simp: drop_connector_def send_event_def)
  next
    case (Cons j is')
    have "quiet (rev is) b1" "distinct (rev is)" "rev is \<noteq> []" using b1(2) all(2) Cons by (auto simp: quiet_def)
    from all_receive_sent [OF this, of exit_ev] obtain b2 where
      b2: "all_receive list_send list_recv exit_ev (rev is) (send_event list_send exit_ev b1) = Some b2"
        "quiet (rev is) b2" "bs_next b2 = bs_next b1" "bs_dropped b2 = bs_dropped b1" by auto
    have "quiet is (drop_connector i b2)" using b2(2) all(2) by (auto simp: quiet_def drop_connector_def)
    from Cons.IH [OF this] all(2) b1 b2 show ?thesis by (auto simp: drop_connector_def)
  qed
qed simp

definition joined :: "nat \<Rightarrow> 'a list bus \<Rightarrow> bool" where
  "joined n b \<longleftrightarrow> bs_input b = [] \<and> bs_next b = n \<and> bs_dropped b = []
    \<and> (\<forall>i. map_of (bs_senders b) i = (if i < n then Some [] else None))"

lemma joined_step: "joined n b \<Longrightarrow> joined (Suc n) (join_bus [] b)"
  by (auto simp: joined_def join_bus_def map_add_def split: option.split)

lemma joined_all: "joined n ((join_bus [] ^^ n) (bus_new []))"
  by (induction n) (simp_all add: joined_step, simp add: joined_def bus_new_def)

lemma stress_test_passes: "test_stress n"
proof -
  let ?b = "(join_bus [] ^^ Suc n) (bus_new []) :: event list bus"
  let ?exit_ev = "ShuttingDownInitiated Gracefully"
  have "quiet (rev [1..<Suc n]) ?b" using joined_all [of "Suc n", where 'a = event] by (auto simp: quiet_def joined_def simp del: funpow.simps)
  moreover have "distinct (rev [1..<Suc n])" by simp
  ultimately obtain b where
    b: "stress_rounds (new_status_changed ''sample'' Initial) ?exit_ev (rev [1..<Suc n]) ?b = Some b"
      "bs_next b = bs_next ?b" "set (bs_dropped b) = set (rev [1..<Suc n]) \<union> set (bs_dropped ?b)"
    using stress_rounds_pass [of "rev [1..<Suc n]" ?b] by blast
  have "\<not> input_open (drop_connector 0 (send_event list_send ?exit_ev b))"
    using b(2,3) joined_all [of "Suc n", where 'a = event] by (auto simp: joined_def input_open_iff alive_def drop_connector_def send_event_def simp del: funpow.simps)
  from list_channel.last_turns [OF this] b(1) show ?thesis
    by (simp add: test_stress_def bus_thread_ends_def Let_def del: funpow.simps)
qed

text \<open>The tests of the bus pass, the last one with any number of connectors.\<close>

lemma bus_unit_tests: "test_bus_simple" "test_bus_nested" "test_get_events" "test_stress 100"
  by (code_simp, code_simp, code_simp, rule stress_test_passes)

end
