(* ===== verification/Horustctl.thy ===== *)
theory Horustctl
  imports System_Props
begin

text \<open>
  \<open>horustctl\<close> (\<open>horustctl/src/main.rs\<close>) against a running Horust: the command line client, the connection
  it makes, the round of the commands handler that answers it, and what is printed in the end.
\<close>

section \<open>The server's side\<close>

text \<open>What \<open>UnixListener::accept\<close> returns: a connection with the bytes its client writes, or an error.\<close>

datatype 'b accepted = Connection 'b | WouldBlock | AcceptFailed string

text \<open>Errors of a connection are logged only: the result is the answer written, if one is.\<close>

definition accept_connection ::
  "('b \<Rightarrow> message option) \<Rightarrow> (message \<Rightarrow> 'b) \<Rightarrow> commands_handler \<Rightarrow> 'b accepted \<Rightarrow> 'b option" where
  "accept_connection decode encode h incoming =
    (case incoming of
      Connection bytes \<Rightarrow>
        (case handle_connection decode encode h bytes of Inl err \<Rightarrow> None | Inr answer \<Rightarrow> answer)
    | WouldBlock \<Rightarrow> None
    | AcceptFailed err \<Rightarrow> None)"

text \<open>
  A round of the handler's loop: the events that arrived, then one connection, unless a shutdown was
  among the events, after which nothing is accepted any more.
\<close>

definition commands_round ::
  "('b \<Rightarrow> message option) \<Rightarrow> (message \<Rightarrow> 'b) \<Rightarrow> event list \<Rightarrow> 'b accepted \<Rightarrow> commands_handler
    \<Rightarrow> (commands_handler \<times> 'b option) res" where
  "commands_round decode encode evs incoming h =
    res_map (\<lambda>h'. (h', if cm_done h' then None else accept_connection decode encode h' incoming))
      (commands_events h evs)"

section \<open>The client\<close>

datatype ctl_commands = Status "string option"

record horustctl_args =
  ca_pid :: "int option"
  ca_uds_folder_path :: string
  ca_socket_path :: "string option"
  ca_commands :: ctl_commands

text \<open>What \<open>main\<close> ends with: the line printed, or the error it returns.\<close>

datatype ctl_error = CouldNotCreateStream | CommandError command_error

definition status_line :: "string \<Rightarrow> msg_status \<Rightarrow> string" where
  "status_line n s = ''Current status for '' @ [CHR 39] @ n @ [CHR 39] @ '' is: '' @ [CHR 39] @ as_str_name s @ [CHR 39] @ ''.''"

text \<open>\<open>expect("Failed to get uds_path.")\<close> is a panic.\<close>

definition uds_path_of :: "socket_folder \<Rightarrow> horustctl_args \<Rightarrow> string res" where
  "uds_path_of folder args =
    (case ca_socket_path args of
      Some p \<Rightarrow> Inr p
    | None \<Rightarrow>
        (case get_uds_path (ca_pid args) (ca_uds_folder_path args) folder of
          Inl err \<Rightarrow> Inl UnwrapNone
        | Inr p \<Rightarrow> Inr p))"

text \<open>
  \<open>connect\<close> is \<open>UnixStream::connect\<close>: for a path, no stream or what the peer answers to the bytes written.
\<close>

definition new_client ::
  "(string \<Rightarrow> ('b \<Rightarrow> command_error + 'b) option) \<Rightarrow> string \<Rightarrow> ctl_error + ('b \<Rightarrow> command_error + 'b)" where
  "new_client connect socket_path = ok_or CouldNotCreateStream (connect socket_path)"

definition horustctl_main ::
  "('b \<Rightarrow> message option) \<Rightarrow> (message \<Rightarrow> 'b) \<Rightarrow> socket_folder
    \<Rightarrow> (string \<Rightarrow> ('b \<Rightarrow> command_error + 'b) option) \<Rightarrow> horustctl_args \<Rightarrow> (ctl_error + string) res" where
  "horustctl_main decode encode folder connect args =
    res_bind (uds_path_of folder args) (\<lambda>uds_path.
      (case new_client connect uds_path of
        Inl err \<Rightarrow> Inr (Inl err)
      | Inr exchange \<Rightarrow>
          (case ca_commands args of
            Status service_name \<Rightarrow>
              res_bind (ok_or UnwrapNone service_name) (\<lambda>n.
                res_map (\<lambda>answer. (case answer of
                    Inl err \<Rightarrow> Inl (CommandError err)
                  | Inr (service, status) \<Rightarrow> Inr (status_line service status)))
                  (send_status_request decode encode exchange n)))))"

section \<open>The connection of the two\<close>

text \<open>
  The peer of the stream is the handler: the answer its round writes, or an end of the stream without
  one, which a decoder may or may not take for a message.
\<close>

definition served_by ::
  "('b \<Rightarrow> message option) \<Rightarrow> (message \<Rightarrow> 'b) \<Rightarrow> event list \<Rightarrow> commands_handler \<Rightarrow> 'b \<Rightarrow> command_error + 'b" where
  "served_by decode encode evs h bytes =
    (case commands_round decode encode evs (Connection bytes) h of
      Inr (_, Some answer) \<Rightarrow> Inr answer
    | _ \<Rightarrow> Inl (SocketError ''closed''))"

lemma handle_status_request:
  assumes "\<And>m. decode (encode m) = Some m"
  shows "handle_connection decode encode h (encode (new_request (StatusRequest n)))
    = Inr (Some (encode (case get_service_status h n of
        Inr status \<Rightarrow> new_horust_msg_service_status_response n status
      | Inl err \<Rightarrow> new_horust_msg_error_response (''Error from status handler: '' @ err))))"
  using assms by (simp add: handle_connection_def new_request_def)

lemma send_status_request_served:
  assumes "\<And>m. decode (encode m) = Some m" and "commands_events h evs = Inr h'" and "\<not> cm_done h'"
    and "get_service_status h' n = Inr s"
  shows "send_status_request decode encode (served_by decode encode evs h) n = Inr (Inr (n, s))"
  using assms(2-4)
  by (simp add: send_status_request_def served_by_def commands_round_def accept_connection_def
      handle_status_request assms(1) unwrap_response_def new_horust_msg_service_status_response_def)

section \<open>Properties\<close>



text \<open>
  \<open>horustctl\<close> panics exactly when no socket path is found, when it is connected and no service is named,
  or when the answer to its request is none it can read; every other failure is an error it returns.
\<close>

lemma horustctl_panics:
  "isl (horustctl_main decode encode folder connect args) \<longleftrightarrow>
    isl (uds_path_of folder args)
    \<or> (\<exists>exchange. connect (projr (uds_path_of folder args)) = Some exchange
        \<and> (ca_commands args = Status None
          \<or> (\<exists>n. ca_commands args = Status (Some n) \<and> isl (send_status_request decode encode exchange n))))"
proof -
  obtain name where name: "ca_commands args = Status name" by (cases "ca_commands args")
  show ?thesis
    by (cases "uds_path_of folder args"; cases name; cases "connect (projr (uds_path_of folder args))")
      (auto simp: horustctl_main_def new_client_def name)
qed

end
