(* ===== verification/Environment.thy ===== *)
theory Environment
  imports Formats Program_Path
begin

text \<open>
  The environment of a spawned process: \<open>Environment::get_environment\<close>, \<open>User\<close> and
  \<open>Service::get_environment\<close> of \<open>formats/service.rs\<close>. The variables of the supervisor's own process,
  \<open>/etc/hostname\<close> and the user database are arguments.
\<close>

section \<open>The outside\<close>

record process_env =
  pe_vars :: "(string, string) hmap"          \<comment> \<open>\<open>std::env::vars\<close>\<close>
  pe_hostname_is_file :: bool                 \<comment> \<open>whether \<open>/etc/hostname\<close> is a file\<close>
  pe_hostname_content :: "string option"      \<comment> \<open>its content, \<open>None\<close> when it cannot be read\<close>

definition env_var :: "process_env \<Rightarrow> string \<Rightarrow> string option" where
  "env_var pe n = hm_get (pe_vars pe) n"

definition unwrap_or :: "'a option \<Rightarrow> 'a \<Rightarrow> 'a" where
  "unwrap_or x d = (case x of None \<Rightarrow> d | Some y \<Rightarrow> y)"

section \<open>Users\<close>

record passwd =
  pw_name :: string
  pw_uid :: nat
  pw_dir :: string

text \<open>\<open>getpwnam\<close> and \<open>getpwuid\<close>: an error, no entry, or an entry.\<close>

record user_db =
  ud_from_name :: "string \<Rightarrow> string + passwd option"
  ud_from_uid :: "nat \<Rightarrow> string + passwd option"

definition lookup_user :: "string + passwd option \<Rightarrow> string \<Rightarrow> spawn_error + passwd" where
  "lookup_user result who =
    (case result of
      Inl err \<Rightarrow> Inl (UserLookup err)
    | Inr None \<Rightarrow> Inl (UserNotFound who)
    | Inr (Some pw) \<Rightarrow> Inr pw)"

fun get_uid :: "user_db \<Rightarrow> user \<Rightarrow> spawn_error + nat" where
  "get_uid db (Name n) = res_map pw_uid (lookup_user (ud_from_name db n) n)"
| "get_uid db (Uid uid) = Inr uid"

definition get_raw_user :: "user_db \<Rightarrow> user \<Rightarrow> spawn_error + passwd" where
  "get_raw_user db u =
    res_bind (get_uid db u) (\<lambda>uid. lookup_user (ud_from_uid db uid) (show_nat uid))"

definition get_home :: "user_db \<Rightarrow> user \<Rightarrow> spawn_error + string" where
  "get_home db u = res_map pw_dir (get_raw_user db u)"

definition get_name :: "user_db \<Rightarrow> user \<Rightarrow> spawn_error + string" where
  "get_name db u = res_map pw_name (get_raw_user db u)"

section \<open>The environment\<close>

definition get_hostname_val :: "process_env \<Rightarrow> string" where
  "get_hostname_val pe =
    (if pe_hostname_is_file pe then unwrap_or (pe_hostname_content pe) ''localhost''
     else unwrap_or (env_var pe ''HOSTNAME'') ''localhost'')"

definition default_path :: string where
  "default_path =
    ''/usr/local/sbin:/usr/local/bin:/usr/sbin:/usr/bin:/sbin:/bin:/usr/games:/usr/local/games''"

text \<open>The map before it is written out as \<open>K=V\<close> strings.\<close>

definition environment_map :: "process_env \<Rightarrow> environment \<Rightarrow> string \<Rightarrow> string \<Rightarrow> (string, string) hmap" where
  "environment_map pe en user_name user_home =
    (let initial = (if en_keep_env en then hm_collect (hm_entries (pe_vars pe)) else hm_empty);
         additional = en_additional en;
         hostname = (''HOSTNAME'', get_hostname_val pe);
         path_env = (''PATH'', unwrap_or (env_var pe ''PATH'') default_path);
         env = hm_collect [hostname, path_env, (''USER'', user_name), (''HOME'', user_home)];
         initial1 = hm_extend initial (hm_entries env);
         initial2 = (case env_var pe ''TERM'' of
             Some t \<Rightarrow> hm_or_insert ''TERM'' t initial1
           | None \<Rightarrow> initial1);
         re_export = hm_collect (List.map_filter
           (\<lambda>key. map_option (\<lambda>value. (key, value)) (env_var pe key)) (en_re_export en));
         initial3 = hm_extend initial2 (hm_entries re_export)
     in fold (\<lambda>(k, v) m. hm_or_insert k v m) (hm_entries initial3) additional)"

definition get_environment :: "process_env \<Rightarrow> environment \<Rightarrow> string \<Rightarrow> string \<Rightarrow> string list" where
  "get_environment pe en user_name user_home =
    map (\<lambda>(k, v). k @ ''='' @ v) (hm_entries (environment_map pe en user_name user_home))"

definition service_get_environment ::
  "process_env \<Rightarrow> user_db \<Rightarrow> service \<Rightarrow> spawn_error + string list" where
  "service_get_environment pe db s =
    res_bind (get_name db (sv_user s)) (\<lambda>user_name.
      res_map (\<lambda>user_home. get_environment pe (sv_environment s) user_name user_home)
        (get_home db (sv_user s)))"

section \<open>Lemmas\<close>

lemma hm_get_fold_or_insert:
  "hm_get (fold (\<lambda>(k, v) m. hm_or_insert k v m) kvs m) k
    = (case hm_get m k of Some v \<Rightarrow> Some v | None \<Rightarrow> map_of kvs k)"
  by (induction kvs arbitrary: m) (auto split: option.splits)

lemma hm_wf_fold_or_insert: "hm_wf m \<Longrightarrow> hm_wf (fold (\<lambda>(k, v) m. hm_or_insert k v m) kvs m)"
  by (induction kvs arbitrary: m) (auto intro: hm_wf_or_insert)

lemma map_of_rev_distinct: "distinct (map fst m) \<Longrightarrow> map_of (rev m) k = map_of m k"
  by (induction m) (auto simp: map_add_def image_iff split: option.splits dest: map_of_SomeD)

lemma map_filter_append: "List.map_filter f (xs @ ys) = List.map_filter f xs @ List.map_filter f ys"
  by (simp add: List.map_filter_def)

lemma map_of_entries: "map_of (hm_entries m) k = hm_get m k"
  by (simp add: hm_entries_def hm_get_def)

lemma map_of_rev_entries: "hm_wf m \<Longrightarrow> map_of (rev (hm_entries m)) k = hm_get m k"
  by (simp add: hm_wf_def hm_entries_def hm_get_def map_of_rev_distinct)

lemma hm_get_collect_entries: "hm_wf m \<Longrightarrow> hm_get (hm_collect (hm_entries m)) k = hm_get m k"
  by (simp only: hm_get_collect map_of_rev_entries)

lemma hm_get_extend_entries:
  "hm_wf e \<Longrightarrow> hm_get (hm_extend m (hm_entries e)) k
    = (case hm_get e k of Some v \<Rightarrow> Some v | None \<Rightarrow> hm_get m k)"
  by (simp only: hm_get_extend map_of_rev_entries split: option.split)

lemma re_export_get:
  "hm_get (hm_collect (List.map_filter (\<lambda>key. map_option (\<lambda>value. (key, value)) (f key)) keys)) k
    = (if k \<in> set keys then f k else None)"
proof -
  have "map_of (rev (List.map_filter (\<lambda>key. map_option (\<lambda>value. (key, value)) (f key)) keys)) k
      = (if k \<in> set keys then f k else None)"
    by (induction keys rule: rev_induct) (auto simp: map_filter_append split: option.splits)
  then show ?thesis by (simp add: hm_get_collect)
qed

lemma predefined_get:
  "hm_get (hm_collect [(''HOSTNAME'', h), (''PATH'', p), (''USER'', u), (''HOME'', d)]) k
    = (if k = ''HOSTNAME'' then Some h else if k = ''PATH'' then Some p else if k = ''USER'' then Some u
       else if k = ''HOME'' then Some d else None)"
  by (simp add: hm_get_collect)

lemma term_get:
  "hm_get (case t of Some t \<Rightarrow> hm_or_insert ''TERM'' t m | None \<Rightarrow> m) k
    = (case hm_get m k of Some v \<Rightarrow> Some v | None \<Rightarrow> if k = ''TERM'' then t else None)"
  by (cases t; cases "hm_get m k") auto

lemma initial_get:
  "hm_wf (pe_vars pe) \<Longrightarrow> hm_get (if b then hm_collect (hm_entries (pe_vars pe)) else hm_empty) k
    = (if b then env_var pe k else None)"
  by (simp add: hm_get_collect_entries env_var_def)

lemma layers:
  "(case a of Some x \<Rightarrow> Some x | None \<Rightarrow>
      (case (if r then v else None) of Some x \<Rightarrow> Some x | None \<Rightarrow>
        (case (case (if h then Some hv else if p then Some pv else if u then Some uv
                     else if d then Some dv else None) of
              Some x \<Rightarrow> Some x | None \<Rightarrow> if keep then v else None) of
          Some x \<Rightarrow> Some x | None \<Rightarrow> if t then v else None)))
    = (case a of Some x \<Rightarrow> Some x | None \<Rightarrow>
        if r \<and> v \<noteq> None then v else if h then Some hv else if p then Some pv else if u then Some uv
        else if d then Some dv else if t \<or> keep then v else None)"
  by (cases a; cases v; simp)

section \<open>Properties\<close>

text \<open>
  C38. The environment of a process holds each variable once, and its value is, in this order of
  precedence: the one given in \<open>additional\<close>, the supervisor's value of a re-exported variable, the
  predefined host name, path, user and home, the supervisor's \<open>TERM\<close>, and, with \<open>keep-env\<close> only, the
  supervisor's value.
\<close>

theorem environment_precedence:
  assumes "hm_wf (pe_vars pe)" and "hm_wf (en_additional en)"
  shows "\<exists>m. get_environment pe en user_name user_home = map (\<lambda>(k, v). k @ ''='' @ v) (hm_entries m)
    \<and> hm_wf m
    \<and> (\<forall>k. hm_get m k =
        (case hm_get (en_additional en) k of
          Some v \<Rightarrow> Some v
        | None \<Rightarrow>
            if k \<in> set (en_re_export en) \<and> env_var pe k \<noteq> None then env_var pe k
            else if k = ''HOSTNAME'' then Some (get_hostname_val pe)
            else if k = ''PATH'' then Some (unwrap_or (env_var pe ''PATH'') default_path)
            else if k = ''USER'' then Some user_name
            else if k = ''HOME'' then Some user_home
            else if k = ''TERM'' \<or> en_keep_env en then env_var pe k
            else None))"
proof (intro exI conjI allI)
  show "get_environment pe en user_name user_home
      = map (\<lambda>(k, v). k @ ''='' @ v) (hm_entries (environment_map pe en user_name user_home))"
    by (simp add: get_environment_def)
  show "hm_wf (environment_map pe en user_name user_home)"
    unfolding environment_map_def Let_def using assms(2) by (rule hm_wf_fold_or_insert)
  have own_term: "(if k = ''TERM'' then env_var pe ''TERM'' else None)
      = (if k = ''TERM'' then env_var pe k else None)" for k by simp
  show "hm_get (environment_map pe en user_name user_home) k =
        (case hm_get (en_additional en) k of
          Some v \<Rightarrow> Some v
        | None \<Rightarrow>
            if k \<in> set (en_re_export en) \<and> env_var pe k \<noteq> None then env_var pe k
            else if k = ''HOSTNAME'' then Some (get_hostname_val pe)
            else if k = ''PATH'' then Some (unwrap_or (env_var pe ''PATH'') default_path)
            else if k = ''USER'' then Some user_name
            else if k = ''HOME'' then Some user_home
            else if k = ''TERM'' \<or> en_keep_env en then env_var pe k
            else None)" for k
    unfolding environment_map_def Let_def hm_get_fold_or_insert map_of_entries
      hm_get_extend_entries [OF hm_wf_collect] term_get initial_get [OF assms(1)] re_export_get
      predefined_get own_term by (rule layers)
qed

definition ex_process_env :: process_env where
  "ex_process_env = \<lparr>pe_vars = [(''LANG'', ''C''), (''PATH'', ''/bin'')], pe_hostname_is_file = False,
     pe_hostname_content = None\<rparr>"

definition ex_environment :: environment where
  "ex_environment = \<lparr>en_keep_env = False, en_re_export = [''LANG''], en_additional = [(''PATH'', ''/opt'')]\<rparr>"

theorem environment_precedence_witness:
  "\<exists>m. get_environment ex_process_env ex_environment ''bob'' ''/home/bob''
      = map (\<lambda>(k, v). k @ ''='' @ v) (hm_entries m)
    \<and> hm_get m ''PATH'' = Some ''/opt'' \<and> hm_get m ''LANG'' = Some ''C'' \<and> hm_get m ''USER'' = Some ''bob''"
proof -
  have wf: "hm_wf (pe_vars ex_process_env)" "hm_wf (en_additional ex_environment)"
    by (simp_all add: hm_wf_def ex_process_env_def ex_environment_def)
  obtain m where m: "get_environment ex_process_env ex_environment ''bob'' ''/home/bob''
      = map (\<lambda>(k, v). k @ ''='' @ v) (hm_entries m)"
    and get: "\<And>k. hm_get m k = (case hm_get (en_additional ex_environment) k of
          Some v \<Rightarrow> Some v
        | None \<Rightarrow>
            if k \<in> set (en_re_export ex_environment) \<and> env_var ex_process_env k \<noteq> None then env_var ex_process_env k
            else if k = ''HOSTNAME'' then Some (get_hostname_val ex_process_env)
            else if k = ''PATH'' then Some (unwrap_or (env_var ex_process_env ''PATH'') default_path)
            else if k = ''USER'' then Some ''bob''
            else if k = ''HOME'' then Some ''/home/bob''
            else if k = ''TERM'' \<or> en_keep_env ex_environment then env_var ex_process_env k
            else None)"
    using environment_precedence [OF wf, of "''bob''" "''/home/bob''"] by blast
  have "hm_get m ''PATH'' = Some ''/opt''" "hm_get m ''LANG'' = Some ''C''" "hm_get m ''USER'' = Some ''bob''"
    unfolding get by (simp_all add: ex_environment_def ex_process_env_def hm_get_def env_var_def)
  with m show ?thesis by blast
qed

text \<open>
  A service gets an environment exactly when its user resolves to an entry of the user database by
  user id; \<open>USER\<close> and \<open>HOME\<close> are those of that entry, so a service configured with a name gets the
  entry of the name's id, which need not bear the name.
\<close>

lemma service_environment_user:
  "service_get_environment pe db s = Inr env \<longleftrightarrow>
    (\<exists>uid pw. ud_from_uid db uid = Inr (Some pw)
      \<and> (case sv_user s of
          Uid u \<Rightarrow> uid = u
        | Name n \<Rightarrow> (\<exists>named. ud_from_name db n = Inr (Some named) \<and> uid = pw_uid named))
      \<and> env = get_environment pe (sv_environment s) (pw_name pw) (pw_dir pw))"
proof -
  have lookup: "lookup_user r who = Inr pw \<longleftrightarrow> r = Inr (Some pw)" for r who pw
    by (auto simp: lookup_user_def split: sum.split option.split)
  show ?thesis
    by (cases "sv_user s") (auto simp: service_get_environment_def get_name_def get_home_def
        get_raw_user_def lookup)
qed

end
