(* ===== verification/Process_Spawner.thy ===== *)
theory Process_Spawner
  imports Healthcheck Environment Signal_Safe Validation
begin

text \<open>
  \<open>supervisor/process_spawner.rs\<close>: the thread that waits for the start delay, the arguments of
  \<open>execve\<close>, the fork, what the child does before \<open>execve\<close>, and the writer of rotated logs. System
  calls are arguments; a child is its descriptor table and the calls that succeeded.
\<close>

section \<open>Arguments of execve\<close>

definition to_cstring :: "string \<Rightarrow> spawn_error + string" where
  "to_cstring s = (if CHR 0x00 \<in> set s then Inl (NulByte s) else Inr s)"

fun to_cstrings :: "string list \<Rightarrow> spawn_error + string list" where
  "to_cstrings [] = Inr []"
| "to_cstrings (s # ss) = res_bind (to_cstring s) (\<lambda>c. res_map (\<lambda>cs. c # cs) (to_cstrings ss))"

text \<open>The outer result is a panic: \<open>chunks.first().unwrap()\<close> of a command with no word.\<close>

definition exec_args ::
  "os \<Rightarrow> process_env \<Rightarrow> user_db \<Rightarrow> service
    \<Rightarrow> (spawn_error + (string \<times> string list \<times> string list)) res" where
  "exec_args os pe db s =
    (case os_shlex_split os (sv_command s) of
      None \<Rightarrow> Inr (Inl (InvalidCommand (sv_command s)))
    | Some [] \<Rightarrow> Inl UnwrapNone
    | Some (program_name # args) \<Rightarrow> Inr (
        res_bind (to_cstrings (program_name # args)) (\<lambda>arg_cstrings.
        res_bind (service_get_environment pe db s) (\<lambda>environment.
        res_bind (to_cstrings environment) (\<lambda>env_cstrings.
        res_bind (resolve_program (os_path_var os) (os_is_file os) program_name) (\<lambda>path.
        res_map (\<lambda>p. (p, arg_cstrings, env_cstrings)) (to_cstring path)))))))"

section \<open>The fork\<close>

datatype fork_result = ForkChild | ForkParent pid | ForkError string

datatype spawn_action =
  StartChunkedWriter service
| ApplyLimits resource_limit service_name pid

datatype spawn_outcome =
  InParent pid "spawn_action list"
| InChild service string string nat "string list" "string list"
    \<comment> \<open>service copy, path, working directory, uid, arguments, environment\<close>

text \<open>\<open>pipe\<close> is the write end of the pipe, or the error of \<open>pipe(2)\<close>.\<close>

definition spawn_process ::
  "os \<Rightarrow> process_env \<Rightarrow> user_db \<Rightarrow> (string + int) \<Rightarrow> fork_result \<Rightarrow> service
    \<Rightarrow> (spawn_error + spawn_outcome) res" where
  "spawn_process os pe db pipe fork service =
    res_map (\<lambda>args.
      res_bind args (\<lambda>(path, arg_cstrings, env_cstrings).
      res_bind (get_uid db (sv_user service)) (\<lambda>uid.
      res_bind
        (if 0 < sv_stdout_rotate_size service
         then (case pipe of Inl err \<Rightarrow> Inl (SystemCall err) | Inr pipe_write \<Rightarrow> Inr (Some pipe_write))
         else Inr None) (\<lambda>pipe_write.
      (case fork of
        ForkChild \<Rightarrow>
          Inr (InChild
            (case pipe_write of None \<Rightarrow> service | Some w \<Rightarrow> service\<lparr>sv_stdout := Pipe w\<rparr>)
            path (sv_working_directory service) uid arg_cstrings env_cstrings)
      | ForkParent child \<Rightarrow>
          Inr (InParent child
            ((if pipe_write = None then [] else [StartChunkedWriter service])
             @ [ApplyLimits (sv_resource_limit service) (sv_name service) child]))
      | ForkError err \<Rightarrow> Inl (SystemCall err))))))
    (exec_args os pe db service)"

section \<open>The spawner thread\<close>

datatype select_arm = Ticked "event list" | TimeoutFired

fun is_shutting_down_ev :: "event \<Rightarrow> bool" where
  "is_shutting_down_ev (ShuttingDownInitiated _) = True"
| "is_shutting_down_ev _ = False"

definition spawned_event :: "service_name \<Rightarrow> spawn_error + pid \<Rightarrow> event" where
  "spawned_event n result =
    (case result of Inr pid \<Rightarrow> new_pid_changed n pid | Inl _ \<Rightarrow> SpawnFailed n)"

text \<open>The event the loop ends with, \<open>None\<close> while it still waits; the arms are the ones \<open>select!\<close> took.\<close>

fun spawner_loop :: "(spawn_error + pid) res \<Rightarrow> service_name \<Rightarrow> select_arm list \<Rightarrow> event option res" where
  "spawner_loop spawn n [] = Inr None"
| "spawner_loop spawn n (Ticked evs # arms) =
    (if list_ex is_shutting_down_ev evs then Inr (Some (SpawnFailed n)) else spawner_loop spawn n arms)"
| "spawner_loop spawn n (TimeoutFired # arms) = res_map (\<lambda>r. Some (spawned_event n r)) spawn"

definition spawn_fork_exec_handler ::
  "(spawn_error + pid) res \<Rightarrow> service \<Rightarrow> duration \<Rightarrow> select_arm list \<Rightarrow> event option res" where
  "spawn_fork_exec_handler spawn service backoff arms =
    res_bind (duration_add (sv_start_delay service) backoff)
      (\<lambda>total_sleep. spawner_loop spawn (sv_name service) arms)"

section \<open>The child\<close>

datatype open_file = OwnStdout | OwnStderr | LogFile string | OtherFile int

datatype syscall =
  OpenLog string | Dup2 int int | Chdir string | Setsid | Setuid nat
| Execve string "string list" "string list"

record child_os =
  co_errno :: "syscall \<Rightarrow> i32 option"   \<comment> \<open>\<open>None\<close>: the call succeeds\<close>
  co_open_fd :: "string \<Rightarrow> int"         \<comment> \<open>descriptor \<open>open\<close> returns\<close>
  co_desc :: "i32 \<Rightarrow> string"

record child =
  ch_fds :: "int \<Rightarrow> open_file"
  ch_calls :: "syscall list"

definition stdout_fd :: int where "stdout_fd = 1"
definition stderr_fd :: int where "stderr_fd = 2"

definition call :: "child_os \<Rightarrow> syscall \<Rightarrow> child \<Rightarrow> i32 + child" where
  "call co c st =
    (case co_errno co c of Some errno \<Rightarrow> Inl errno | None \<Rightarrow> Inr (st\<lparr>ch_calls := ch_calls st @ [c]\<rparr>))"

definition dup2 :: "child_os \<Rightarrow> int \<Rightarrow> int \<Rightarrow> child \<Rightarrow> i32 + child" where
  "dup2 co old new st =
    res_map (\<lambda>st'. st'\<lparr>ch_fds := (ch_fds st')(new := ch_fds st' old)\<rparr>) (call co (Dup2 old new) st)"

definition open_log :: "child_os \<Rightarrow> string \<Rightarrow> child \<Rightarrow> i32 + (int \<times> child)" where
  "open_log co path st =
    res_map (\<lambda>st'. (co_open_fd co path, st'\<lparr>ch_fds := (ch_fds st')(co_open_fd co path := LogFile path)\<rparr>))
      (call co (OpenLog path) st)"

fun redirect_output :: "child_os \<Rightarrow> log_output \<Rightarrow> log_output \<Rightarrow> child \<Rightarrow> i32 + child" where
  "redirect_output co Stdout Stderr st = dup2 co stdout_fd stderr_fd st"
| "redirect_output co Stderr Stdout st = dup2 co stderr_fd stdout_fd st"
| "redirect_output co (Pipe pipe) Stderr st = dup2 co pipe stderr_fd st"
| "redirect_output co (Pipe pipe) Stdout st = dup2 co pipe stdout_fd st"
| "redirect_output co (Path path) Stdout st =
    res_bind (open_log co path st) (\<lambda>(raw_fd, st'). dup2 co raw_fd stdout_fd st')"
| "redirect_output co (Path path) Stderr st =
    res_bind (open_log co path st) (\<lambda>(raw_fd, st'). dup2 co raw_fd stderr_fd st')"
| "redirect_output co target_stream into_output_stream st = Inr st"

definition exec ::
  "child_os \<Rightarrow> string \<Rightarrow> string list \<Rightarrow> string list \<Rightarrow> nat \<Rightarrow> string \<Rightarrow> child \<Rightarrow> i32 + child" where
  "exec co path args env uid cwd st =
    res_bind (call co (Chdir cwd) st) (\<lambda>st.
    res_bind (call co Setsid st) (\<lambda>st.
    res_bind (call co (Setuid uid) st) (\<lambda>st.
    call co (Execve path args env) st)))"

text \<open>A child becomes the program, or exits with a status after printing.\<close>

datatype child_end = Replaced child | ChildExit int child_stderr

definition child_panic :: "child_os \<Rightarrow> string \<Rightarrow> service_name \<Rightarrow> i32 \<Rightarrow> int \<Rightarrow> child_end res" where
  "child_panic co message n errno status =
    res_map (\<lambda>(out, code). ChildExit code out)
      (panic_ssafe message (Some n) errno (co_desc co errno) status \<lparr>ce_open = True, ce_written = []\<rparr>)"

definition child_process_main ::
  "child_os \<Rightarrow> service \<Rightarrow> string \<Rightarrow> string \<Rightarrow> nat \<Rightarrow> string list \<Rightarrow> string list \<Rightarrow> child \<Rightarrow> child_end res" where
  "child_process_main co service path cwd uid args env st =
    (case redirect_output co (sv_stdout service) Stdout st of
      Inl errno \<Rightarrow>
        child_panic co ''child_process_main: Redirect stdout failed.'' (sv_name service) errno 101
    | Inr st1 \<Rightarrow>
        (case redirect_output co (sv_stderr service) Stderr st1 of
          Inl errno \<Rightarrow>
            child_panic co ''child_process_main: Redirect stderr failed.'' (sv_name service) errno 102
        | Inr st2 \<Rightarrow>
            (case exec co path args env uid cwd st2 of
              Inl errno \<Rightarrow>
                child_panic co ''child_process_main: Failed to exec the new process.''
                  (sv_name service) errno 103
            | Inr st3 \<Rightarrow> Inr (Replaced st3))))"

section \<open>Rotated logs\<close>

definition chunk_filename :: "string \<Rightarrow> nat \<Rightarrow> bool \<Rightarrow> u32 \<Rightarrow> string" where
  "chunk_filename base timestamp append_timestamp count =
    (case (append_timestamp, 0 < count) of
      (True, True) \<Rightarrow> base @ ''.'' @ show_nat timestamp @ ''.'' @ show_nat (unat count)
    | (True, False) \<Rightarrow> base @ ''.'' @ show_nat timestamp
    | (False, True) \<Rightarrow> base @ ''.'' @ show_nat (unat count)
    | (False, False) \<Rightarrow> base)"

text \<open>
  The files written in order, each truncated when opened, over what the pipe delivers until its end,
  and whether every file could be opened. A rotation size of zero never ends.
\<close>

partial_function (option) chunk_loop ::
  "(string \<Rightarrow> bool) \<Rightarrow> (u32 \<Rightarrow> string) \<Rightarrow> nat \<Rightarrow> string \<Rightarrow> u32 \<Rightarrow> (bool \<times> (string \<times> string) list) option"
where
  "chunk_loop can_open filename rotate_size input chunk =
    (if \<not> can_open (filename chunk) then Some (False, [])
     else
       let copied = take rotate_size input
       in if length copied < rotate_size then Some (True, [(filename chunk, copied)])
          else Option.bind (chunk_loop can_open filename rotate_size (drop rotate_size input) (chunk + 1))
            (\<lambda>(ok, files). Some (ok, (filename chunk, copied) # files)))"

definition chunked_writer ::
  "(string \<Rightarrow> bool) \<Rightarrow> nat \<Rightarrow> service \<Rightarrow> string \<Rightarrow> (spawn_error + bool \<times> (string \<times> string) list) option"
where
  "chunked_writer can_open timestamp service input =
    (case sv_stdout service of
      Path path \<Rightarrow>
        Option.bind (chunk_loop can_open
            (chunk_filename path timestamp (sv_stdout_should_append_timestamp_to_filename service))
            (sv_stdout_rotate_size service) input 0)
          (\<lambda>r. Some (Inr r))
    | _ \<Rightarrow> Some (Inl LogPathNotSet))"

section \<open>Properties\<close>

lemma call_Inr: "call co c st = Inr st' \<longleftrightarrow> co_errno co c = None \<and> st' = st\<lparr>ch_calls := ch_calls st @ [c]\<rparr>"
  by (auto simp: call_def split: option.splits)

lemma isl_call: "isl (call co c st) \<longleftrightarrow> co_errno co c \<noteq> None"
  by (simp add: call_def split: option.split)

lemma dup2_Inr: "dup2 co old new st = Inr st' \<longleftrightarrow> co_errno co (Dup2 old new) = None
    \<and> st' = st\<lparr>ch_calls := ch_calls st @ [Dup2 old new], ch_fds := (ch_fds st)(new := ch_fds st old)\<rparr>"
  by (auto simp: dup2_def call_Inr)

lemma open_log_Inr: "open_log co path st = Inr (fd, st') \<longleftrightarrow> co_errno co (OpenLog path) = None
    \<and> fd = co_open_fd co path
    \<and> st' = st\<lparr>ch_calls := ch_calls st @ [OpenLog path], ch_fds := (ch_fds st)(fd := LogFile path)\<rparr>"
  by (auto simp: open_log_def call_Inr)

text \<open>Where a stream ends up: \<open>own\<close> is the target that leaves it alone.\<close>

fun stream_target :: "(int \<Rightarrow> open_file) \<Rightarrow> log_output \<Rightarrow> open_file" where
  "stream_target fds Stdout = fds stdout_fd"
| "stream_target fds Stderr = fds stderr_fd"
| "stream_target fds (Path p) = LogFile p"
| "stream_target fds (Pipe fd) = fds fd"

definition log_fds_fresh :: "child_os \<Rightarrow> bool" where
  "log_fds_fresh co \<longleftrightarrow> (\<forall>p. co_open_fd co p \<notin> {stdout_fd, stderr_fd})"

lemma redirect_stdout_fds:
  assumes "redirect_output co target Stdout st = Inr st'" and "log_fds_fresh co"
  shows "ch_fds st' stdout_fd = stream_target (ch_fds st) target"
    "ch_fds st' stderr_fd = ch_fds st stderr_fd"
  using assms by (cases target; fastforce simp: dup2_Inr open_log_Inr log_fds_fresh_def stdout_fd_def stderr_fd_def)+

lemma redirect_stderr_fds:
  assumes "redirect_output co target Stderr st = Inr st'" and "log_fds_fresh co"
  shows "ch_fds st' stderr_fd = stream_target (ch_fds st) target"
    "ch_fds st' stdout_fd = ch_fds st stdout_fd"
  using assms by (cases target; fastforce simp: dup2_Inr open_log_Inr log_fds_fresh_def stdout_fd_def stderr_fd_def)+

lemma exec_Inr:
  "exec co path args env uid cwd st = Inr st' \<longleftrightarrow>
    (\<forall>c \<in> {Chdir cwd, Setsid, Setuid uid, Execve path args env}. co_errno co c = None)
    \<and> st' = st\<lparr>ch_calls := ch_calls st @ [Chdir cwd, Setsid, Setuid uid, Execve path args env]\<rparr>"
  by (auto simp: exec_def call_Inr)

lemma child_panic_exits: "\<exists>out. child_panic co message n errno status = Inr (ChildExit status out)"
  using panic_ssafe_total [of message "Some n" errno "co_desc co errno" status]
  by (auto simp: child_panic_def)

text \<open>
  C34. A child that becomes the service's program has changed to the working directory, left the
  session and dropped to the user, in that order and just before \<open>execve\<close>; its standard output goes to
  the configured target, and its standard error to its own target seen after that redirection: with
  \<open>stderr = STDOUT\<close> both go to the same place, even when \<open>stdout = STDERR\<close>.
\<close>

theorem child_replaced:
  assumes "child_process_main co s path cwd uid args env st = Inr (Replaced st')" and "log_fds_fresh co"
    and "\<nexists>fd. sv_stderr s = Pipe fd"
  shows "(\<exists>before. ch_calls st' = before @ [Chdir cwd, Setsid, Setuid uid, Execve path args env])
    \<and> ch_fds st' stdout_fd = stream_target (ch_fds st) (sv_stdout s)
    \<and> ch_fds st' stderr_fd =
        (case sv_stderr s of
          Stdout \<Rightarrow> stream_target (ch_fds st) (sv_stdout s)
        | target \<Rightarrow> stream_target (ch_fds st) target)"
proof -
  have "child_panic co m n e c \<noteq> Inr (Replaced st')" for m n e c
    using child_panic_exits [of co m n e c] by auto
  with assms(1) obtain st1 st2 where s: "redirect_output co (sv_stdout s) Stdout st = Inr st1"
    "redirect_output co (sv_stderr s) Stderr st1 = Inr st2" "exec co path args env uid cwd st2 = Inr st'"
    by (auto simp: child_process_main_def split: sum.splits)
  note o = redirect_stdout_fds [OF s(1) assms(2)] and e = redirect_stderr_fds [OF s(2) assms(2)]
  from s(3) have st': "st' = st2\<lparr>ch_calls := ch_calls st2 @ [Chdir cwd, Setsid, Setuid uid, Execve path args env]\<rparr>"
    by (simp add: exec_Inr)
  show ?thesis
    using o e assms(3) unfolding st' by (cases "sv_stderr s") auto
qed

text \<open>
  C35. A child never returns to the supervisor's code: it becomes the program, or exits with 101, 102 or
  103 for a failed redirection of standard output, of standard error, or a failed \<open>exec\<close>; the user is
  dropped before the program is entered, so a failed \<open>setuid\<close> never runs it.
\<close>

theorem child_ends:
  "\<exists>end. child_process_main co s path cwd uid args env st = Inr end
    \<and> ((\<exists>st'. end = Replaced st') \<longleftrightarrow>
        (\<exists>st1 st2. redirect_output co (sv_stdout s) Stdout st = Inr st1
          \<and> redirect_output co (sv_stderr s) Stderr st1 = Inr st2
          \<and> (\<forall>c \<in> {Chdir cwd, Setsid, Setuid uid, Execve path args env}. co_errno co c = None)))
    \<and> ((\<nexists>st'. end = Replaced st') \<longrightarrow> (\<exists>code out. end = ChildExit code out \<and> code \<in> {101, 102, 103}))"
proof -
  have exec: "isl (exec co path args env uid cwd st2) \<longleftrightarrow>
      \<not> (\<forall>c \<in> {Chdir cwd, Setsid, Setuid uid, Execve path args env}. co_errno co c = None)" for st2
    by (auto simp: exec_def isl_call)
  show ?thesis
  proof (cases "redirect_output co (sv_stdout s) Stdout st")
    case (Inl e)
    with child_panic_exits [of co "''child_process_main: Redirect stdout failed.''" "sv_name s" e 101]
    show ?thesis by (auto simp: child_process_main_def)
  next
    case r1: (Inr st1)
    show ?thesis
    proof (cases "redirect_output co (sv_stderr s) Stderr st1")
      case (Inl e)
      with r1 child_panic_exits [of co "''child_process_main: Redirect stderr failed.''" "sv_name s" e 102]
      show ?thesis by (auto simp: child_process_main_def)
    next
      case r2: (Inr st2)
      show ?thesis
      proof (cases "exec co path args env uid cwd st2")
        case (Inl e)
        then have "\<not> (\<forall>c \<in> {Chdir cwd, Setsid, Setuid uid, Execve path args env}. co_errno co c = None)"
          using exec [of st2] by simp
        with r1 r2 Inl child_panic_exits [of co "''child_process_main: Failed to exec the new process.''"
            "sv_name s" e 103]
        show ?thesis by (auto simp: child_process_main_def)
      next
        case (Inr st3)
        then have "\<forall>c \<in> {Chdir cwd, Setsid, Setuid uid, Execve path args env}. co_errno co c = None"
          using exec [of st2] by simp
        with r1 r2 Inr show ?thesis by (simp add: child_process_main_def)
      qed
    qed
  qed
qed

definition ex_child_os :: child_os where
  "ex_child_os = \<lparr>co_errno = (\<lambda>_. None), co_open_fd = (\<lambda>_. 3), co_desc = (\<lambda>_. ''error'')\<rparr>"

definition ex_child :: child where
  "ex_child = \<lparr>ch_fds = (\<lambda>fd. if fd = 1 then OwnStdout else if fd = 2 then OwnStderr else OtherFile fd), ch_calls = []\<rparr>"

definition ex_logged :: service where
  "ex_logged = (from_command ''/'' 0 ''web'')\<lparr>sv_stdout := Path ''/log'', sv_stderr := Stdout\<rparr>"

theorem child_replaced_witness:
  "\<exists>st'. child_process_main ex_child_os ex_logged ''/bin/web'' ''/'' 0 [''web''] [] ex_child = Inr (Replaced st')
    \<and> ch_fds st' stdout_fd = LogFile ''/log'' \<and> ch_fds st' stderr_fd = LogFile ''/log''"
proof -
  have "\<exists>st'. child_process_main ex_child_os ex_logged ''/bin/web'' ''/'' 0 [''web''] [] ex_child = Inr (Replaced st')"
    by (simp add: child_process_main_def ex_logged_def ex_child_os_def open_log_def dup2_def call_def exec_def
        from_command_def)
  then obtain st' where
    run: "child_process_main ex_child_os ex_logged ''/bin/web'' ''/'' 0 [''web''] [] ex_child = Inr (Replaced st')" ..
  have "log_fds_fresh ex_child_os"
    by (simp add: log_fds_fresh_def ex_child_os_def stdout_fd_def stderr_fd_def)
  from child_replaced [OF run this] run show ?thesis
    by (auto simp: ex_logged_def)
qed

theorem child_ends_witness:
  "\<exists>code out. child_process_main (ex_child_os\<lparr>co_errno := (\<lambda>c. if c = Setuid 0 then Some 1 else None)\<rparr>)
      ex_logged ''/bin/web'' ''/'' 0 [''web''] [] ex_child = Inr (ChildExit code out) \<and> code \<in> {101, 102, 103}"
proof -
  let ?co = "ex_child_os\<lparr>co_errno := (\<lambda>c. if c = Setuid 0 then Some 1 else None)\<rparr>"
  have "\<not> (\<forall>c \<in> {Chdir ''/'', Setsid, Setuid 0, Execve ''/bin/web'' [''web''] []}. co_errno ?co c = None)"
    by simp
  with child_ends [of ?co ex_logged "''/bin/web''" "''/''" 0 "[''web'']" "[]" ex_child] show ?thesis
    by blast
qed



text \<open>
  A command without a word, such as one of blanks only, passes validation but panics the spawner
  thread: the arguments are indexed before they are counted, and no event reports the failure.
\<close>

lemma blank_command_panics:
  assumes "os_shlex_split os (sv_command s) = Some []" and "sv_command s \<noteq> []"
    and "sv_start_after s = []" and "sv_shutdown_after s = []"
  shows "validate [s] = Inr [s]
    \<and> spawn_process os pe db pipe fork s = Inl UnwrapNone
    \<and> isl (spawn_fork_exec_handler (Inl UnwrapNone) s backoff (TimeoutFired # arms))"
  using assms
  by (simp add: validate_def validate_one_def spawn_process_def exec_args_def
      spawn_fork_exec_handler_def)

lemma chunk_loop_step:
  "can_open (filename chunk) \<Longrightarrow> chunk_loop can_open filename r input chunk =
    (if length input < r then Some (True, [(filename chunk, input)])
     else Option.bind (chunk_loop can_open filename r (drop r input) (chunk + 1))
       (\<lambda>(ok, files). Some (ok, (filename chunk, take r input) # files)))"
  by (subst chunk_loop.simps) (auto simp: Let_def)

lemma chunk_loop_correct:
  assumes "0 < r" and "\<And>c. can_open (filename c)"
  shows "\<exists>files. chunk_loop can_open filename r input chunk = Some (True, files)
    \<and> concat (map snd files) = input
    \<and> length files = length input div r + 1
    \<and> (\<forall>i < length files. length (snd (files ! i)) = (if i < length input div r then r else length input mod r))
    \<and> map fst files = map (\<lambda>i. filename (chunk + of_nat i)) [0..<length files]"
  using assms(1)
proof (induction input arbitrary: chunk rule: measure_induct_rule [where f = length])
  case (less input)
  show ?case
  proof (cases "length input < r")
    case True
    then show ?thesis by (simp add: chunk_loop_step assms(2))
  next
    case False
    then have "length (drop r input) < length input" using less.prems by simp
    from less.IH [OF this less.prems, of "chunk + 1"] obtain files where
      f: "chunk_loop can_open filename r (drop r input) (chunk + 1) = Some (True, files)"
      "concat (map snd files) = drop r input" "length files = length (drop r input) div r + 1"
      "\<forall>i < length files. length (snd (files ! i))
        = (if i < length (drop r input) div r then r else length (drop r input) mod r)"
      "map fst files = map (\<lambda>i. filename (chunk + 1 + of_nat i)) [0..<length files]" by blast
    have d: "length input div r = Suc (length (drop r input) div r)"
      "length input mod r = length (drop r input) mod r"
      using False less.prems by (simp_all add: not_less le_div_geq le_mod_geq)
    have names: "map (\<lambda>i. filename (chunk + of_nat i)) [0..<Suc (length files)]
        = filename chunk # map fst files"
      unfolding f(5) by (simp add: upt_rec [of 0] map_Suc_upt [symmetric] add.assoc del: upt_Suc)
    show ?thesis
      using f False names d
      by (simp add: chunk_loop_step assms(2) nth_Cons' All_less_Suc2 del: upt_Suc)
  qed
qed

lemma chunk_filename_inj:
  "chunk_filename base t b c = chunk_filename base t b d \<longleftrightarrow> c = d"
proof -
  have pos: "0 < x \<longleftrightarrow> x \<noteq> 0" for x :: u32 by (simp add: word_gt_0)
  show ?thesis
    by (cases b; cases "c = 0"; cases "d = 0") (auto simp: chunk_filename_def pos show_nat_inj simp flip: word_unat_eq_iff)
qed

text \<open>
  C37. Rotation loses nothing: over a stream that ends, with every file writable and fewer than \<open>2 ^ 32\<close>
  full chunks, the writer returns, its files have distinct names and, in order, hold the stream; every
  file but the last has exactly the rotation size and the last one less.
\<close>

theorem rotated_log_lossless:
  assumes "sv_stdout s = Path path" and "0 < sv_stdout_rotate_size s" and "\<And>f. can_open f"
    and "length input div sv_stdout_rotate_size s < 2 ^ 32"
  shows "\<exists>files. chunked_writer can_open timestamp s input = Some (Inr (True, files))
    \<and> concat (map snd files) = input \<and> distinct (map fst files)
    \<and> length files = length input div sv_stdout_rotate_size s + 1
    \<and> (\<forall>i < length input div sv_stdout_rotate_size s. length (snd (files ! i)) = sv_stdout_rotate_size s)
    \<and> length (snd (last files)) < sv_stdout_rotate_size s"
proof -
  let ?r = "sv_stdout_rotate_size s"
  let ?name = "chunk_filename path timestamp (sv_stdout_should_append_timestamp_to_filename s)"
  from chunk_loop_correct [where r = ?r and filename = ?name and input = input and chunk = 0
      and can_open = can_open, OF assms(2,3)] obtain files where
    f: "chunk_loop can_open ?name ?r input 0 = Some (True, files)" "concat (map snd files) = input"
    "length files = length input div ?r + 1"
    "\<forall>i < length files. length (snd (files ! i)) = (if i < length input div ?r then ?r else length input mod ?r)"
    "map fst files = map (\<lambda>i. ?name (0 + of_nat i)) [0..<length files]" by blast
  have "inj_on (\<lambda>i. ?name (0 + of_nat i)) (set [0..<length files])"
  proof (rule inj_onI)
    fix i j
    assume "i \<in> set [0..<length files]" "j \<in> set [0..<length files]"
      and "?name (0 + of_nat i) = ?name (0 + of_nat j)"
    then have lim: "i < 2 ^ 32" "j < 2 ^ 32" and eq: "(of_nat i :: u32) = of_nat j"
      using assms(4) by (auto simp: f(3) chunk_filename_inj)
    from lim have "unat (of_nat i :: u32) = i" "unat (of_nat j :: u32) = j"
      by (simp_all add: unat_of_nat take_bit_eq_mod)
    with eq show "i = j" by metis
  qed
  then have "distinct (map fst files)"
    unfolding f(5) by (simp add: distinct_map)
  moreover have "last files = files ! (length input div ?r)"
    using f(3) by (metis add_diff_cancel_right' last_conv_nth length_0_conv add_is_0 one_neq_zero)
  ultimately show ?thesis
    using f assms(1,2) by (simp add: chunked_writer_def)
qed

theorem rotated_log_lossless_witness:
  "\<exists>files. chunked_writer (\<lambda>_. True) 0 ((from_command ''/'' 0 ''true'')
      \<lparr>sv_stdout := Path ''/tmp/log'', sv_stdout_rotate_size := 2\<rparr>) ''abcde'' = Some (Inr (True, files))
    \<and> concat (map snd files) = ''abcde'' \<and> length files = 3"
  using rotated_log_lossless [of "(from_command ''/'' 0 ''true'')
      \<lparr>sv_stdout := Path ''/tmp/log'', sv_stdout_rotate_size := 2\<rparr>" "''/tmp/log''" "\<lambda>_. True" "''abcde''" 0]
  by auto

text \<open>
  Rotation is only for a file: with a rotation size and standard output left on \<open>STDOUT\<close> the child
  writes into the pipe, but the writer thread gives up at once, so nobody reads what the service
  prints.
\<close>

lemma rotation_without_file:
  assumes "0 < sv_stdout_rotate_size s" and "sv_stdout s = Stdout"
    and "spawn_process os pe db (Inr w) ForkChild s = Inr (Inr (InChild s' path cwd uid args env))"
  shows "sv_stdout s' = Pipe w
    \<and> spawn_process os pe db (Inr w) (ForkParent p) s
        = Inr (Inr (InParent p [StartChunkedWriter s, ApplyLimits (sv_resource_limit s) (sv_name s) p]))
    \<and> chunked_writer can_open timestamp s input = Some (Inl LogPathNotSet)"
  using assms
  by (auto simp: spawn_process_def chunked_writer_def eq_commute [of "Inr x" "res_bind r f" for x r f])

end
