(* ===== verification/Loader.thy ===== *)
theory Loader
  imports Validation
begin

text \<open>
  From the command line to the services: \<open>horust/mod.rs\<close> (loading service files), \<open>horust_config.rs\<close>
  and \<open>main.rs\<close>. The file system, the \<open>shellexpand\<close> crate and the TOML reader that serde derives for a
  service are arguments.
\<close>

section \<open>Paths\<close>

text \<open>
  \<open>Path::file_name\<close> and \<open>Path::extension\<close>: the last component, where empty components and \<open>.\<close> do not
  count and \<open>..\<close> is no name, and what follows its last dot unless the name starts there.
\<close>

definition file_name :: "string \<Rightarrow> string option" where
  "file_name p =
    (case rev (filter (\<lambda>f. f \<noteq> [] \<and> f \<noteq> ''.'') (split_on CHR ''/'' p)) of
      [] \<Rightarrow> None
    | f # _ \<Rightarrow> if f = ''..'' then None else Some f)"

definition extension :: "string \<Rightarrow> string option" where
  "extension p =
    Option.bind (file_name p) (\<lambda>f.
      let after = takeWhile (\<lambda>c. c \<noteq> CHR ''.'') (rev f);
          before = drop (length after + 1) (rev f)
      in if CHR ''.'' \<in> set f \<and> before \<noteq> [] then Some (rev after) else None)"

section \<open>Service files\<close>

record load_os =
  lo_is_file :: "string \<Rightarrow> bool"
  lo_read_dir :: "string \<Rightarrow> string + string option list"  \<comment> \<open>\<open>None\<close>: an entry that cannot be read\<close>
  lo_read_to_string :: "string \<Rightarrow> string + string"
  lo_shellexpand :: "string \<Rightarrow> string + string"
  lo_from_toml :: "string \<Rightarrow> string + service"

text \<open>\<open>Service::from_str\<close> and \<open>Service::from_file\<close>: the text is expanded from the environment, then parsed.\<close>

definition service_from_str :: "load_os \<Rightarrow> string \<Rightarrow> string + service" where
  "service_from_str lo s = res_bind (lo_shellexpand lo s) (lo_from_toml lo)"

definition service_from_file :: "load_os \<Rightarrow> string \<Rightarrow> string + service" where
  "service_from_file lo path =
    res_bind (lo_read_to_string lo path) (\<lambda>preconfig.
    res_bind (lo_shellexpand lo preconfig) (\<lambda>postconfig. lo_from_toml lo postconfig))"

definition is_toml_file :: "load_os \<Rightarrow> string \<Rightarrow> bool" where
  "is_toml_file lo path \<longleftrightarrow>
    lo_is_file lo path \<and> ends_with (case extension path of None \<Rightarrow> [] | Some e \<Rightarrow> e) ''toml''"

text \<open>\<open>filter_map(Result::ok)\<close>, one element.\<close>

definition result_ok :: "'e + 'a \<Rightarrow> 'a list" where
  "result_ok r = (case r of Inl _ \<Rightarrow> [] | Inr x \<Rightarrow> [x])"

text \<open>The outer result is a panic: the \<open>unwrap\<close> of the file name.\<close>

definition load_service :: "load_os \<Rightarrow> string \<Rightarrow> (string + service) res" where
  "load_service lo path =
    (case service_from_file lo path of
      Inl error \<Rightarrow> Inr (Inl (''Failed loading toml file: '' @ path @ '': '' @ error))
    | Inr service \<Rightarrow>
        if sv_name service = [] then
          res_map (\<lambda>filename. Inr (service\<lparr>sv_name := filename\<rparr>)) (ok_or UnwrapNone (file_name path))
        else Inr (Inr service))"

definition directory_paths :: "load_os \<Rightarrow> string \<Rightarrow> string + string list" where
  "directory_paths lo path =
    (if lo_is_file lo path then Inr [path]
     else res_map (List.map_filter (\<lambda>e. e)) (lo_read_dir lo path))"

definition fetch_services :: "load_os \<Rightarrow> string \<Rightarrow> (string + service list) res" where
  "fetch_services lo path =
    (case directory_paths lo path of
      Inl err \<Rightarrow> Inr (Inl err)
    | Inr paths \<Rightarrow>
        res_map Inr (flat_map_res
          (\<lambda>p. res_map result_ok (load_service lo p))
          (filter (is_toml_file lo) paths)))"

text \<open>\<open>collect\<close> into a \<open>Result\<close> ends at the first directory that cannot be read.\<close>

fun load_services_from_folders :: "load_os \<Rightarrow> string list \<Rightarrow> (string + service list) res" where
  "load_services_from_folders lo [] = Inr (Inr [])"
| "load_services_from_folders lo (path # paths) =
    res_bind (fetch_services lo path) (\<lambda>fetched.
      (case fetched of
        Inl err \<Rightarrow> Inr (Inl err)
      | Inr services \<Rightarrow>
          res_map (res_map (\<lambda>more. services @ more)) (load_services_from_folders lo paths)))"

datatype start_error =
  LoadError string | ValidationErrors "validation_error list" | ConfigError string | FolderError string

definition from_services_dirs :: "load_os \<Rightarrow> string list \<Rightarrow> (start_error + service list) res" where
  "from_services_dirs lo paths =
    res_map (\<lambda>loaded. case loaded of
        Inl err \<Rightarrow> Inl (LoadError err)
      | Inr services \<Rightarrow>
          (case validate services of Inl errors \<Rightarrow> Inl (ValidationErrors errors) | Inr ok \<Rightarrow> Inr ok))
      (load_services_from_folders lo paths)"

section \<open>Configuration\<close>

record horust_config =
  hc_unsuccessful_exit_finished_failed :: bool

text \<open>\<open>file\<close>: \<open>None\<close> when there is no configuration file, else what reading and parsing it gave.\<close>

definition load_and_merge ::
  "horust_config \<Rightarrow> (string + horust_config) option \<Rightarrow> string + horust_config" where
  "load_and_merge cmd_line file =
    res_map (\<lambda>config_file.
        \<lparr>hc_unsuccessful_exit_finished_failed =
           hc_unsuccessful_exit_finished_failed cmd_line \<or> hc_unsuccessful_exit_finished_failed config_file\<rparr>)
      (case file of None \<Rightarrow> Inr \<lparr>hc_unsuccessful_exit_finished_failed = False\<rparr> | Some r \<Rightarrow> r)"

section \<open>main\<close>

record opts =
  op_config :: horust_config
  op_sample_service :: bool
  op_services_paths :: "string list"
  op_command :: "string list"

record main_os =
  mo_load :: load_os
  mo_config_file :: "(string + horust_config) option"
  mo_uds_folder_exists :: bool
  mo_create_uds_folder :: "string option"     \<comment> \<open>the error of \<open>create_dir_all\<close>\<close>
  mo_uds_folder_is_dir :: bool
  mo_current_dir :: string
  mo_uid :: nat

text \<open>The services \<open>main\<close> runs, or why it does not.\<close>

definition select_services :: "main_os \<Rightarrow> opts \<Rightarrow> (start_error + service list) res" where
  "select_services mo opts =
    (if op_command opts = [] then from_services_dirs (mo_load mo) (op_services_paths opts)
     else Inr (Inr [from_command (mo_current_dir mo) (mo_uid mo) (join_strings '' '' (op_command opts))]))"

datatype main_end = ExitCode int | MainError start_error | PrintedSample

definition main :: "main_os \<Rightarrow> (service list \<Rightarrow> exit_status) \<Rightarrow> opts \<Rightarrow> main_end res" where
  "main mo run_horust opts =
    (if op_sample_service opts then Inr PrintedSample
     else (case load_and_merge (op_config opts) (mo_config_file mo) of
         Inl err \<Rightarrow> Inr (MainError (ConfigError err))
       | Inr config \<Rightarrow>
           if \<not> mo_uds_folder_exists mo \<and> mo_create_uds_folder mo \<noteq> None
           then Inr (MainError (FolderError (the (mo_create_uds_folder mo))))
           else if \<not> mo_uds_folder_is_dir mo then Inl ExplicitPanic
           else res_map (\<lambda>selected. case selected of
               Inl err \<Rightarrow> MainError err
             | Inr services \<Rightarrow>
                 (case run_horust services of
                   SomeServiceFailed \<Rightarrow>
                     ExitCode (if hc_unsuccessful_exit_finished_failed config then 101 else 0)
                 | Successful \<Rightarrow> ExitCode 0))
             (select_services mo opts)))"

definition display_directories :: "string list \<Rightarrow> string" where
  "display_directories dirs =
    (case dirs of
      [d] \<Rightarrow> ''directory: '' @ d
    | _ \<Rightarrow> ''directories:'' @ [CHR 10] @ join_strings [CHR 10] (map (\<lambda>d. ''* '' @ d) dirs))"

section \<open>Properties\<close>

lemma result_ok_mem [simp]: "x \<in> set (result_ok r) \<longleftrightarrow> r = Inr x"
  by (auto simp: result_ok_def split: sum.split)

lemma fetch_services_mem:
  assumes "fetch_services lo path = Inr (Inr services)" and "directory_paths lo path = Inr paths"
  shows "s \<in> set services \<longleftrightarrow> (\<exists>p \<in> set paths. is_toml_file lo p \<and> load_service lo p = Inr (Inr s))"
proof -
  from assms have f: "flat_map_res (\<lambda>p. res_map result_ok (load_service lo p))
      (filter (is_toml_file lo) paths) = Inr services"
    by (simp add: fetch_services_def)
  have "(\<exists>zs. res_map result_ok (load_service lo p) = Inr zs \<and> s \<in> set zs)
      \<longleftrightarrow> load_service lo p = Inr (Inr s)" for p
    by auto
  then show ?thesis
    unfolding flat_map_res_Inr_set [OF f] by auto
qed

definition named :: "service \<Rightarrow> string \<Rightarrow> service" where
  "named t p = (if sv_name t = [] then t\<lparr>sv_name := the (file_name p)\<rparr> else t)"

lemma load_service_iff:
  "load_service lo p = Inr (Inr s) \<longleftrightarrow> (\<exists>t. service_from_file lo p = Inr t
      \<and> s = named t p \<and> (sv_name t = [] \<longrightarrow> file_name p \<noteq> None))"
proof (cases "service_from_file lo p")
  case (Inl e)
  then show ?thesis by (simp add: load_service_def)
next
  case (Inr t)
  then show ?thesis
    by (cases "sv_name t = []"; cases "file_name p")
      (simp_all add: load_service_def named_def eq_commute [of s])
qed

lemma service_from_file_str:
  "service_from_file lo path = res_bind (lo_read_to_string lo path) (service_from_str lo)"
  by (cases "lo_read_to_string lo path") (simp_all add: service_from_file_def service_from_str_def)

lemma file_name_nonempty: "file_name p = Some f \<Longrightarrow> f \<noteq> []"
proof -
  assume "file_name p = Some f"
  then have "f \<in> set (rev (filter (\<lambda>f. f \<noteq> [] \<and> f \<noteq> ''.'') (split_on CHR ''/'' p)))"
    by (auto simp: file_name_def simp del: set_rev split: list.splits if_splits)
  then show ?thesis by simp
qed

lemma named_nonempty: "sv_name t = [] \<longrightarrow> file_name p \<noteq> None \<Longrightarrow> sv_name (named t p) \<noteq> []"
  by (auto simp: named_def dest: file_name_nonempty)

text \<open>
  A directory yields exactly the services of its readable TOML files that parse, each with a name:
  the one in the file, or the file's own name when the file gives none.
\<close>

lemma fetched_services:
  assumes "fetch_services lo path = Inr (Inr services)" and "directory_paths lo path = Inr paths"
  shows "(\<forall>s \<in> set services. sv_name s \<noteq> [])
    \<and> (\<forall>s. s \<in> set services \<longleftrightarrow> (\<exists>p \<in> set paths. is_toml_file lo p \<and>
        (\<exists>t. service_from_file lo p = Inr t \<and> s = named t p \<and> (sv_name t = [] \<longrightarrow> file_name p \<noteq> None))))"
proof -
  have "s \<in> set services \<longleftrightarrow> (\<exists>p \<in> set paths. is_toml_file lo p \<and>
      (\<exists>t. service_from_file lo p = Inr t \<and> s = named t p \<and> (sv_name t = [] \<longrightarrow> file_name p \<noteq> None)))" for s
    unfolding fetch_services_mem [OF assms] load_service_iff ..
  then show ?thesis using named_nonempty by metis
qed

text \<open>
  \<open>main\<close> exits with 101 exactly when the flag is set, on the command line or in the configuration
  file, and the run reports a failed service; otherwise a run ends with 0. A broken configuration file
  is an error even when the command line sets the flag.
\<close>

lemma main_exit_code:
  assumes "\<not> op_sample_service opts" and "mo_uds_folder_exists mo" and "mo_uds_folder_is_dir mo"
    and "select_services mo opts = Inr (Inr services)"
  shows "main mo run_horust opts = Inr (case mo_config_file mo of
      Some (Inl err) \<Rightarrow> MainError (ConfigError err)
    | file \<Rightarrow> ExitCode
        (if run_horust services = SomeServiceFailed
            \<and> (hc_unsuccessful_exit_finished_failed (op_config opts)
               \<or> (\<exists>c. file = Some (Inr c) \<and> hc_unsuccessful_exit_finished_failed c))
         then 101 else 0))"
  using assms
  by (auto simp: main_def load_and_merge_def split: option.split sum.split exit_status.split)

text \<open>
  In single-command mode the words of the command line are joined with blanks, so the boundaries of
  the arguments are lost: a quoted argument with a blank gives the same service as two arguments.
\<close>

lemma command_words_merged:
  "select_services mo (opts\<lparr>op_command := [prog, a @ '' '' @ b]\<rparr>)
    = select_services mo (opts\<lparr>op_command := [prog, a, b]\<rparr>)"
  by (simp add: select_services_def)

end
