(* ===== verification/Handler_Tests.thy ===== *)
theory Handler_Tests
  imports Supervisor "HOL-Library.Code_Target_Nat"
begin

text \<open>
  The repository's unit tests of \<open>supervisor/service_handler.rs\<close> and the helpers they share
  (\<open>supervisor/mod.rs\<close>, \<open>formats/service.rs\<close>), run on the model. A test is a predicate over what the test
  process finds outside: its working directory and user (\<open>Service::default()\<close> reads them), the clock
  and its own process id. Where a test reads a service file, the definition has the service the
  file denotes. A failing \<open>assert\<close> and a panic make a test false.
\<close>

section \<open>Helpers of the tests\<close>

definition service_start_after :: "string \<Rightarrow> nat \<Rightarrow> service_name \<Rightarrow> service_name list \<Rightarrow> service" where
  "service_start_after dir uid n deps = (default_service dir uid)\<lparr>sv_name := n, sv_start_after := deps\<rparr>"

definition service_shutdown_after :: "string \<Rightarrow> nat \<Rightarrow> service_name \<Rightarrow> service_name list \<Rightarrow> service" where
  "service_shutdown_after dir uid n deps = (default_service dir uid)\<lparr>sv_name := n, sv_shutdown_after := deps\<rparr>"

definition service_from_name :: "string \<Rightarrow> nat \<Rightarrow> service_name \<Rightarrow> service" where
  "service_from_name dir uid n = service_start_after dir uid n []"

definition make_handler :: "string \<Rightarrow> nat \<Rightarrow> service_name \<Rightarrow> service_status \<Rightarrow> service_handler" where
  "make_handler dir uid n status = (handler_of (service_from_name dir uid n))\<lparr>sh_status := status\<rparr>"

definition make_repo_from_services :: "service list \<Rightarrow> repo" where
  "make_repo_from_services services = repo_new services"

text \<open>\<open>repo.services.get_mut(n).unwrap()\<close>, changed in place.\<close>

definition modify_sh :: "service_name \<Rightarrow> (service_handler \<Rightarrow> service_handler) \<Rightarrow> repo \<Rightarrow> repo res" where
  "modify_sh n f repo = res_map (\<lambda>sh. insert_sh_by_name n (f sh) repo) (get_sh repo n)"

fun set_statuses :: "(service_name \<times> service_status) list \<Rightarrow> repo \<Rightarrow> repo res" where
  "set_statuses [] repo = Inr repo"
| "set_statuses ((n, status) # rest) repo =
    res_bind (modify_sh n (\<lambda>sh. sh\<lparr>sh_status := status\<rparr>) repo) (set_statuses rest)"

definition make_repo :: "string \<Rightarrow> nat \<Rightarrow> (service_name \<times> service_status) list \<Rightarrow> repo res" where
  "make_repo dir uid services_with_status =
    set_statuses services_with_status
      (repo_new (map (\<lambda>(n, _). service_from_name dir uid n) services_with_status))"

definition make_repo_with_start_after ::
  "string \<Rightarrow> nat \<Rightarrow> (service_name \<times> service_status \<times> service_name list) list \<Rightarrow> repo res" where
  "make_repo_with_start_after dir uid services =
    set_statuses (map (\<lambda>(n, status, _). (n, status)) services)
      (repo_new (map (\<lambda>(n, _, deps). (service_from_name dir uid n)\<lparr>sv_start_after := deps\<rparr>) services))"

text \<open>\<open>repo.services.get(n).unwrap().next(&repo, lifecycle)\<close>.\<close>

definition next_of :: "instant \<Rightarrow> lifecycle_status \<Rightarrow> service_name \<Rightarrow> repo \<Rightarrow> event list res" where
  "next_of now lifecycle n repo = res_bind (get_sh repo n) (\<lambda>sh. next_evs now sh repo lifecycle)"

section \<open>Restart, forced kill, failure\<close>

definition test_handle_restart_strategy :: "string \<Rightarrow> nat \<Rightarrow> bool" where
  "test_handle_restart_strategy dir uid \<longleftrightarrow>
    list_all (\<lambda>(has_failed, strategy, expected).
        handle_restart_strategy
          (handler_of ((service_from_toml_command dir uid ''Not relevant'')
            \<lparr>sv_name := ''servicename'', sv_restart := default_restart\<lparr>rs_strategy := strategy\<rparr>\<rparr>))
          has_failed = new_status_update ''servicename'' expected)
      [(False, Always, Initial), (True, Always, Initial), (True, OnFailure, Initial),
       (False, OnFailure, Finished), (True, Never, FinishedFailed), (False, Never, Finished)]"

text \<open>The clock starts late enough for 20 seconds to be subtracted from it.\<close>

definition test_should_force_kill :: "string \<Rightarrow> nat \<Rightarrow> instant \<Rightarrow> pid \<Rightarrow> bool" where
  "test_should_force_kill dir uid t this_pid \<longleftrightarrow>
    (let now = from_secs 20 + t;
         sh0 = handler_of ((service_from_toml_command dir uid ''notrelevant'')
           \<lparr>sv_termination := default_termination\<lparr>tm_wait := from_secs 10\<rparr>\<rparr>);
         sh1 = (shutting_down_started now sh0)\<lparr>sh_status := InKilling\<rparr>;
         old_start = sh_shutting_down_start sh1;
         past_wait = map_option (\<lambda>start. start - from_secs 20) old_start;
         sh2 = sh1\<lparr>sh_shutting_down_start := past_wait\<rparr>;
         sh3 = sh2\<lparr>sh_pid := Some this_pid, sh_shutting_down_start := old_start\<rparr>;
         sh4 = sh3\<lparr>sh_shutting_down_start := past_wait\<rparr>
     in \<not> should_force_kill now sh0 None \<and> \<not> should_force_kill now sh1 None
        \<and> \<not> should_force_kill now sh2 None \<and> \<not> should_force_kill now sh3 None
        \<and> should_force_kill now sh4 None)"

definition test_should_force_kill_forceful_shutdown :: "string \<Rightarrow> nat \<Rightarrow> instant \<Rightarrow> pid \<Rightarrow> bool" where
  "test_should_force_kill_forceful_shutdown dir uid now this_pid \<longleftrightarrow>
    (let sh = (handler_of (service_from_toml_command dir uid ''x''))\<lparr>sh_pid := Some this_pid, sh_status := InKilling\<rparr>
     in should_force_kill now sh (Some Forcefully)
        \<and> \<not> should_force_kill now (sh\<lparr>sh_pid := None\<rparr>) (Some Forcefully))"

definition test_handle_failed_service :: "string \<Rightarrow> nat \<Rightarrow> bool" where
  "test_handle_failed_service dir uid \<longleftrightarrow>
    (let service = service_from_name dir uid ''b'';
         with_strategy = (\<lambda>strategy. service\<lparr>sv_failure := (sv_failure service)\<lparr>fl_strategy := strategy\<rparr>\<rparr>)
     in handle_failed_service [''a''] service = []
        \<and> handle_failed_service [''a''] (with_strategy KillDependents)
            = [new_status_update ''a'' InKilling, Kill ''a'']
        \<and> handle_failed_service [''a''] (with_strategy Shutdown) = [ShuttingDownInitiated Gracefully])"

section \<open>Status changes\<close>

definition test_valid_transitions :: "string \<Rightarrow> nat \<Rightarrow> bool" where
  "test_valid_transitions dir uid \<longleftrightarrow>
    list_all (\<lambda>(current, next, expected).
        let (new_sh, new_status) = change_status (make_handler dir uid ''svc'' current) next
        in new_status = expected \<and> sh_status new_sh = expected)
      [(Success, Initial, Initial), (Failed, Initial, Initial), (Initial, Starting, Starting),
       (Starting, Started, Started), (Started, Running, Running), (Running, Success, Success),
       (Running, Failed, Failed), (Success, Finished, Finished), (Initial, Finished, Finished),
       (Running, InKilling, InKilling), (Starting, InKilling, InKilling), (Started, InKilling, InKilling),
       (Starting, FinishedFailed, FinishedFailed), (Started, FinishedFailed, FinishedFailed),
       (Failed, FinishedFailed, FinishedFailed), (InKilling, FinishedFailed, FinishedFailed),
       (InKilling, Success, Success), (InKilling, Failed, Failed)]"

definition test_invalid_transitions_leave_status_unchanged :: "string \<Rightarrow> nat \<Rightarrow> bool" where
  "test_invalid_transitions_leave_status_unchanged dir uid \<longleftrightarrow>
    list_all (\<lambda>(current, next). snd (change_status (make_handler dir uid ''svc'' current) next) = current)
      [(Initial, Running), (Initial, Failed), (Finished, Starting), (Finished, Initial),
       (FinishedFailed, Initial), (Running, Initial), (Running, Starting), (Running, Started),
       (Success, Starting)]"

definition test_same_status_transition_is_noop :: "string \<Rightarrow> nat \<Rightarrow> bool" where
  "test_same_status_transition_is_noop dir uid \<longleftrightarrow>
    list_all (\<lambda>status.
        let (new_sh, new_status) = change_status (make_handler dir uid ''svc'' status) status
        in new_status = status \<and> sh_status new_sh = status)
      [Initial, Starting, Started, Running, InKilling, Success, Failed, Finished, FinishedFailed]"

definition test_in_killing_from_initial_becomes_success :: "string \<Rightarrow> nat \<Rightarrow> bool" where
  "test_in_killing_from_initial_becomes_success dir uid \<longleftrightarrow>
    (let (new_sh, new_status) = change_status (make_handler dir uid ''svc'' Initial) InKilling
     in new_status = Success \<and> sh_status new_sh = Success)"

definition test_started_transition_resets_restart_attempts :: "string \<Rightarrow> nat \<Rightarrow> bool" where
  "test_started_transition_resets_restart_attempts dir uid \<longleftrightarrow>
    (let (new_sh, new_status) = change_status ((make_handler dir uid ''svc'' Starting)\<lparr>sh_restart_attempts := 5\<rparr>) Started
     in new_status = Started \<and> sh_restart_attempts new_sh = 0)"

definition test_non_started_transition_preserves_restart_attempts :: "string \<Rightarrow> nat \<Rightarrow> bool" where
  "test_non_started_transition_preserves_restart_attempts dir uid \<longleftrightarrow>
    sh_restart_attempts (fst (change_status ((make_handler dir uid ''svc'' Started)\<lparr>sh_restart_attempts := 3\<rparr>) Running)) = 3"

section \<open>Health checks and restart attempts\<close>

definition test_add_healthcheck_healthy_while_running :: "string \<Rightarrow> nat \<Rightarrow> bool" where
  "test_add_healthcheck_healthy_while_running dir uid \<longleftrightarrow>
    sh_healthiness_checks_failed (add_healthcheck_event (make_handler dir uid ''svc'' Running) Healthy) = Some 0"

definition test_add_healthcheck_event :: "string \<Rightarrow> nat \<Rightarrow> bool" where
  "test_add_healthcheck_event dir uid \<longleftrightarrow>
    (let sh1 = add_healthcheck_event (make_handler dir uid ''svc'' Running) Unhealthy;
         sh2 = add_healthcheck_event sh1 Unhealthy;
         sh3 = add_healthcheck_event sh2 Healthy;
         initial = add_healthcheck_event (make_handler dir uid ''svc'' Initial) Unhealthy
     in sh_healthiness_checks_failed sh1 = Some 1 \<and> sh_healthiness_checks_failed sh2 = Some 2
        \<and> sh_healthiness_checks_failed sh3 = Some 2 \<and> sh_healthiness_checks_failed initial = Some 0
        \<and> list_all (\<lambda>status. sh_healthiness_checks_failed
              (add_healthcheck_event (make_handler dir uid ''svc'' status) Unhealthy) = Some 1)
            [Running, Started, Starting])"

definition test_has_some_failed_healthchecks :: "string \<Rightarrow> nat \<Rightarrow> bool" where
  "test_has_some_failed_healthchecks dir uid \<longleftrightarrow>
    (let sh = make_handler dir uid ''svc'' Running
     in has_some_failed_healthchecks sh
        \<and> \<not> has_some_failed_healthchecks (sh\<lparr>sh_healthiness_checks_failed := Some 0\<rparr>)
        \<and> has_some_failed_healthchecks (sh\<lparr>sh_healthiness_checks_failed := Some 3\<rparr>))"

definition test_restart_attempts_are_over :: "string \<Rightarrow> nat \<Rightarrow> bool" where
  "test_restart_attempts_are_over dir uid \<longleftrightarrow>
    (let five = handler_of ((service_from_toml_command dir uid ''test'')
           \<lparr>sv_restart := default_restart\<lparr>rs_attempts := 5\<rparr>\<rparr>)
     in restart_attempts_are_over (handler_of (service_from_name dir uid ''svc''))
        \<and> \<not> restart_attempts_are_over (five\<lparr>sh_restart_attempts := 3\<rparr>)
        \<and> restart_attempts_are_over (five\<lparr>sh_restart_attempts := 6\<rparr>))"

section \<open>The events of a service\<close>

definition test_next_initial_runnable_emits_run :: "string \<Rightarrow> nat \<Rightarrow> instant \<Rightarrow> bool" where
  "test_next_initial_runnable_emits_run dir uid now \<longleftrightarrow>
    res_bind (make_repo dir uid [(''svc'', Initial)])
      (next_of now LRunning ''svc'') = Inr [Run ''svc'']"

definition test_next_initial_deps_not_met_emits_nothing :: "string \<Rightarrow> nat \<Rightarrow> instant \<Rightarrow> bool" where
  "test_next_initial_deps_not_met_emits_nothing dir uid now \<longleftrightarrow>
    res_bind (make_repo_with_start_after dir uid [(''dep'', Initial, []), (''svc'', Initial, [''dep''])])
      (next_of now LRunning ''svc'') = Inr []"

definition test_next_initial_deps_met_emits_run :: "string \<Rightarrow> nat \<Rightarrow> instant \<Rightarrow> bool" where
  "test_next_initial_deps_met_emits_run dir uid now \<longleftrightarrow>
    res_bind (make_repo_with_start_after dir uid [(''dep'', Running, []), (''svc'', Initial, [''dep''])])
      (next_of now LRunning ''svc'') = Inr [Run ''svc'']"

definition test_next_started_no_failed_healthchecks_becomes_running :: "string \<Rightarrow> nat \<Rightarrow> instant \<Rightarrow> bool" where
  "test_next_started_no_failed_healthchecks_becomes_running dir uid now \<longleftrightarrow>
    res_bind (res_bind (make_repo dir uid [(''svc'', Started)]) (modify_sh ''svc'' (\<lambda>sh. sh\<lparr>sh_healthiness_checks_failed := Some 0\<rparr>)))
      (next_of now LRunning ''svc'') = Inr [new_status_update ''svc'' Running]"

definition test_next_started_with_failed_healthchecks_stays :: "string \<Rightarrow> nat \<Rightarrow> instant \<Rightarrow> bool" where
  "test_next_started_with_failed_healthchecks_stays dir uid now \<longleftrightarrow>
    res_bind (make_repo dir uid [(''svc'', Started)])
      (next_of now LRunning ''svc'') = Inr []"

definition test_next_running_healthchecks_exceeded_kills :: "string \<Rightarrow> nat \<Rightarrow> instant \<Rightarrow> bool" where
  "test_next_running_healthchecks_exceeded_kills dir uid now \<longleftrightarrow>
    res_bind (res_bind (make_repo dir uid [(''svc'', Running)]) (modify_sh ''svc'' (\<lambda>sh. sh\<lparr>sh_healthiness_checks_failed := Some 4\<rparr>)))
      (next_of now LRunning ''svc'') = Inr [new_status_update ''svc'' InKilling, Kill ''svc'']"

definition test_next_running_healthchecks_ok_emits_nothing :: "string \<Rightarrow> nat \<Rightarrow> instant \<Rightarrow> bool" where
  "test_next_running_healthchecks_ok_emits_nothing dir uid now \<longleftrightarrow>
    res_bind (res_bind (make_repo dir uid [(''svc'', Running)]) (modify_sh ''svc'' (\<lambda>sh. sh\<lparr>sh_healthiness_checks_failed := Some 2\<rparr>)))
      (next_of now LRunning ''svc'') = Inr []"

definition test_next_success_with_never_restart_becomes_finished :: "string \<Rightarrow> nat \<Rightarrow> instant \<Rightarrow> bool" where
  "test_next_success_with_never_restart_becomes_finished dir uid now \<longleftrightarrow>
    res_bind (make_repo dir uid [(''svc'', Success)])
      (next_of now LRunning ''svc'') = Inr [new_status_update ''svc'' Finished]"

definition test_next_success_with_always_restart_becomes_initial :: "string \<Rightarrow> nat \<Rightarrow> instant \<Rightarrow> bool" where
  "test_next_success_with_always_restart_becomes_initial dir uid now \<longleftrightarrow>
    (let svc = service_from_name dir uid ''svc'';
         svc' = svc\<lparr>sv_restart := (sv_restart svc)\<lparr>rs_strategy := Always\<rparr>\<rparr>
     in res_bind (modify_sh ''svc'' (\<lambda>sh. sh\<lparr>sh_status := Success\<rparr>) (make_repo_from_services [svc']))
          (next_of now LRunning ''svc'') = Inr [new_status_update ''svc'' Initial])"

definition test_next_failed_with_ignore_strategy :: "string \<Rightarrow> nat \<Rightarrow> instant \<Rightarrow> bool" where
  "test_next_failed_with_ignore_strategy dir uid now \<longleftrightarrow>
    (let svc = service_from_name dir uid ''svc'';
         svc' = svc\<lparr>sv_failure := (sv_failure svc)\<lparr>fl_strategy := Ignore\<rparr>,
           sv_restart := (sv_restart svc)\<lparr>rs_strategy := OnFailure\<rparr>\<rparr>
     in case res_bind (modify_sh ''svc'' (\<lambda>sh. sh\<lparr>sh_status := Failed\<rparr>) (make_repo_from_services [svc']))
          (next_of now LRunning ''svc'') of
          Inl _ \<Rightarrow> False
        | Inr events \<Rightarrow> new_status_update ''svc'' Initial \<in> set events)"

definition test_next_failed_shutdown_strategy :: "string \<Rightarrow> nat \<Rightarrow> instant \<Rightarrow> bool" where
  "test_next_failed_shutdown_strategy dir uid now \<longleftrightarrow>
    (let svc = service_from_name dir uid ''svc'';
         svc' = svc\<lparr>sv_failure := (sv_failure svc)\<lparr>fl_strategy := Shutdown\<rparr>\<rparr>
     in case res_bind (modify_sh ''svc'' (\<lambda>sh. sh\<lparr>sh_status := Failed\<rparr>) (make_repo_from_services [svc']))
          (next_of now LRunning ''svc'') of
          Inl _ \<Rightarrow> False
        | Inr events \<Rightarrow> ShuttingDownInitiated Gracefully \<in> set events)"

definition test_next_failed_kill_dependents_strategy :: "string \<Rightarrow> nat \<Rightarrow> instant \<Rightarrow> bool" where
  "test_next_failed_kill_dependents_strategy dir uid now \<longleftrightarrow>
    (let svc = service_from_name dir uid ''svc'';
         svc' = svc\<lparr>sv_failure := (sv_failure svc)\<lparr>fl_strategy := KillDependents\<rparr>\<rparr>;
         dep = (service_from_name dir uid ''dep'')\<lparr>sv_start_after := [''svc'']\<rparr>
     in case res_bind (set_statuses [(''svc'', Failed), (''dep'', Running)] (make_repo_from_services [svc', dep]))
          (next_of now LRunning ''svc'') of
          Inl _ \<Rightarrow> False
        | Inr events \<Rightarrow> new_status_update ''dep'' InKilling \<in> set events \<and> Kill ''dep'' \<in> set events)"

definition test_next_in_killing_no_force_kill_emits_nothing :: "string \<Rightarrow> nat \<Rightarrow> instant \<Rightarrow> pid \<Rightarrow> bool" where
  "test_next_in_killing_no_force_kill_emits_nothing dir uid now this_pid \<longleftrightarrow>
    res_bind (res_bind (make_repo dir uid [(''svc'', InKilling)]) (modify_sh ''svc'' (\<lambda>sh. shutting_down_started now (sh\<lparr>sh_pid := Some this_pid\<rparr>))))
      (next_of now LRunning ''svc'') = Inr []"

section \<open>The events of a service in a shutdown\<close>

definition test_next_shutdown_state_transitions :: "string \<Rightarrow> nat \<Rightarrow> instant \<Rightarrow> bool" where
  "test_next_shutdown_state_transitions dir uid now \<longleftrightarrow>
    (let events = (\<lambda>status. res_bind (make_repo dir uid [(''svc'', status)]) (next_of now (ShuttingDown Gracefully) ''svc''))
     in list_all (\<lambda>status. events status = Inr [new_status_update ''svc'' InKilling, Kill ''svc'']) [Running, Started]
        \<and> list_all (\<lambda>status. events status = Inr [new_status_update ''svc'' Finished]) [Success, Initial]
        \<and> events Failed = Inr [new_status_update ''svc'' FinishedFailed]
        \<and> list_all (\<lambda>status. events status = Inr []) [Finished, FinishedFailed])"

definition test_next_shutdown_force_kill :: "string \<Rightarrow> nat \<Rightarrow> instant \<Rightarrow> pid \<Rightarrow> bool" where
  "test_next_shutdown_force_kill dir uid now this_pid \<longleftrightarrow>
    (let with_pid = res_bind (make_repo dir uid [(''svc'', InKilling)]) (modify_sh ''svc'' (\<lambda>sh. sh\<lparr>sh_pid := Some this_pid\<rparr>))
     in res_bind (res_bind with_pid (modify_sh ''svc'' (shutting_down_started now))) (next_of now (ShuttingDown Gracefully) ''svc'') = Inr []
        \<and> res_bind with_pid (next_of now (ShuttingDown Forcefully) ''svc'') = Inr [new_force_kill ''svc''])"

section \<open>Properties\<close>

text \<open>The tests that read the clock are simplified, the others evaluated.\<close>

lemma clock_tests:
  "test_should_force_kill dir uid t this_pid"
  "test_next_in_killing_no_force_kill_emits_nothing dir uid now this_pid"
  "test_next_shutdown_force_kill dir uid now this_pid"
  by (simp_all add: test_should_force_kill_def test_next_in_killing_no_force_kill_emits_nothing_def
      test_next_shutdown_force_kill_def Let_def should_force_kill_def elapsed_def as_secs_def from_secs_def nanos_per_sec_def
      shutting_down_started_def handler_of_def service_from_toml_command_def default_termination_def
      make_repo_def modify_sh_def next_of_def next_evs_def next_events_def next_events_shutting_down_def
      get_sh_svc svc_repo_new service_from_name_def service_start_after_def default_service_def default_wait_def sh_name_def)

text \<open>
  The model passes the repository's unit tests of the service handler: whatever the test process
  finds outside, the thirty tests of \<open>service_handler.rs\<close> hold of the model's functions: the status
  changes, the restart and failure strategies, the health counter, the forced kill, and the events a
  service is sent while the system runs and while it shuts down.
\<close>

lemma service_handler_unit_tests:
  "test_handle_restart_strategy dir uid
    \<and> test_should_force_kill dir uid t this_pid
    \<and> test_should_force_kill_forceful_shutdown dir uid now this_pid
    \<and> test_handle_failed_service dir uid
    \<and> test_valid_transitions dir uid
    \<and> test_invalid_transitions_leave_status_unchanged dir uid
    \<and> test_same_status_transition_is_noop dir uid
    \<and> test_in_killing_from_initial_becomes_success dir uid
    \<and> test_started_transition_resets_restart_attempts dir uid
    \<and> test_non_started_transition_preserves_restart_attempts dir uid
    \<and> test_add_healthcheck_healthy_while_running dir uid
    \<and> test_add_healthcheck_event dir uid
    \<and> test_has_some_failed_healthchecks dir uid
    \<and> test_restart_attempts_are_over dir uid
    \<and> test_next_initial_runnable_emits_run dir uid now
    \<and> test_next_initial_deps_not_met_emits_nothing dir uid now
    \<and> test_next_initial_deps_met_emits_run dir uid now
    \<and> test_next_started_no_failed_healthchecks_becomes_running dir uid now
    \<and> test_next_started_with_failed_healthchecks_stays dir uid now
    \<and> test_next_running_healthchecks_exceeded_kills dir uid now
    \<and> test_next_running_healthchecks_ok_emits_nothing dir uid now
    \<and> test_next_success_with_never_restart_becomes_finished dir uid now
    \<and> test_next_success_with_always_restart_becomes_initial dir uid now
    \<and> test_next_failed_with_ignore_strategy dir uid now
    \<and> test_next_failed_shutdown_strategy dir uid now
    \<and> test_next_failed_kill_dependents_strategy dir uid now
    \<and> test_next_in_killing_no_force_kill_emits_nothing dir uid now this_pid
    \<and> test_next_shutdown_state_transitions dir uid now
    \<and> test_next_shutdown_force_kill dir uid now this_pid"
  by (intro conjI clock_tests) code_simp+

end
