(* ===== verification/Repo_Tests.thy ===== *)
theory Repo_Tests
  imports Validation Handler_Tests "HOL-Library.List_Lexorder" "HOL-Library.Char_ord"
begin

text \<open>
  The repository's unit tests of \<open>supervisor/repo.rs\<close> and the tests of \<open>formats/service.rs\<close> that do not
  read TOML, run on the model in the way of theory \<open>Handler_Tests\<close>.
\<close>

section \<open>The repository\<close>

text \<open>\<open>repo.is_service_runnable(repo.services.get(n).unwrap())\<close>.\<close>

definition runnable :: "service_name \<Rightarrow> repo \<Rightarrow> bool res" where
  "runnable n repo = res_bind (get_sh repo n) (is_service_runnable repo)"

definition test_all_have_finished_when_all_finished :: "string \<Rightarrow> nat \<Rightarrow> bool" where
  "test_all_have_finished_when_all_finished dir uid \<longleftrightarrow>
    res_map all_have_finished (make_repo dir uid [(''a'', Finished), (''b'', Finished)]) = Inr True"

definition test_all_have_finished_with_finished_failed :: "string \<Rightarrow> nat \<Rightarrow> bool" where
  "test_all_have_finished_with_finished_failed dir uid \<longleftrightarrow>
    res_map all_have_finished (make_repo dir uid [(''a'', Finished), (''b'', FinishedFailed)]) = Inr True"

definition test_all_have_finished_false_when_running :: "string \<Rightarrow> nat \<Rightarrow> bool" where
  "test_all_have_finished_false_when_running dir uid \<longleftrightarrow>
    res_map all_have_finished (make_repo dir uid [(''a'', Finished), (''b'', Running)]) = Inr False"

definition test_all_have_finished_false_when_initial :: "string \<Rightarrow> nat \<Rightarrow> bool" where
  "test_all_have_finished_false_when_initial dir uid \<longleftrightarrow>
    res_map all_have_finished (make_repo dir uid [(''a'', Initial)]) = Inr False"

definition test_any_finished_failed_true :: "string \<Rightarrow> nat \<Rightarrow> bool" where
  "test_any_finished_failed_true dir uid \<longleftrightarrow>
    res_map any_finished_failed (make_repo dir uid [(''a'', Finished), (''b'', FinishedFailed)]) = Inr True"

definition test_any_finished_failed_false :: "string \<Rightarrow> nat \<Rightarrow> bool" where
  "test_any_finished_failed_false dir uid \<longleftrightarrow>
    res_map any_finished_failed (make_repo dir uid [(''a'', Finished), (''b'', Finished)]) = Inr False"

definition test_is_runnable_no_dependencies :: "string \<Rightarrow> nat \<Rightarrow> bool" where
  "test_is_runnable_no_dependencies dir uid \<longleftrightarrow>
    res_bind (make_repo dir uid [(''svc'', Initial)]) (runnable ''svc'') = Inr True"

definition test_is_runnable_not_initial_state :: "string \<Rightarrow> nat \<Rightarrow> bool" where
  "test_is_runnable_not_initial_state dir uid \<longleftrightarrow>
    res_bind (make_repo dir uid [(''svc'', Running)]) (runnable ''svc'') = Inr False"

definition test_is_runnable_dependency_running :: "string \<Rightarrow> nat \<Rightarrow> bool" where
  "test_is_runnable_dependency_running dir uid \<longleftrightarrow>
    res_bind (make_repo_with_start_after dir uid [(''dep'', Running, []), (''svc'', Initial, [''dep''])]) (runnable ''svc'') = Inr True"

definition test_is_runnable_dependency_finished :: "string \<Rightarrow> nat \<Rightarrow> bool" where
  "test_is_runnable_dependency_finished dir uid \<longleftrightarrow>
    res_bind (make_repo_with_start_after dir uid [(''dep'', Finished, []), (''svc'', Initial, [''dep''])]) (runnable ''svc'') = Inr True"

definition test_is_not_runnable_dependency_not_started :: "string \<Rightarrow> nat \<Rightarrow> bool" where
  "test_is_not_runnable_dependency_not_started dir uid \<longleftrightarrow>
    res_bind (make_repo_with_start_after dir uid [(''dep'', Initial, []), (''svc'', Initial, [''dep''])]) (runnable ''svc'') = Inr False"

definition test_is_not_runnable_dependency_starting :: "string \<Rightarrow> nat \<Rightarrow> bool" where
  "test_is_not_runnable_dependency_starting dir uid \<longleftrightarrow>
    res_bind (make_repo_with_start_after dir uid [(''dep'', Starting, []), (''svc'', Initial, [''dep''])]) (runnable ''svc'') = Inr False"

definition test_is_runnable_multiple_deps_all_ready :: "string \<Rightarrow> nat \<Rightarrow> bool" where
  "test_is_runnable_multiple_deps_all_ready dir uid \<longleftrightarrow>
    res_bind (make_repo_with_start_after dir uid [(''dep1'', Running, []), (''dep2'', Finished, []), (''svc'', Initial, [''dep1'', ''dep2''])]) (runnable ''svc'') = Inr True"

definition test_is_not_runnable_multiple_deps_partial :: "string \<Rightarrow> nat \<Rightarrow> bool" where
  "test_is_not_runnable_multiple_deps_partial dir uid \<longleftrightarrow>
    res_bind (make_repo_with_start_after dir uid [(''dep1'', Running, []), (''dep2'', Initial, []), (''svc'', Initial, [''dep1'', ''dep2''])]) (runnable ''svc'') = Inr False"

definition test_get_dependents_none :: "string \<Rightarrow> nat \<Rightarrow> bool" where
  "test_get_dependents_none dir uid \<longleftrightarrow>
    res_map (\<lambda>repo. get_dependents repo ''a'') (make_repo_with_start_after dir uid [(''a'', Running, []), (''b'', Initial, [])]) = Inr []"

definition test_get_dependents_single :: "string \<Rightarrow> nat \<Rightarrow> bool" where
  "test_get_dependents_single dir uid \<longleftrightarrow>
    res_map (\<lambda>repo. get_dependents repo ''a'') (make_repo_with_start_after dir uid [(''a'', Running, []), (''b'', Initial, [''a''])]) = Inr [''b'']"

definition test_get_dependents_multiple :: "string \<Rightarrow> nat \<Rightarrow> bool" where
  "test_get_dependents_multiple dir uid \<longleftrightarrow>
    res_map (\<lambda>repo. sort (get_dependents repo ''a'')) (make_repo_with_start_after dir uid [(''a'', Running, []), (''b'', Initial, [''a'']), (''c'', Initial, [''a'']), (''d'', Initial, [])]) = Inr [''b'', ''c'']"

definition test_get_dependents_nonexistent_service :: "string \<Rightarrow> nat \<Rightarrow> bool" where
  "test_get_dependents_nonexistent_service dir uid \<longleftrightarrow>
    res_map (\<lambda>repo. get_dependents repo ''nonexistent'') (make_repo dir uid [(''a'', Running)]) = Inr []"

definition test_get_die_if_failed_none :: "string \<Rightarrow> nat \<Rightarrow> bool" where
  "test_get_die_if_failed_none dir uid \<longleftrightarrow>
    res_map (\<lambda>repo. get_die_if_failed repo ''a'') (make_repo dir uid [(''a'', Running), (''b'', Running)]) = Inr []"

definition test_get_die_if_failed_single :: "string \<Rightarrow> nat \<Rightarrow> bool" where
  "test_get_die_if_failed_single dir uid \<longleftrightarrow>
    (let svc_b = service_from_name dir uid ''b'';
         svc_b' = svc_b\<lparr>sv_termination := (sv_termination svc_b)\<lparr>tm_die_if_failed := [''a'']\<rparr>\<rparr>;
         repo = make_repo_from_services [service_from_name dir uid ''a'', svc_b']
     in get_die_if_failed repo ''a'' = [''b''])"

definition test_add_and_get_pid :: "string \<Rightarrow> nat \<Rightarrow> bool" where
  "test_add_and_get_pid dir uid \<longleftrightarrow>
    res_map (\<lambda>repo. get_service_by_pid (add_pid 12345 ''svc'' repo) 12345) (make_repo dir uid [(''svc'', Running)]) = Inr (Some ''svc'')"

definition test_get_pid_not_found :: "string \<Rightarrow> nat \<Rightarrow> bool" where
  "test_get_pid_not_found dir uid \<longleftrightarrow>
    res_map (\<lambda>repo. get_service_by_pid repo 99999) (make_repo dir uid [(''svc'', Running)]) = Inr None"

definition test_remove_pid :: "string \<Rightarrow> nat \<Rightarrow> bool" where
  "test_remove_pid dir uid \<longleftrightarrow>
    res_map (\<lambda>repo. get_service_by_pid (remove_pid 12345 (add_pid 12345 ''svc'' repo)) 12345) (make_repo dir uid [(''svc'', Running)]) = Inr None"

section \<open>Validation and log targets\<close>

text \<open>\<open>str::contains\<close>.\<close>

definition contains :: "string \<Rightarrow> string \<Rightarrow> bool" where
  "contains s t \<longleftrightarrow> list_ex (\<lambda>i. take (length t) (drop i s) = t) [0..<Suc (length s)]"

definition test_validate :: "string \<Rightarrow> nat \<Rightarrow> bool" where
  "test_validate dir uid \<longleftrightarrow>
    (let a = service_start_after dir uid ''a'' [''b''];
         b = service_from_name dir uid ''b''
     in isl (validate [a])
        \<and> isl (validate [from_command dir uid []])
        \<and> \<not> isl (validate [b, a])
        \<and> isl (validate [service_shutdown_after dir uid ''a'' [''nonexistent'']])
        \<and> \<not> isl (validate [b, service_shutdown_after dir uid ''a'' [''b'']]))"

definition test_log_output_roundtrip :: "bool" where
  "test_log_output_roundtrip \<longleftrightarrow>
    list_all (\<lambda>lo. lo = log_output_from (log_output_to_string lo)) [Stdout, Stderr, Path ''/tmp/test.log'']"

definition test_validate_whitespace_command_is_not_empty :: "string \<Rightarrow> nat \<Rightarrow> bool" where
  "test_validate_whitespace_command_is_not_empty dir uid \<longleftrightarrow>
    \<not> isl (validate [from_command dir uid ''   ''])"

definition test_validate_multiple_errors_reported :: "string \<Rightarrow> nat \<Rightarrow> bool" where
  "test_validate_multiple_errors_reported dir uid \<longleftrightarrow>
    (case validate [from_command dir uid [], service_start_after dir uid ''a'' [''nonexistent'']] of
        Inr _ \<Rightarrow> False
      | Inl err \<Rightarrow>
          contains (validation_errors err) ''Command is defined, but it is empty''
          \<and> contains (validation_errors err) ''should start after'')"

section \<open>Properties\<close>

text \<open>
  The model passes the repository's unit tests of the repository of services: who has finished, who is
  runnable after which dependencies, dependents, services to kill on a failure, and the pid table.
\<close>

lemma repo_unit_tests:
  "test_all_have_finished_when_all_finished dir uid
    \<and> test_all_have_finished_with_finished_failed dir uid
    \<and> test_all_have_finished_false_when_running dir uid
    \<and> test_all_have_finished_false_when_initial dir uid
    \<and> test_any_finished_failed_true dir uid
    \<and> test_any_finished_failed_false dir uid
    \<and> test_is_runnable_no_dependencies dir uid
    \<and> test_is_runnable_not_initial_state dir uid
    \<and> test_is_runnable_dependency_running dir uid
    \<and> test_is_runnable_dependency_finished dir uid
    \<and> test_is_not_runnable_dependency_not_started dir uid
    \<and> test_is_not_runnable_dependency_starting dir uid
    \<and> test_is_runnable_multiple_deps_all_ready dir uid
    \<and> test_is_not_runnable_multiple_deps_partial dir uid
    \<and> test_get_dependents_none dir uid
    \<and> test_get_dependents_single dir uid
    \<and> test_get_dependents_multiple dir uid
    \<and> test_get_dependents_nonexistent_service dir uid
    \<and> test_get_die_if_failed_none dir uid
    \<and> test_get_die_if_failed_single dir uid
    \<and> test_add_and_get_pid dir uid
    \<and> test_get_pid_not_found dir uid
    \<and> test_remove_pid dir uid"
  by (intro conjI) code_simp+

text \<open>
  The model passes the repository's unit tests of validation and log targets: missing start and shutdown
  dependencies and empty commands are errors, blanks are a command, all errors are in the message,
  and log targets survive being written and read.
\<close>

lemma validation_unit_tests:
  "test_validate dir uid
    \<and> test_log_output_roundtrip
    \<and> test_validate_whitespace_command_is_not_empty dir uid
    \<and> test_validate_multiple_errors_reported dir uid"
  by (intro conjI) code_simp+

end
