(* ===== verification/Outside_Tests.thy ===== *)
theory Outside_Tests
  imports Loader Healthcheck Signal_Safe "HOL-Library.Multiset"
    "HOL-Library.List_Lexorder" "HOL-Library.Char_ord" "HOL-Library.Code_Target_Nat"
begin

text \<open>
  The repository's unit tests that touch the file system, the network or other processes, run on the
  model: health checks (\<open>healthcheck/mod.rs\<close>), listing a directory and loading services from it (\<open>horust/mod.rs\<close>), reading a
  broken configuration file (\<open>horust_config.rs\<close>) and printing numbers (\<open>signal_safe.rs\<close>). What a test puts
  in place outside is a value of the model's \<open>os\<close>, \<open>world\<close> or \<open>load_os\<close>.
\<close>

section \<open>Health checks\<close>

definition test_healthiness_check_file :: "os \<Rightarrow> world \<Rightarrow> string \<Rightarrow> bool" where
  "test_healthiness_check_file os w file_path \<longleftrightarrow>
    (let fresh = w\<lparr>wd_exists := (wd_exists w)(file_path := False)\<rparr>;
         healthiness = default_healthiness\<lparr>hl_file_path := Some file_path, hl_http_endpoint := None\<rparr>;
         written = fresh\<lparr>wd_exists := (wd_exists fresh)(file_path := True)\<rparr>
     in res_map (\<lambda>h. h \<noteq> Healthy) (check_health os fresh healthiness) = Inr True
        \<and> check_health os written healthiness = Inr Healthy
        \<and> check_health os written default_healthiness = Inr Healthy)"

text \<open>Nothing answers on port 123; the listener of the test answers one request on its port and is gone.\<close>

definition test_healthiness_http :: "os \<Rightarrow> world \<Rightarrow> nat \<Rightarrow> bool" where
  "test_healthiness_http os w port \<longleftrightarrow>
    (let checked = (\<lambda>endpoint. default_healthiness\<lparr>hl_file_path := None, hl_http_endpoint := Some endpoint\<rparr>);
         endpoint = ''http://localhost:'' @ show_nat port;
         silent = os\<lparr>os_http_feature := True, os_http_head := (\<lambda>_. False)\<rparr>;
         listening = silent\<lparr>os_http_head := (\<lambda>e. e = endpoint)\<rparr>
     in res_map (\<lambda>h. h \<noteq> Healthy) (check_health silent w (checked ''http://localhost:123/'')) = Inr True
        \<and> check_health listening w (checked endpoint) = Inr Healthy
        \<and> res_map (\<lambda>h. h \<noteq> Healthy) (check_health silent w (checked endpoint)) = Inr True)"

text \<open>\<open>cat\<close> is found in \<open>/bin\<close> and fails until the file is written.\<close>

definition test_healthiness_command :: "os \<Rightarrow> world \<Rightarrow> string \<Rightarrow> bool" where
  "test_healthiness_command os w file_path \<longleftrightarrow>
    (let command = ''cat '' @ file_path;
         healthiness = default_healthiness\<lparr>hl_file_path := None, hl_http_endpoint := None, hl_command := Some command\<rparr>;
         missing = os\<lparr>os_shlex_split := (\<lambda>s. if s = command then Some [''cat'', file_path] else None),
           os_path_var := Some ''/bin'', os_is_file := (\<lambda>p. p = ''/bin/cat''), os_run_command := (\<lambda>_. Some False)\<rparr>;
         written = missing\<lparr>os_run_command := (\<lambda>args. Some (args = [''/bin/cat'', file_path]))\<rparr>;
         (ok, w') = prepare_service missing healthiness w
     in ok
        \<and> res_map (\<lambda>h. h \<noteq> Healthy) (check_health missing w' healthiness) = Inr True
        \<and> check_health written w' healthiness = Inr Healthy
        \<and> check_health written w' default_healthiness = Inr Healthy)"

section \<open>Loading services\<close>

definition first_service_filename :: string where
  "first_service_filename = ''my-first-service.toml''"

definition second_service_filename :: string where
  "second_service_filename = ''my-second-service.toml''"

text \<open>A file system with one directory of files; \<open>from_toml\<close> is the TOML reader.\<close>

definition dir_os :: "(string \<Rightarrow> string + service) \<Rightarrow> string \<Rightarrow> (string \<times> string) list \<Rightarrow> load_os" where
  "dir_os from_toml dir files =
    (let paths = map (\<lambda>(n, content). (path_join dir n, content)) files
     in \<lparr>lo_is_file = (\<lambda>p. p \<in> fst ` set paths),
         lo_read_dir = (\<lambda>p. if p = dir then Inr (map (\<lambda>(path, _). Some path) paths) else Inl ''no such directory''),
         lo_read_to_string = (\<lambda>p. ok_or ''no such file'' (map_of paths p)),
         lo_shellexpand = Inr, lo_from_toml = from_toml\<rparr>)"

text \<open>The files \<open>toml::to_string\<close> makes of the services \<open>a\<close> and \<open>b\<close>, and their reader.\<close>

definition create_test_dir :: "(string \<times> string) list" where
  "create_test_dir = [(first_service_filename, ''toml of a''), (second_service_filename, ''toml of b'')]"

definition test_from_toml :: "string \<Rightarrow> nat \<Rightarrow> string \<Rightarrow> string + service" where
  "test_from_toml dir uid text =
    (if text = ''toml of a'' then Inr ((default_service dir uid)\<lparr>sv_name := ''a''\<rparr>)
     else if text = ''toml of b'' then Inr ((default_service dir uid)\<lparr>sv_name := ''b'', sv_start_after := [''a'']\<rparr>)
     else Inl ''expected an equals'')"

definition fetched_names :: "load_os \<Rightarrow> string \<Rightarrow> string list option" where
  "fetched_names lo path =
    (case fetch_services lo path of Inr (Inr services) \<Rightarrow> Some (map sv_name services) | _ \<Rightarrow> None)"

definition test_fetch_services :: "string \<Rightarrow> nat \<Rightarrow> bool" where
  "test_fetch_services dir uid \<longleftrightarrow>
    (let from_toml = test_from_toml dir uid;
         tempdir = ''/tmp/horust'';
         empty = dir_os from_toml tempdir [];
         broken = dir_os from_toml tempdir [(''not_a_toml.toml'', ''not really a toml.'')];
         services = dir_os from_toml tempdir (create_test_dir @ [(''not-a-service'', ''Hello world'')])
     in fetched_names empty tempdir = Some []
        \<and> fetched_names broken tempdir = Some []
        \<and> fetched_names broken (path_join tempdir ''not_a_toml.toml'') = Some []
        \<and> map_option sort (fetched_names services tempdir) = Some [''a'', ''b'']
        \<and> map_option length (fetched_names services (path_join tempdir first_service_filename)) = Some 1)"

definition test_load_and_merge :: "string \<Rightarrow> bool" where
  "test_load_and_merge parse_error \<longleftrightarrow>
    isl (load_and_merge \<lparr>hc_unsuccessful_exit_finished_failed = True\<rparr> (Some (Inl parse_error)))"

text \<open>
  The test's own \<open>list_files\<close>, and what it lists: the entries of the directory in any order, each with its
  path and the answer to \<open>file_type().is_file()\<close>.
\<close>

type_synonym dir_entry = "string \<times> (string + bool)"

fun push_files :: "dir_entry list \<Rightarrow> string list \<Rightarrow> string + string list" where
  "push_files [] ret = Inr ret"
| "push_files ((path, file_type) # entries) ret =
    res_bind file_type (\<lambda>is_file. push_files entries (if is_file then ret @ [path] else ret))"

definition list_files :: "(string \<Rightarrow> string + dir_entry option list) \<Rightarrow> string \<Rightarrow> string + string list" where
  "list_files read_dir path = res_bind (read_dir path) (\<lambda>entries. push_files (List.map_filter (\<lambda>e. e) entries) [])"

definition listed_files :: "string list" where
  "listed_files = map (path_join ''/tmp/horust'') [''a'', ''b'', ''c'']"

definition listed_dirs :: "string list" where
  "listed_dirs = map (path_join ''/tmp/horust'') [''1'', ''2'', ''3'']"

definition test_list_files :: "dir_entry list \<Rightarrow> bool" where
  "test_list_files listing \<longleftrightarrow>
    res_map sort (list_files (\<lambda>_. Inr (map Some listing)) ''/tmp/horust'') = Inr listed_files"

section \<open>Printing numbers\<close>

text \<open>\<open>randoms\<close>: the hundred numbers of \<open>rand::random()\<close>.\<close>

definition test_int_to_string_conversion :: "i32 list \<Rightarrow> bool" where
  "test_int_to_string_conversion randoms \<longleftrightarrow>
    (let test = (\<lambda>i. case i32_to_str_bytes i of
         Inl _ \<Rightarrow> False
       | Inr (res, digits) \<Rightarrow> drop digits res = bytes_of (show_int (sint i)))
     in list_all test (take 100 randoms)
        \<and> list_all test [0, - 1, 1, 10, - 10, 2147483647, - 2147483648])"

section \<open>Lemmas\<close>

lemma push_files_Inr:
  "\<forall>e \<in> set entries. \<not> isl (snd e) \<Longrightarrow>
    push_files entries ret = Inr (ret @ map fst (filter (\<lambda>e. snd e = Inr True) entries))"
proof (induction entries arbitrary: ret)
  case (Cons e entries)
  then show ?case by (cases e; cases "snd e") auto
qed simp

lemma listed_files_sorted: "sorted listed_files"
  by code_simp

lemma list_files_test:
  assumes "mset listing = mset (map (\<lambda>p. (p, Inr True)) listed_files @ map (\<lambda>p. (p, Inr False)) listed_dirs)"
  shows "test_list_files listing"
proof -
  have "set listing = set (map (\<lambda>p. (p, Inr True)) listed_files @ map (\<lambda>p. (p, Inr False)) listed_dirs)"
    by (rule mset_eq_setD [OF assms])
  then have "\<forall>e \<in> set listing. \<not> isl (snd e)" by auto
  moreover have "mset (map fst (filter (\<lambda>e. snd e = Inr True) listing))
      = image_mset fst (filter_mset (\<lambda>e. snd e = Inr True) (mset listing))" by simp
  then have "mset (map fst (filter (\<lambda>e. snd e = Inr True) listing)) = mset listed_files"
    by (simp only:) (simp add: assms listed_files_def listed_dirs_def)
  then have "sort (map fst (filter (\<lambda>e. snd e = Inr True) listing)) = listed_files"
    using listed_files_sorted by (intro properties_for_sort) simp_all
  ultimately show ?thesis
    by (simp add: test_list_files_def list_files_def push_files_Inr List.map_filter_def comp_def)
qed

section \<open>Properties\<close>

text \<open>
  The model passes the repository's unit tests that look outside: the file, HTTP and command health
  checks before and after what they look for is there, services fetched from directories and single
  files with broken files left out, a broken configuration file, and the printed numbers.
\<close>

lemma outside_unit_tests:
  "test_healthiness_check_file os w file_path \<and> test_healthiness_http os w port
    \<and> test_healthiness_command os w file_path \<and> test_fetch_services dir uid \<and> test_load_and_merge parse_error
    \<and> test_int_to_string_conversion randoms"
proof (intro conjI)
  show "test_healthiness_check_file os w file_path"
    by (simp add: test_healthiness_check_file_def Let_def check_health_eq file_check_run_def http_check_run_def
        command_check_run_def default_healthiness_def)
  show "test_healthiness_http os w port"
    by (simp add: test_healthiness_http_def Let_def check_health_eq file_check_run_def http_check_run_def
        command_check_run_def default_healthiness_def)
  show "test_int_to_string_conversion randoms"
  proof -
    have "case i32_to_str_bytes i of Inl _ \<Rightarrow> False | Inr (res, digits) \<Rightarrow> drop digits res = bytes_of (show_int (sint i))" for i
      using i32_to_str_bytes_ok [of i] by auto
    then show ?thesis by (simp add: test_int_to_string_conversion_def Let_def list_all_iff)
  qed
  show "test_load_and_merge parse_error" by (simp add: test_load_and_merge_def load_and_merge_def)
  show "test_fetch_services dir uid" by code_simp
  show "test_healthiness_command os w file_path"
    by (auto simp: test_healthiness_command_def Let_def prepare_service_split check_health_eq file_check_run_def http_check_run_def
        command_check_run_def default_healthiness_def file_check_prepare_def command_check_prepare_def prepare_cmd_def
        resolve_program_def find_program_def path_join_def healthiness_from_bool_def)
qed

end
