(* ===== verification/Spec2Isabelle.thy ===== *)
theory Spec2Isabelle
  imports Start_End Restart_Race Ordering Graceful_Bound Horust_End Bus_End Horustctl Process_Spawner Loader
    Handler_Tests Repo_Tests Outside_Tests "HOL-Library.Code_Target_Nat"
begin

text \<open>
  Horust is a process supervisor: it reads service files, starts each service as a child process when the
  services it waits for are up, checks its health, restarts it by the configured strategy, and on
  \<open>SIGTERM\<close> takes all services down in order. This is the root of a library of theories that models the
  program in \<open>src/\<close> and proves what makes its parts, and their composition, correct.

  \<^bold>\<open>The program.\<close> \<open>main\<close> turns the command line and the service files into a list of validated services and
  runs \<open>Horust::run\<close>, which starts three threads on one bus: the supervisor, the health manager and the
  commands handler. Every event sent on the bus reaches every thread in the same order. The supervisor
  keeps a state machine per service and loops: it handles the events that arrived, lets each service ask
  for its next step, reaps dead processes and sends all of this back to the bus, so it also hears itself.
  A spawner thread per start forks and executes the process and reports its id; a worker per checked
  service reports its health. The commands handler follows the status announcements and answers
  \<open>horustctl\<close> over a Unix socket.

  \<^bold>\<open>From the code to the theories.\<close>
  \<^item> \<open>Prelude\<close>, \<open>Decimal\<close>, \<open>Hash_Map\<close>: panics and results (\<open>'a res\<close>), words, durations, strings, machines that
    handle lists of events (locales \<open>step_relation\<close>, \<open>step_invariant\<close>), numerals in decimal, and the standard
    library's hash map (locale \<open>hash_map\<close>, whose entries come in an unspecified order).
  \<^item> \<open>Formats\<close>, \<open>Environment\<close>, \<open>Validation\<close>, \<open>Program_Path\<close>: \<open>formats/\<close> and \<open>error.rs\<close>, the types of a service file
    with their defaults and conversions, the environment of a process, \<open>validate\<close>, the resource limits,
    and \<open>find_program\<close>.
  \<^item> \<open>Service_Handler\<close>, \<open>Repo\<close>, \<open>Service_Next\<close>, \<open>Reaper\<close>: the files of the same names under \<open>supervisor/\<close>; the record
    \<open>service_handler\<close> is the struct, \<open>allowed_transitions\<close> the table of \<open>handle_status_change\<close>, and \<open>next_events\<close>,
    \<open>next_events_shutting_down\<close> the two functions that let a service progress.
  \<^item> \<open>Supervisor\<close>: \<open>supervisor/mod.rs\<close>, one definition per arm of \<open>handle_event\<close> and the loop \<open>run\<close>, with the flag of
    \<open>signal_handling.rs\<close>. A handler returns the new state, the events to send and the effects (signals,
    spawner threads), or a panic.
  \<^item> \<open>Healthcheck\<close>: \<open>healthcheck/\<close>; \<open>Process_Spawner\<close> and \<open>Signal_Safe\<close>: \<open>process_spawner.rs\<close> and \<open>signal_safe.rs\<close>, the
    spawner thread, the child between \<open>fork\<close> and \<open>execve\<close>, the rotated logs; \<open>Bus\<close>: \<open>bus.rs\<close>.
  \<^item> \<open>Commands\<close>, \<open>Horustctl\<close>: \<open>commands_handler.rs\<close>, the crate \<open>commands\<close> and the program \<open>horustctl\<close>.
  \<^item> \<open>Loader\<close>: \<open>main.rs\<close>, \<open>horust_config.rs\<close> and the loading of service files in \<open>mod.rs\<close>.
  \<^item> \<open>Horust_Setup\<close>, \<open>Closed_Loop\<close>, \<open>System\<close>: \<open>Horust::run\<close>, first the signal handlers and the connectors, then the
    supervisor's loop with what it sends coming back to it (\<open>bus_round\<close>, \<open>horust_run\<close>), then all three threads
    taking turns in any order (\<open>system_turn\<close>), each at its own position in the sequence of events; that the
    bus of theory \<open>Bus\<close> amounts to this is \<open>connector_is_position\<close>. A turn is one round of a thread's loop, and
    what other threads send during it is merged by a schedule.
  \<^item> \<open>Examples\<close>: concrete services and states the witnesses evaluate on.

  \<^bold>\<open>What is shown.\<close>
  \<^item> One service (\<open>Service_Handler\<close>, \<open>Service_Props\<close>): the table implements the relation \<open>accepts\<close> and touches nothing
    else; the restart budget; the failed checks that kill a service; terminal statuses stay.
  \<^item> One event (\<open>Supervisor_Inv\<close>, \<open>Supervisor_Safe\<close>, \<open>Supervisor_Names\<close>, \<open>Supervisor_Props\<close>): the supervisor refines the
    relation \<open>moves\<close>; well-formedness, the pid table and the configuration are kept; the events that panic, the
    signals, the starts and the outcome of an exit are characterised exactly; events name known services.
  \<^item> A round and the loop (\<open>Supervisor_Run\<close>, \<open>Lifecycle_Props\<close>): which services are asked to run, to stop or to die;
    \<open>SIGTERM\<close> escalates; the result of the loop; two ways a shutdown can hang.
  \<^item> The loop on the bus: it does not panic (\<open>Loop_Safe\<close>) on validated services as long as no service is
    started while it has a process, and it can panic when one is (\<open>Restart_Race\<close>). Every service starts
    (\<open>Start_Up\<close>, \<open>Start_End\<close>), and a shutdown ends (\<open>Drain\<close>, \<open>Shutdown_Round\<close>, \<open>Delivery\<close>, \<open>Shutdown_End\<close>). Both
    rest on the locale \<open>fair_loop\<close> (\<open>Fair_Loop\<close>), a loop whose bus delivers in the end: the statuses are
    ranked, an event of a service lowers its rank or leaves it, and while the goal is not reached some
    service has an event on its way, or will be sent one, that lowers it. The locale \<open>prompt_loop\<close>
    (\<open>Shutdown_Bound\<close>) extends it by a bus with a bounded delay: then a forceful shutdown is over after
    three delays and one round, and a graceful one
    (\<open>Graceful_Bound\<close>) after a fixed number of rounds per service in a chain of \<open>shutdown-after\<close>. One failed
    check keeps a service from coming up for ever (\<open>Failed_Check\<close>).
    Starts follow \<open>start-after\<close> and graceful stops follow \<open>shutdown-after\<close> (\<open>Ordering\<close>), however late the bus
    delivers: both are instances of an event sent behind a guard (locales \<open>guarded_event\<close>, \<open>guarded_step\<close>).
  \<^item> The threads together (\<open>System_Props\<close>, \<open>Horustctl\<close>): every event, position, status and pending answer stays within the
    configured names, the observers never panic, and \<open>horustctl\<close> prints what the supervisor holds. Once a
    shutdown is announced the observers end (\<open>Horust_End\<close>), and when the last connector is gone so does the
    bus (\<open>Bus_End\<close>), for which \<open>Horust::run\<close> waits. Below: validated services keep the round from panicking,
    and the exit code of the process is that of the services.
  \<^item> The other components: exactness of \<open>validate\<close>, delivery on the bus, one worker per service, the health
    report and its preparation (\<open>Health_Props\<close>), the child process, lossless log rotation, the precedence of
    environment variables, the printer of numbers, and the query over the socket.
  \<^item> The repository's unit tests, one bool-valued definition per test, evaluated on the model:
    \<open>Handler_Tests\<close> for \<open>service_handler.rs\<close>, \<open>Repo_Tests\<close> for \<open>repo.rs\<close> and \<open>validate\<close>, \<open>Outside_Tests\<close> for the health
    checks, the signal-safe printer and the configuration, \<open>Bus_End\<close> for the bus. A definition that strays from the code where
    a test looks breaks its test.

  \<^bold>\<open>Loops.\<close> \<open>run\<close>, \<open>horust_run\<close> and the loop of the chunk writer are \<open>partial_function (option)\<close>, so \<open>None\<close> is a loop that
  never returns; that they return is a theorem where it holds (\<open>forceful_shutdown_ends\<close>, \<open>graceful_shutdown_ends\<close>,
  \<open>rotated_log_lossless\<close>), and so is that they do not (\<open>shutdown_deadlock\<close>, \<open>lost_start_blocks_shutdown\<close>). Fuel
  is used only to evaluate examples: \<open>bounded_run\<close> on four rounds, \<open>run_panic\<close> on twelve, each with a lemma that
  what it finds is what \<open>horust_run\<close> does. The bound of \<open>forceful_shutdown_bounded\<close> is attained by its witness. \<open>rounds\<close> counts the rounds a statement speaks about. A thread that serves for ever
  is a step of its loop, and the steps compose in any order.

  \<^bold>\<open>What is assumed of the outside.\<close> Clock readings, the results of system calls, the file system, the
  process environment, \<open>shlex\<close>, \<open>shellexpand\<close>, the TOML reader derived by serde, the HTTP client, the
  control groups, the channels of crossbeam and the encoder of \<open>prost\<close> are arguments. Where a property needs
  more, it says so: channels are queues that lose nothing (\<open>fifo_channel\<close>); a decoder undoes its encoder; a
  process id is reported fresh (\<open>fresh_pid\<close>) and its death once (\<open>reaped_once\<close>, \<open>sane_round\<close>); the bus delivers in the
  end (\<open>delivers\<close>), or within a number of rounds (\<open>prompt\<close>); time passes (\<open>time_passes\<close>), or as fast as a wait
  takes a number of rounds (\<open>waits_end\<close>); other threads send what their code sends (\<open>thread_event\<close>,
  \<open>shutdown_env\<close>); while services start, a start is answered by a process id and a report, and no process dies
  (\<open>start_env\<close>, for services that are \<open>startable\<close>). Integers are words: \<open>u32\<close> and \<open>i32\<close> additions wrap, as in a release build, and
  \<open>Duration\<close> arithmetic panics at its range.

  \<^bold>\<open>Not modelled.\<close> Logging, the sleeps between rounds, \<open>prctl\<close>, the derived code of serde, clap and prost, the
  text of the sample service, and \<open>build.rs\<close>. Of the tests,
  those that read TOML text (its reader is derived code) and the integration tests under \<open>tests/\<close>, which
  run the binaries.

  \<^bold>\<open>Next.\<close> A bound on the rounds of a start, from a bound on the delay of the bus and of the spawner threads.
\<close>

section \<open>Properties that span components\<close>

subsection \<open>Validation and the supervisor\<close>

text \<open>
  Services that pass validation never make the supervisor's round panic while it produces events:
  in every reachable state the repository is well formed, every dependency is found, and the events of
  all services are produced, whatever the clock reads.
\<close>

lemma validated_services_safe:
  assumes "validate loaded = Inr services" and "reachable os w services st"
  shows "sup_wf st \<and> (\<exists>evs. services_next clock st = Inr evs)"
proof -
  from assms(1) have "deps_known (su_repo (supervisor_new w services))"
    by (simp add: validate_Inr supervisor_new_def services_ok_deps_known)
  moreover have "map_option sh_service (svc (su_repo st) n)
      = map_option sh_service (svc (su_repo (supervisor_new w services)) n)" for n
    using reachable_repo(3) [OF assms(2)] by (simp add: config_kept_def)
  ultimately have "deps_known (su_repo st)" by (rule deps_known_cong [rotated])
  with reachable_repo(1) [OF assms(2)] have "sup_wf st" by (simp add: sup_wf_def)
  then show ?thesis by (simp add: services_next_total)
qed

subsection \<open>From the command line to the exit code\<close>

lemma from_command_wf: "sup_wf (supervisor_new w [from_command dir uid cmd])"
  by (auto simp: sup_wf_def supervisor_new_def repo_new_wf deps_known_def svc_repo_new from_command_def
      default_service_def sh_start_after_def sh_shutdown_after_def handler_of_def)

lemma select_services_wf:
  assumes "select_services mo opts = Inr (Inr services)"
  shows "sup_wf (supervisor_new w services)"
proof (cases "op_command opts = []")
  case True
  with assms obtain r where r: "Inr services = (case r of Inl err \<Rightarrow> Inl (LoadError err)
      | Inr loaded \<Rightarrow> (case validate loaded of Inl errors \<Rightarrow> Inl (ValidationErrors errors) | Inr ok \<Rightarrow> Inr ok))"
    by (auto simp: select_services_def from_services_dirs_def)
  then obtain loaded where "validate loaded = Inr services" by (auto split: sum.splits)
  then show ?thesis
    by (simp add: validate_Inr sup_wf_def supervisor_new_def repo_new_wf services_ok_deps_known)
next
  case False
  with assms from_command_wf show ?thesis by (auto simp: select_services_def)
qed

lemma horust_run_result:
  assumes "horust_run os p ous k (st, q) = Some (Inr (st', code, evs, acts))" and "sup_wf st"
  shows "(\<forall>n. svc (su_repo st') n = None \<longleftrightarrow> svc (su_repo st) n = None)
    \<and> (\<forall>n sh. svc (su_repo st') n = Some sh \<longrightarrow> sh_status sh = Finished \<or> sh_status sh = FinishedFailed)
    \<and> (code = SomeServiceFailed \<longleftrightarrow> (\<exists>n sh. svc (su_repo st') n = Some sh \<and> sh_status sh = FinishedFailed))"
proof -
  from horust_run_is_run [OF assms(1)] obtain inputs
    where "run os p inputs k st = Some (Inr (st', code, evs, acts))" by auto
  from run_ends [OF this assms(2)] have e: "sup_wf st'" "config_kept st st'" "all_have_finished (su_repo st')"
    "(code, evs, acts) = run_end p st'" by auto
  then have "svc (su_repo st') n = None \<longleftrightarrow> svc (su_repo st) n = None" for n
    by (metis config_kept_def map_option_is_None)
  with e run_end_status [OF e(1,4)] show ?thesis by (auto simp: all_have_finished_iff sup_wf_def)
qed

text \<open>
  C24. From the command line to the exit code: when \<open>main\<close> starts the services it selected and their loop
  on the bus returns, each of them is \<open>Finished\<close> or \<open>FinishedFailed\<close>, and the process ends with 101 if some
  are \<open>FinishedFailed\<close> and the flag is set on the command line or in the configuration file, with 0 if not.
\<close>

theorem horust_exit_code:
  assumes "\<not> op_sample_service opts" and "mo_uds_folder_exists mo" and "mo_uds_folder_is_dir mo"
    and "select_services mo opts = Inr (Inr services)" and "load_and_merge (op_config opts) (mo_config_file mo) = Inr config"
    and "horust_run os p ous 0 (supervisor_new w services, []) = Some (Inr (st, run_horust services, evs, acts))"
  shows "main mo run_horust opts = Inr (ExitCode
      (if hc_unsuccessful_exit_finished_failed config
          \<and> (\<exists>n sh. svc (su_repo st) n = Some sh \<and> sh_status sh = FinishedFailed) then 101 else 0))
    \<and> (\<forall>s \<in> set services. \<exists>sh. svc (su_repo st) (sv_name s) = Some sh
        \<and> (sh_status sh = Finished \<or> sh_status sh = FinishedFailed))"
proof -
  note result = horust_run_result [OF assms(6) select_services_wf [OF assms(4)]]
  have "svc (su_repo (supervisor_new w services)) (sv_name s) \<noteq> None" if "s \<in> set services" for s
    using that by (auto simp: supervisor_new_def svc_repo_new find_None_iff)
  with result have "\<forall>s \<in> set services. \<exists>sh. svc (su_repo st) (sv_name s) = Some sh
      \<and> (sh_status sh = Finished \<or> sh_status sh = FinishedFailed)" by blast
  with result assms(1-5) show ?thesis
    by (cases "run_horust services") (auto simp: main_def)
qed

definition ex_failing_outside :: "nat \<Rightarrow> outside" where
  "ex_failing_outside k = (ex_outside k)\<lparr>ou_sent := (if k = 1 then [SpawnFailed ''true''] else [])\<rparr>"

lemma ex_failing_run:
  "case bounded_run ex_os ex_failing_outside 0 5 (supervisor_new ex_world [from_command ''/'' 0 ''true''], []) of
     Some st \<Rightarrow> any_finished_failed (su_repo st) \<and> map fst (hm_entries (rp_services (su_repo st))) = [''true'']
   | None \<Rightarrow> False"
  by code_simp

definition ex_main_os :: main_os where
  "ex_main_os = \<lparr>mo_load = \<lparr>lo_is_file = (\<lambda>_. False), lo_read_dir = (\<lambda>_. Inr []), lo_read_to_string = Inr,
       lo_shellexpand = Inr, lo_from_toml = (\<lambda>_. Inl ''no file'')\<rparr>,
     mo_config_file = Some (Inr \<lparr>hc_unsuccessful_exit_finished_failed = True\<rparr>),
     mo_uds_folder_exists = True, mo_create_uds_folder = None, mo_uds_folder_is_dir = True,
     mo_current_dir = ''/'', mo_uid = 0\<rparr>"

definition ex_opts :: opts where
  "ex_opts = \<lparr>op_config = \<lparr>hc_unsuccessful_exit_finished_failed = False\<rparr>, op_sample_service = False,
     op_services_paths = [], op_command = [''true'']\<rparr>"

theorem horust_exit_code_witness:
  "\<exists>st. horust_run ex_os 5 ex_failing_outside 0 (supervisor_new ex_world [from_command ''/'' 0 ''true''], [])
      = Some (Inr (st, run_end 5 st))
    \<and> main ex_main_os (\<lambda>_. fst (run_end 5 st)) ex_opts = Inr (ExitCode 101)"
proof -
  let ?services = "[from_command ''/'' 0 ''true'']"
  from ex_failing_run obtain st where st: "any_finished_failed (su_repo st)"
    and bounded: "bounded_run ex_os ex_failing_outside 0 5 (supervisor_new ex_world ?services, []) = Some st"
    by (auto split: option.splits)
  obtain code evs acts where res: "run_end 5 st = (code, evs, acts)" by (cases "run_end 5 st")
  have selected: "select_services ex_main_os ex_opts = Inr (Inr ?services)"
    by (simp add: select_services_def ex_main_os_def ex_opts_def)
  note run = bounded_run_horust_run [OF bounded, of 5, unfolded res]
  from horust_run_result [OF run select_services_wf [OF selected]] st res
  have failed: "\<exists>n sh. svc (su_repo st) n = Some sh \<and> sh_status sh = FinishedFailed"
    by (auto simp: run_end_def exit_status_of_def)
  have "main ex_main_os (\<lambda>_. code) ex_opts = Inr (ExitCode 101)"
    using horust_exit_code [OF _ _ _ selected _ run, of "\<lparr>hc_unsuccessful_exit_finished_failed = True\<rparr>"] failed
    by (auto simp: ex_main_os_def ex_opts_def load_and_merge_def)
  with run res show ?thesis by auto
qed

end
